(* ===== verification/Aegis_Prelude.thy ===== *)
theory Aegis_Prelude
  imports
    Main
    "HOL-Library.AList"
    "HOL-Library.Sublist"
    "HOL-Library.List_Lexorder"
    "HOL-Library.Char_ord"
begin

text \<open>
  Shared vocabulary of the development.

  Rust's \<^verbatim>\<open>String\<close> and \<^verbatim>\<open>&str\<close> are their UTF-8 bytes: a HOL \<^typ>\<open>string\<close>, one
  \<^typ>\<open>char\<close> per byte, so that \<^verbatim>\<open>len()\<close> is \<^const>\<open>length\<close> and byte offsets are list positions.
  This theory models the part of the standard library's \<^verbatim>\<open>str\<close> that the program calls (on
  white space: the ASCII part of \<^verbatim>\<open>char::is_whitespace\<close>, which is all that the session's
  printable-ASCII command lines can contain), decimal and padded formatting, the generic lemmas
  on lists and association lists that the components share, and the generic interface of a
  system whose steps keep an invariant.
\<close>

named_theorems str_simps \<open>unfolding rules of the string functions\<close>
named_theorems wf_intros \<open>operations keep well-formedness\<close>
named_theorems frame_simps \<open>what an operation leaves unchanged\<close>

type_synonym path = "string list"

section \<open>Strings\<close>

subsection \<open>Constants\<close>

abbreviation cr :: char where "cr \<equiv> CHR 0x0D"
abbreviation lf :: char where "lf \<equiv> CHR 0x0A"
abbreviation tab :: char where "tab \<equiv> CHR 0x09"
abbreviation esc :: char where "esc \<equiv> CHR 0x1B"
abbreviation bsl :: char where "bsl \<equiv> CHR 0x5C"
abbreviation dquote :: char where "dquote \<equiv> CHR 0x22"
abbreviation squote :: char where "squote \<equiv> CHR 0x27"

definition crlf :: string where
  "crlf = [cr, lf]"

definition nl :: string where
  "nl = [lf]"

subsection \<open>White space and trimming\<close>

definition is_ws :: "char \<Rightarrow> bool" where
  "is_ws c \<longleftrightarrow> c \<in> {CHR 0x09, CHR 0x0A, CHR 0x0B, CHR 0x0C, CHR 0x0D, CHR 0x20}"

definition trim_start :: "string \<Rightarrow> string" where
  "trim_start s = dropWhile is_ws s"

definition trim_end :: "string \<Rightarrow> string" where
  "trim_end s = rev (dropWhile is_ws (rev s))"

definition trim :: "string \<Rightarrow> string" where
  "trim s = trim_end (trim_start s)"

definition trim_start_matches :: "char \<Rightarrow> string \<Rightarrow> string" where
  "trim_start_matches c s = dropWhile (\<lambda>x. x = c) s"

subsection \<open>Prefixes, suffixes and searching\<close>

definition starts_with :: "string \<Rightarrow> string \<Rightarrow> bool" where
  "starts_with p s \<longleftrightarrow> take (length p) s = p"

definition ends_with :: "string \<Rightarrow> string \<Rightarrow> bool" where
  "ends_with p s \<longleftrightarrow> starts_with (rev p) (rev s)"

definition strip_prefix :: "string \<Rightarrow> string \<Rightarrow> string option" where
  "strip_prefix p s = (if starts_with p s then Some (drop (length p) s) else None)"

fun contains_str :: "string \<Rightarrow> string \<Rightarrow> bool" where
  "contains_str p [] = (p = [])"
| "contains_str p (x # xs) = (starts_with p (x # xs) \<or> contains_str p xs)"

text \<open>\<^verbatim>\<open>str::find\<close> of a string, \<^verbatim>\<open>str::rfind\<close> of a character: byte offsets.\<close>

fun find_str :: "string \<Rightarrow> string \<Rightarrow> nat option" where
  "find_str p [] = (if p = [] then Some 0 else None)"
| "find_str p (x # xs) =
     (if starts_with p (x # xs) then Some 0 else map_option Suc (find_str p xs))"

fun rfind_char :: "char \<Rightarrow> string \<Rightarrow> nat option" where
  "rfind_char c [] = None"
| "rfind_char c (x # xs) =
     (case rfind_char c xs of
        Some i \<Rightarrow> Some (Suc i)
      | None \<Rightarrow> if x = c then Some 0 else None)"


subsection \<open>Splitting, joining, replacing\<close>

fun split_on :: "char \<Rightarrow> string \<Rightarrow> string list" where
  "split_on c [] = [[]]"
| "split_on c (x # xs) =
     (if x = c then [] # split_on c xs
      else (x # hd (split_on c xs)) # tl (split_on c xs))"

fun split_ws :: "string \<Rightarrow> string list" where
  "split_ws [] = [[]]"
| "split_ws (x # xs) =
     (if is_ws x then [] # split_ws xs
      else (x # hd (split_ws xs)) # tl (split_ws xs))"

definition split_whitespace :: "string \<Rightarrow> string list" where
  "split_whitespace s = filter (\<lambda>t. t \<noteq> []) (split_ws s)"

fun join :: "string \<Rightarrow> string list \<Rightarrow> string" where
  "join sep [] = []"
| "join sep [x] = x"
| "join sep (x # y # ys) = x @ sep @ join sep (y # ys)"

text \<open>\<^verbatim>\<open>str::replace\<close> with a non-empty pattern: leftmost, non-overlapping.\<close>

fun replace_str :: "string \<Rightarrow> string \<Rightarrow> string \<Rightarrow> string" where
  "replace_str p r [] = []"
| "replace_str p r (x # xs) =
     (if p \<noteq> [] \<and> starts_with p (x # xs)
      then r @ replace_str p r (drop (length p - 1) xs)
      else x # replace_str p r xs)"

text \<open>\<^verbatim>\<open>trim_start_matches\<close> with a string pattern.\<close>

function trim_start_matches_str :: "string \<Rightarrow> string \<Rightarrow> string" where
  "trim_start_matches_str p s =
     (if p \<noteq> [] \<and> starts_with p s then trim_start_matches_str p (drop (length p) s) else s)"
  by pat_completeness auto
termination
  by (relation "measure (\<lambda>(p, s). length s)") (auto simp: starts_with_def intro!: diff_less)

declare trim_start_matches_str.simps [simp del]

text \<open>
  \<^verbatim>\<open>str::lines\<close>: split at line feeds, one trailing carriage return of a line that was
  ended by a line feed removed, no empty last line.
\<close>

definition strip_cr :: "string \<Rightarrow> string" where
  "strip_cr l = (if l \<noteq> [] \<and> last l = cr then butlast l else l)"

definition str_lines :: "string \<Rightarrow> string list" where
  "str_lines s =
     (let ps = split_on lf s
      in map strip_cr (butlast ps) @ (if last ps = [] then [] else [last ps]))"

subsection \<open>Formatting\<close>

definition digit_char :: "nat \<Rightarrow> char" where
  "digit_char d = ''0123456789'' ! d"

fun show_nat :: "nat \<Rightarrow> string" where
  "show_nat n = (if n < 10 then [digit_char n] else show_nat (n div 10) @ [digit_char (n mod 10)])"

declare show_nat.simps [simp del]

text \<open>\<^verbatim>\<open>{:>w}\<close> and \<^verbatim>\<open>{:<w}\<close>.\<close>

definition pad_left :: "nat \<Rightarrow> string \<Rightarrow> string" where
  "pad_left w s = replicate (w - length s) (CHR '' '') @ s"

definition pad_right :: "nat \<Rightarrow> string \<Rightarrow> string" where
  "pad_right w s = s @ replicate (w - length s) (CHR '' '')"

subsection \<open>Character classes\<close>

definition byte_of :: "char \<Rightarrow> nat" where
  "byte_of c = of_char c"

definition is_ascii_graphic :: "char \<Rightarrow> bool" where
  "is_ascii_graphic c \<longleftrightarrow> 0x21 \<le> byte_of c \<and> byte_of c \<le> 0x7E"

definition is_ascii_alphabetic :: "char \<Rightarrow> bool" where
  "is_ascii_alphabetic c \<longleftrightarrow>
     (0x41 \<le> byte_of c \<and> byte_of c \<le> 0x5A) \<or> (0x61 \<le> byte_of c \<and> byte_of c \<le> 0x7A)"

definition is_ascii_hexdigit :: "char \<Rightarrow> bool" where
  "is_ascii_hexdigit c \<longleftrightarrow>
     (0x30 \<le> byte_of c \<and> byte_of c \<le> 0x39) \<or>
     (0x41 \<le> byte_of c \<and> byte_of c \<le> 0x46) \<or> (0x61 \<le> byte_of c \<and> byte_of c \<le> 0x66)"

definition to_ascii_lower :: "char \<Rightarrow> char" where
  "to_ascii_lower c =
     (if 0x41 \<le> byte_of c \<and> byte_of c \<le> 0x5A then char_of (byte_of c + 32) else c)"

definition eq_ignore_ascii_case :: "string \<Rightarrow> string \<Rightarrow> bool" where
  "eq_ignore_ascii_case a b \<longleftrightarrow> map to_ascii_lower a = map to_ascii_lower b"

section \<open>Lemmas on strings\<close>

lemma starts_with_prefix: "starts_with p s \<longleftrightarrow> prefix p s"
  by (auto simp: starts_with_def prefix_def) (metis append_take_drop_id)

lemma strip_prefix_Some: "strip_prefix p s = Some r \<longleftrightarrow> s = p @ r"
  by (auto simp: strip_prefix_def starts_with_prefix prefix_def)

lemma strip_prefix_None: "strip_prefix p s = None \<longleftrightarrow> \<not> prefix p s"
  by (simp add: strip_prefix_def starts_with_prefix)

lemma starts_with_Nil [simp]: "starts_with [] s"
  by (simp add: starts_with_def)

lemma starts_with_single [simp]: "starts_with [c] s \<longleftrightarrow> s \<noteq> [] \<and> hd s = c"
  by (cases s) (auto simp: starts_with_def)

lemma ends_with_suffix: "ends_with p s \<longleftrightarrow> suffix p s"
  by (simp add: ends_with_def starts_with_prefix suffix_to_prefix)

lemma ends_with_single [simp]: "ends_with [c] s \<longleftrightarrow> s \<noteq> [] \<and> last s = c"
  by (auto simp: ends_with_def hd_rev)

lemma contains_str_sublist: "contains_str p s \<longleftrightarrow> sublist p s"
proof (induction s)
  case Nil
  then show ?case by simp
next
  case (Cons x xs)
  then show ?case
    by (simp add: starts_with_prefix sublist_Cons_right)
qed

lemma contains_str_char [simp]: "contains_str [c] s \<longleftrightarrow> c \<in> set s"
  by (induction s) auto

lemma contains_str_append:
  "contains_str p s \<Longrightarrow> contains_str p (a @ s @ b)"
  unfolding contains_str_sublist by (metis append_assoc sublist_def)

lemma split_on_neq [simp]: "split_on c s \<noteq> []"
  by (induction s) auto

lemma split_ws_neq [simp]: "split_ws s \<noteq> []"
  by (induction s) auto

text \<open>Equations that evaluate the recursive call once.\<close>

lemma split_on_eval [code, str_simps]:
  "split_on c [] = [[]]"
  "split_on c (x # xs) =
     (case split_on c xs of [] \<Rightarrow> [[x]] | y # ys \<Rightarrow> if x = c then [] # y # ys else (x # y) # ys)"
  by (auto split: list.splits)

lemma split_ws_eval [code, str_simps]:
  "split_ws [] = [[]]"
  "split_ws (x # xs) =
     (case split_ws xs of [] \<Rightarrow> [[x]] | y # ys \<Rightarrow> if is_ws x then [] # y # ys else (x # y) # ys)"
  by (auto split: list.splits)

lemma split_on_no_sep: "c \<notin> set s \<Longrightarrow> split_on c s = [s]"
  by (induction s) auto

lemma split_on_append_sep: "split_on c (a @ c # b) = split_on c a @ split_on c b"
  by (induction a) (auto simp: neq_Nil_conv)

lemma rfind_char_None: "rfind_char c s = None \<longleftrightarrow> c \<notin> set s"
  by (induction s) (auto split: option.splits)

lemma rfind_char_last: "c \<notin> set b \<Longrightarrow> rfind_char c (a @ c # b) = Some (length a)"
  by (induction a) (simp_all add: rfind_char_None [THEN iffD2])

lemma rfind_char_Some:
  assumes "rfind_char c s = Some n"
  shows "\<exists>a b. s = a @ c # b \<and> length a = n \<and> c \<notin> set b"
proof -
  have "c \<in> set s" using assms rfind_char_None [of c s] by fastforce
  then obtain a b where s: "s = a @ c # b" "c \<notin> set b" using split_list_last by fast
  then show ?thesis using assms rfind_char_last [of c b a] by auto
qed

text \<open>The lines of a text that is cut after a line feed.\<close>

lemma str_lines_append: "str_lines (a @ lf # b) = str_lines (a @ [lf]) @ str_lines b"
proof -
  have "split_on lf (a @ [lf]) = split_on lf a @ [[]]"
    by (simp add: split_on_append_sep)
  then show ?thesis by (simp add: str_lines_def split_on_append_sep Let_def butlast_append)
qed

lemma split_on_clean: "t \<in> set (split_on c s) \<Longrightarrow> c \<notin> set t"
proof (induction s arbitrary: t)
  case Nil
  then show ?case by simp
next
  case (Cons x xs)
  obtain y ys where y: "split_on c xs = y # ys"
    by (cases "split_on c xs") auto
  with Cons show ?case by (auto split: if_splits)
qed

lemma split_on_set: "t \<in> set (split_on c s) \<Longrightarrow> set t \<subseteq> set s"
proof (induction s arbitrary: t)
  case Nil
  then show ?case by simp
next
  case (Cons x xs)
  obtain y ys where y: "split_on c xs = y # ys"
    by (cases "split_on c xs") auto
  with Cons.prems have "t \<in> set (y # ys) \<or> t = [] \<or> t = x # y"
    by (auto split: if_splits)
  moreover have "set u \<subseteq> set xs" if "u \<in> set (y # ys)" for u
    using Cons.IH [of u] that y by simp
  ultimately show ?case by fastforce
qed

lemma join_split_on: "join [c] (split_on c s) = s"
proof (induction s)
  case Nil
  then show ?case by simp
next
  case (Cons x xs)
  obtain y ys where "split_on c xs = y # ys"
    by (cases "split_on c xs") auto
  with Cons show ?case by (cases ys) auto
qed

lemma split_on_join:
  assumes "ps \<noteq> []" and "\<And>p. p \<in> set ps \<Longrightarrow> c \<notin> set p"
  shows "split_on c (join [c] ps) = ps"
  using assms
proof (induction "[c]" ps rule: join.induct)
  case (3 x y ys)
  then have "split_on c (x @ c # join [c] (y # ys)) = split_on c x @ (y # ys)"
    by (simp add: split_on_append_sep)
  with 3 show ?case by (simp add: split_on_no_sep)
qed (auto simp: split_on_no_sep)

lemma length_split_on_less:
  assumes "c \<in> set s" and "t \<in> set (split_on c s)"
  shows "length t < length s"
proof -
  obtain a b where s: "s = a @ c # b" and a: "c \<notin> set a"
    using assms(1) by (meson split_list_first)
  have len: "length u \<le> length r" if "u \<in> set (split_on c r)" for u r
    using that
  proof (induction r arbitrary: u)
    case Nil
    then show ?case by simp
  next
    case (Cons x xs)
    obtain y ys where "split_on c xs = y # ys"
      by (cases "split_on c xs") auto
    with Cons show ?case by (fastforce split: if_splits)
  qed
  from assms(2) s a have "t = a \<or> t \<in> set (split_on c b)"
    by (auto simp: split_on_append_sep split_on_no_sep)
  with len [of t b] s show ?thesis by auto
qed

lemma split_whitespace_clean:
  assumes "t \<in> set (split_whitespace s)"
  shows "t \<noteq> []" and "\<forall>c\<in>set t. \<not> is_ws c"
proof -
  show "t \<noteq> []" using assms by (simp add: split_whitespace_def)
  have "t \<in> set (split_ws s)" using assms by (simp add: split_whitespace_def)
  then show "\<forall>c\<in>set t. \<not> is_ws c"
  proof (induction s arbitrary: t)
    case Nil
    then show ?case by simp
  next
    case (Cons x xs)
    obtain y ys where y: "split_ws xs = y # ys"
      by (cases "split_ws xs") auto
    with Cons.IH have "\<forall>c\<in>set u. \<not> is_ws c" if "u \<in> set (y # ys)" for u
      using that by simp
    with Cons.prems y show ?case by (fastforce split: if_splits)
  qed
qed

lemma trim_Nil [simp]: "trim [] = []"
  by (simp add: trim_def trim_start_def trim_end_def)

lemma set_trim_start: "set (trim_start s) \<subseteq> set s"
  by (auto simp: trim_start_def dest: set_dropWhileD)

lemma set_trim: "set (trim s) \<subseteq> set s"
  by (auto simp: trim_def trim_start_def trim_end_def dest!: set_dropWhileD)

lemma length_trim: "length (trim s) \<le> length s"
  by (simp add: trim_def trim_start_def trim_end_def)
     (metis length_dropWhile_le length_rev order.trans)

lemma length_trim_start: "length (trim_start s) \<le> length s"
  by (simp add: trim_start_def length_dropWhile_le)

lemma trim_id:
  assumes "s \<noteq> [] \<Longrightarrow> \<not> is_ws (hd s)" and "s \<noteq> [] \<Longrightarrow> \<not> is_ws (last s)"
  shows "trim s = s"
proof (cases s)
  case Nil
  then show ?thesis by simp
next
  case (Cons x xs)
  then have "dropWhile is_ws s = s" using assms(1) by simp
  moreover have "dropWhile is_ws (rev s) = rev s"
    using assms(2) Cons by (cases "rev s") (auto simp: hd_rev [symmetric])
  ultimately show ?thesis by (simp add: trim_def trim_start_def trim_end_def)
qed

lemma trim_ends:
  assumes "trim s \<noteq> []"
  shows "\<not> is_ws (hd (trim s))" and "\<not> is_ws (last (trim s))"
proof -
  let ?t = "dropWhile is_ws s"
  have t: "trim s = rev (dropWhile is_ws (rev ?t))"
    by (simp add: trim_def trim_start_def trim_end_def)
  show "\<not> is_ws (last (trim s))"
    using assms t by (simp add: last_rev hd_dropWhile)
  obtain w where w: "rev ?t = w @ dropWhile is_ws (rev ?t)"
    by (metis takeWhile_dropWhile_id)
  then have "?t = trim s @ rev w"
    by (metis rev_append rev_rev_ident t)
  then have "hd ?t = hd (trim s)" and "?t \<noteq> []"
    using assms by auto
  then show "\<not> is_ws (hd (trim s))"
    by (metis hd_dropWhile)
qed

lemma trim_trim [simp]: "trim (trim s) = trim s"
  by (rule trim_id) (auto dest: trim_ends)

subsection \<open>Line-ending normalisation\<close>

text \<open>
  The shell turns file contents into terminal output with
  \<^verbatim>\<open>replace("\r\n","\n").replace('\n',"\r\n")\<close>.
\<close>

definition to_crlf :: "string \<Rightarrow> string" where
  "to_crlf s = replace_str nl crlf (replace_str crlf nl s)"

lemma starts_with_crlf: "starts_with crlf (x # xs) \<longleftrightarrow> x = cr \<and> xs \<noteq> [] \<and> hd xs = lf"
  by (cases xs) (auto simp: starts_with_def crlf_def)

lemma replace_crlf_Cons:
  "replace_str crlf nl (x # xs) =
     (if x = cr \<and> xs \<noteq> [] \<and> hd xs = lf then lf # replace_str crlf nl (tl xs)
      else x # replace_str crlf nl xs)"
  by (subst replace_str.simps, subst starts_with_crlf)
     (simp add: crlf_def nl_def drop_Suc)

lemma replace_nl_Cons:
  "replace_str nl crlf (x # xs) =
     (if x = lf then cr # lf # replace_str nl crlf xs else x # replace_str nl crlf xs)"
  by (simp add: nl_def crlf_def)

lemmas crlf_simps = replace_crlf_Cons replace_nl_Cons

lemma replace_nl_no_lf: "lf \<notin> set s \<Longrightarrow> replace_str nl crlf s = s"
  by (induction s) (auto simp: replace_nl_Cons simp del: replace_str.simps(2))

text \<open>Removing the carriage returns that were added gives back any text without CRLF pairs.\<close>

fun no_crlf :: "string \<Rightarrow> bool" where
  "no_crlf [] = True"
| "no_crlf (x # xs) = (\<not> (x = cr \<and> xs \<noteq> [] \<and> hd xs = lf) \<and> no_crlf xs)"

lemma hd_replace_nl:
  "replace_str nl crlf s \<noteq> [] \<Longrightarrow> hd (replace_str nl crlf s) \<noteq> lf"
  by (cases s) (auto simp: replace_nl_Cons simp del: replace_str.simps(2))

lemma replace_crlf_nl:
  "no_crlf s \<Longrightarrow> replace_str crlf nl (replace_str nl crlf s) = s"
proof (induction s)
  case Nil
  then show ?case by simp
next
  case (Cons x xs)
  then have IH: "replace_str crlf nl (replace_str nl crlf xs) = xs" by simp
  show ?case
  proof (cases "x = lf")
    case True
    then show ?thesis using IH by (simp add: crlf_simps del: replace_str.simps(2))
  next
    case False
    have "replace_str nl crlf xs \<noteq> [] \<Longrightarrow> hd (replace_str nl crlf xs) \<noteq> lf"
      by (rule hd_replace_nl)
    then show ?thesis
      using False IH by (auto simp: crlf_simps simp del: replace_str.simps(2))
  qed
qed

section \<open>Lists and association lists\<close>

lemma foldl_invariant:
  assumes "\<And>s e. e \<in> set es \<Longrightarrow> P s \<Longrightarrow> P (f s e)" and "P s"
  shows "P (foldl f s es)"
  using assms by (induction es arbitrary: s) auto

lemma map_of_update [simp]: "map_of (AList.update k v al) = (map_of al)(k \<mapsto> v)"
  by (simp add: update_conv')

lemma map_of_delete [simp]: "map_of (AList.delete k al) = (map_of al)(k := None)"
  by (simp add: delete_conv')

lemma length_update_le: "length (AList.update k v al) \<le> Suc (length al)"
  by (induction al) auto

lemma length_update_mem: "k \<in> fst ` set al \<Longrightarrow> length (AList.update k v al) = length al"
  by (induction al) auto

lemma length_update_new: "k \<notin> fst ` set al \<Longrightarrow> length (AList.update k v al) = Suc (length al)"
  by (induction al) auto

lemma alist_update_mem:
  "(k, v) \<in> set (AList.update k' v' al) \<Longrightarrow> k = k' \<and> v = v' \<or> (k, v) \<in> set al"
  by (induction al) (auto split: if_splits)

lemma alist_delete_mem: "(k, v) \<in> set (AList.delete k' al) \<Longrightarrow> (k, v) \<in> set al"
  by (auto simp: AList.delete_eq)

lemma map_of_None_fst: "map_of al k = None \<longleftrightarrow> k \<notin> fst ` set al"
  by (simp add: map_of_eq_None_iff)

lemma map_of_Some_fst: "map_of al k = Some v \<Longrightarrow> k \<in> fst ` set al"
  by (force dest: map_of_SomeD)

lemma map_of_filter_fst:
  "map_of (filter (\<lambda>(k, v). P k) al) k = (if P k then map_of al k else None)"
  by (induction al) auto

lemma distinct_filter_fst: "distinct (map fst al) \<Longrightarrow> distinct (map fst (filter Q al))"
  by (induction al) auto

lemma map_of_filter_distinct:
  "distinct (map fst al) \<Longrightarrow>
   map_of (filter Q al) k = (case map_of al k of None \<Rightarrow> None | Some v \<Rightarrow> if Q (k, v) then Some v else None)"
  by (induction al) (auto simp: map_of_eq_None_iff image_iff split: option.splits)

lemma distinct_filter_length:
  "length (filter P xs) \<le> length xs"
  by (rule length_filter_le)

section \<open>Steps that may panic\<close>

text \<open>A loop whose body may panic; a panic is \<^const>\<open>None\<close> and ends it.\<close>

fun try_fold :: "('s \<Rightarrow> 'a \<Rightarrow> 's option) \<Rightarrow> 's \<Rightarrow> 'a list \<Rightarrow> 's option" where
  "try_fold f s [] = Some s"
| "try_fold f s (x # xs) = (case f s x of None \<Rightarrow> None | Some s' \<Rightarrow> try_fold f s' xs)"

lemma try_fold_total: "(\<And>s x. x \<in> set xs \<Longrightarrow> f s x \<noteq> None) \<Longrightarrow> try_fold f s xs \<noteq> None"
  by (induction xs arbitrary: s) (auto split: option.split)

lemma try_fold_rel:
  assumes "try_fold f s xs = Some s'" and "\<And>s x s'. f s x = Some s' \<Longrightarrow> R s s'"
    and "\<And>s. R s s" and "\<And>s t u. R s t \<Longrightarrow> R t u \<Longrightarrow> R s u"
  shows "R s s'"
  using assms(1)
proof (induction xs arbitrary: s)
  case (Cons x xs)
  then obtain t where "f s x = Some t" "try_fold f t xs = Some s'" by (auto split: option.splits)
  then show ?case using Cons.IH assms(2,4) by blast
qed (simp add: assms(3))

section \<open>Systems whose steps keep an invariant\<close>

text \<open>
  The interface of every component that is driven by a sequence of inputs (admission requests,
  terminal bytes, telemetry events, poll results): a step function and an invariant each step
  keeps. What holds of single steps then holds of every run.
\<close>

locale step_system =
  fixes step :: "'s \<Rightarrow> 'e \<Rightarrow> 's"
    and inv :: "'s \<Rightarrow> bool"
    and ok :: "'e \<Rightarrow> bool"
  assumes step_inv: "inv s \<Longrightarrow> ok e \<Longrightarrow> inv (step s e)"
begin

lemma run_inv: "inv s \<Longrightarrow> list_all ok es \<Longrightarrow> inv (foldl step s es)"
  by (induction es arbitrary: s) (auto intro: step_inv)

lemma run_prefix_inv:
  "inv s \<Longrightarrow> list_all ok es \<Longrightarrow> prefix es' es \<Longrightarrow> inv (foldl step s es')"
  by (auto simp: prefix_def intro: run_inv)

end

end
