(* ===== verification/Net_Addr.thy ===== *)
theory Net_Addr
  imports Aegis_Prelude "HOL-Library.Word"
begin

unbundle bit_operations_syntax

text \<open>
  Network addresses as the program sees them: \<^verbatim>\<open>std::net::IpAddr\<close> with the classification
  methods that \<^verbatim>\<open>handler.rs\<close> and \<^verbatim>\<open>geoip.rs\<close> call, its textual form, and a reference notion
  of CIDR block that is used to state what the guards of the program accept.
\<close>

type_synonym u8 = "8 word"
type_synonym u16 = "16 word"

text \<open>An IPv4 address is its four octets, an IPv6 address its eight 16-bit segments.\<close>

datatype IpAddr =
    V4 u8 u8 u8 u8
  | V6 u16 u16 u16 u16 u16 u16 u16 u16

record SocketAddr =
  sa_ip :: IpAddr
  sa_port :: nat

section \<open>Classification methods of the standard library\<close>

fun v4_is_loopback :: "u8 \<Rightarrow> u8 \<Rightarrow> u8 \<Rightarrow> u8 \<Rightarrow> bool" where
  "v4_is_loopback a b c d = (a = 127)"

fun v4_is_private :: "u8 \<Rightarrow> u8 \<Rightarrow> u8 \<Rightarrow> u8 \<Rightarrow> bool" where
  "v4_is_private a b c d =
     (a = 10 \<or> (a = 172 \<and> 16 \<le> b \<and> b \<le> 31) \<or> (a = 192 \<and> b = 168))"

fun v4_is_link_local :: "u8 \<Rightarrow> u8 \<Rightarrow> u8 \<Rightarrow> u8 \<Rightarrow> bool" where
  "v4_is_link_local a b c d = (a = 169 \<and> b = 254)"

fun v4_is_unspecified :: "u8 \<Rightarrow> u8 \<Rightarrow> u8 \<Rightarrow> u8 \<Rightarrow> bool" where
  "v4_is_unspecified a b c d = (a = 0 \<and> b = 0 \<and> c = 0 \<and> d = 0)"

fun v4_is_broadcast :: "u8 \<Rightarrow> u8 \<Rightarrow> u8 \<Rightarrow> u8 \<Rightarrow> bool" where
  "v4_is_broadcast a b c d = (a = 255 \<and> b = 255 \<and> c = 255 \<and> d = 255)"

fun v4_is_multicast :: "u8 \<Rightarrow> u8 \<Rightarrow> u8 \<Rightarrow> u8 \<Rightarrow> bool" where
  "v4_is_multicast a b c d = (224 \<le> a \<and> a \<le> 239)"

fun v6_is_loopback :: "u16 list \<Rightarrow> bool" where
  "v6_is_loopback s = (s = [0, 0, 0, 0, 0, 0, 0, 1])"

fun v6_is_unspecified :: "u16 list \<Rightarrow> bool" where
  "v6_is_unspecified s = (s = [0, 0, 0, 0, 0, 0, 0, 0])"

fun v6_is_multicast :: "u16 \<Rightarrow> bool" where
  "v6_is_multicast s0 = (s0 AND 0xff00 = 0xff00)"

definition hi_octet :: "u16 \<Rightarrow> u8" where
  "hi_octet w = ucast (drop_bit 8 w)"

definition lo_octet :: "u16 \<Rightarrow> u8" where
  "lo_octet w = ucast w"

text \<open>\<^verbatim>\<open>Ipv6Addr::to_ipv4_mapped\<close>: \<^verbatim>\<open>::ffff:a.b.c.d\<close>.\<close>

fun to_ipv4_mapped :: "IpAddr \<Rightarrow> (u8 \<times> u8 \<times> u8 \<times> u8) option" where
  "to_ipv4_mapped (V6 s0 s1 s2 s3 s4 s5 s6 s7) =
     (if s0 = 0 \<and> s1 = 0 \<and> s2 = 0 \<and> s3 = 0 \<and> s4 = 0 \<and> s5 = 0xffff
      then Some (hi_octet s6, lo_octet s6, hi_octet s7, lo_octet s7) else None)"
| "to_ipv4_mapped (V4 a b c d) = None"

definition UNSPECIFIED :: IpAddr where
  "UNSPECIFIED = V4 0 0 0 0"

section \<open>Textual form\<close>

definition show_byte :: "u8 \<Rightarrow> string" where
  "show_byte b = show_nat (unat b)"

definition hex_digit :: "nat \<Rightarrow> char" where
  "hex_digit d = ''0123456789abcdef'' ! d"

fun show_hex :: "nat \<Rightarrow> string" where
  "show_hex n = (if n < 16 then [hex_digit n] else show_hex (n div 16) @ [hex_digit (n mod 16)])"

declare show_hex.simps [simp del]

definition show_v4 :: "u8 \<Rightarrow> u8 \<Rightarrow> u8 \<Rightarrow> u8 \<Rightarrow> string" where
  "show_v4 a b c d = join ''.'' (map show_byte [a, b, c, d])"

text \<open>
  The longest run of zero segments, the first of the longest ones: pairs of start and length.
\<close>

fun zero_run :: "u16 list \<Rightarrow> nat" where
  "zero_run [] = 0"
| "zero_run (x # xs) = (if x = 0 then Suc (zero_run xs) else 0)"

definition longest_zero_run :: "u16 list \<Rightarrow> nat \<times> nat" where
  "longest_zero_run s =
     foldl (\<lambda>(bi, bl) i. let l = zero_run (drop i s) in if l > bl then (i, l) else (bi, bl))
       (0, 0) [0..<length s]"

definition show_segments :: "u16 list \<Rightarrow> string" where
  "show_segments s = join '':'' (map (\<lambda>w. show_hex (unat w)) s)"

fun show_ip :: "IpAddr \<Rightarrow> string" where
  "show_ip (V4 a b c d) = show_v4 a b c d"
| "show_ip (V6 s0 s1 s2 s3 s4 s5 s6 s7) =
     (case to_ipv4_mapped (V6 s0 s1 s2 s3 s4 s5 s6 s7) of
        Some (a, b, c, d) \<Rightarrow> ''::ffff:'' @ show_v4 a b c d
      | None \<Rightarrow>
          let s = [s0, s1, s2, s3, s4, s5, s6, s7]; (i, l) = longest_zero_run s
          in if l > 1 then show_segments (take i s) @ ''::'' @ show_segments (drop (i + l) s)
             else show_segments s)"

section \<open>CIDR blocks\<close>

text \<open>
  The reference notion the guards are compared with: an address as a number, and a block given
  by its network address and prefix length.
\<close>

definition horner4 :: "nat \<Rightarrow> nat \<Rightarrow> nat \<Rightarrow> nat \<Rightarrow> nat" where
  "horner4 a b c d = ((a * 256 + b) * 256 + c) * 256 + d"

fun ip4_val :: "u8 \<Rightarrow> u8 \<Rightarrow> u8 \<Rightarrow> u8 \<Rightarrow> nat" where
  "ip4_val a b c d = horner4 (unat a) (unat b) (unat c) (unat d)"

fun in_cidr4 :: "nat \<Rightarrow> (nat \<times> nat \<times> nat \<times> nat) \<times> nat \<Rightarrow> bool" where
  "in_cidr4 x ((n1, n2, n3, n4), len) =
     (x div 2 ^ (32 - len) = horner4 n1 n2 n3 n4 div 2 ^ (32 - len))"

lemma unat_u8: "unat (x :: u8) < 256"
  using unsigned_less [of x] by simp

lemma unat_u16: "unat (x :: u16) < 65536"
  using unsigned_less [of x] by simp

lemma u8_eq_iff: "(x :: u8) = y \<longleftrightarrow> unat x = unat y"
  by (simp add: word_unat_eq_iff)

lemma digit_eq:
  assumes "r < M" and "s < (M :: nat)"
  shows "x * M + r = y * M + s \<longleftrightarrow> x = y \<and> r = s"
proof
  assume eq: "x * M + r = y * M + s"
  have "(x * M + r) div M = x" "(y * M + s) div M = y"
    using assms by simp_all
  with eq have "x = y" by simp
  with eq show "x = y \<and> r = s" by simp
qed auto

lemma horner4_div:
  assumes "b < 256" and "c < 256" and "d < 256"
  shows "horner4 a b c d div 2 ^ 24 = a"
    and "horner4 a b c d div 2 ^ 16 = a * 256 + b"
    and "horner4 a b c d div 2 ^ 8 = (a * 256 + b) * 256 + c"
proof -
  show 8: "horner4 a b c d div 2 ^ 8 = (a * 256 + b) * 256 + c"
    using assms(3) by (simp add: horner4_def)
  have "horner4 a b c d div 2 ^ 16 = horner4 a b c d div 2 ^ 8 div 256"
    by (simp add: div_mult2_eq [symmetric])
  then show 16: "horner4 a b c d div 2 ^ 16 = a * 256 + b"
    using assms(2) 8 by simp
  have "horner4 a b c d div 2 ^ 24 = horner4 a b c d div 2 ^ 16 div 256"
    by (simp add: div_mult2_eq [symmetric])
  then show "horner4 a b c d div 2 ^ 24 = a"
    using assms(1) 16 by simp
qed

text \<open>Membership in the blocks of the prefix lengths the guards use.\<close>

lemma in_cidr4_8:
  "in_cidr4 (horner4 a b c d) ((n, 0, 0, 0), 8) \<longleftrightarrow> a = n"
  if "b < 256" "c < 256" "d < 256"
  using that horner4_div(1) [of b c d a] horner4_div(1) [of 0 0 0 n] by simp

lemma in_cidr4_16:
  "in_cidr4 (horner4 a b c d) ((n, m, 0, 0), 16) \<longleftrightarrow> a = n \<and> b = m"
  if "b < 256" "c < 256" "d < 256" "m < 256"
  using that horner4_div(2) [of b c d a] horner4_div(2) [of m 0 0 n]
    digit_eq [of b 256 m a n] by simp

lemma in_cidr4_24:
  "in_cidr4 (horner4 a b c d) ((n, m, k, 0), 24) \<longleftrightarrow> a = n \<and> b = m \<and> c = k"
  if "b < 256" "c < 256" "d < 256" "m < 256" "k < 256"
  using that horner4_div(3) [of b c d a] horner4_div(3) [of m k 0 n]
    digit_eq [of c 256 k "a * 256 + b" "n * 256 + m"] digit_eq [of b 256 m a n] by simp

lemma div_split_pow: "(x :: nat) div 2 ^ (i + j) = x div 2 ^ i div 2 ^ j"
  by (simp add: power_add div_mult2_eq)

lemma in_cidr4_4:
  "in_cidr4 (horner4 a b c d) ((n, 0, 0, 0), 4) \<longleftrightarrow> a div 16 = n div 16"
  if "b < 256" "c < 256" "d < 256"
  using that horner4_div(1) [of b c d a] horner4_div(1) [of 0 0 0 n]
    div_split_pow [of "horner4 a b c d" 24 4] div_split_pow [of "horner4 n 0 0 0" 24 4]
  by simp

text \<open>Prefix lengths between 8 and 16: a split of the second octet.\<close>

lemma in_cidr4_second:
  assumes "b < 256" "c < 256" "d < 256" "m < 256" and len: "8 \<le> len" "len \<le> 16"
  shows "in_cidr4 (horner4 a b c d) ((n, m, 0, 0), len) \<longleftrightarrow>
     a = n \<and> b div 2 ^ (16 - len) = m div 2 ^ (16 - len)"
proof -
  define j where "j = 16 - len"
  have j: "32 - len = 16 + j" "j \<le> 8" using len by (auto simp: j_def)
  define K where "K = (2 :: nat) ^ (8 - j)"
  have K: "256 = K * 2 ^ j"
    using j(2) by (simp add: K_def flip: power_add)
  have div: "(x * 256 + y) div 2 ^ j = x * K + y div 2 ^ j" for x y :: nat
    by (simp add: K mult.assoc [symmetric])
  have lt: "y div 2 ^ j < K" if "y < 256" for y
    using that K by (simp add: less_mult_imp_div_less)
  show ?thesis
    using assms j horner4_div(2) [of b c d a] horner4_div(2) [of m 0 0 n]
    by (simp add: div_split_pow div digit_eq lt j_def [symmetric])
qed

lemmas in_cidr4_simps = in_cidr4_8 in_cidr4_16 in_cidr4_24 in_cidr4_4 in_cidr4_second
section \<open>Octets of a segment\<close>

definition seg_of :: "u8 \<Rightarrow> u8 \<Rightarrow> u16" where
  "seg_of h l = ucast h * 256 + ucast l"

lemma seg_of_octets: "hi_octet (seg_of h l) = h" "lo_octet (seg_of h l) = l"
proof -
  have u: "unat (seg_of h l) = unat h * 256 + unat l"
    using unat_u8 [of h] unat_u8 [of l]
    by (simp add: seg_of_def unat_word_ariths unsigned_ucast_eq take_bit_eq_mod)
  have "unat (hi_octet (seg_of h l)) = (unat (seg_of h l) div 256) mod 256"
    by (simp add: hi_octet_def unsigned_ucast_eq drop_bit_eq_div unat_div take_bit_eq_mod)
  then show "hi_octet (seg_of h l) = h"
    using u unat_u8 [of h] unat_u8 [of l] by (simp add: u8_eq_iff)
  have "unat (lo_octet (seg_of h l)) = unat (seg_of h l) mod 256"
    by (simp add: lo_octet_def unsigned_ucast_eq take_bit_eq_mod)
  then show "lo_octet (seg_of h l) = l"
    using u unat_u8 [of l] by (simp add: u8_eq_iff)
qed

text \<open>The IPv4-mapped spelling of an IPv4 address.\<close>

definition mapped_v6 :: "u8 \<Rightarrow> u8 \<Rightarrow> u8 \<Rightarrow> u8 \<Rightarrow> IpAddr" where
  "mapped_v6 a b c d = V6 0 0 0 0 0 0xffff (seg_of a b) (seg_of c d)"

lemma to_ipv4_mapped_mapped_v6 [simp]:
  "to_ipv4_mapped (mapped_v6 a b c d) = Some (a, b, c, d)"
  by (simp add: mapped_v6_def seg_of_octets)

lemma show_ip_examples:
  "show_ip (V4 192 168 0 1) = ''192.168.0.1''"
  "show_ip (V6 0x2001 0xdb8 0 0 0 0 0 1) = ''2001:db8::1''"
  by (simp_all add: show_v4_def show_byte_def show_nat.simps digit_char_def show_hex.simps
      hex_digit_def longest_zero_run_def show_segments_def Let_def upt_conv_Cons)

end
