(* ===== verification/Utf8.thy ===== *)
theory Utf8
  imports Aegis_Prelude
begin

text \<open>
  UTF-8 as the standard library reads it: the characters of a string as chunks of bytes
  (\<^verbatim>\<open>str::chars\<close>, \<^verbatim>\<open>str::char_indices\<close>), validity (\<^verbatim>\<open>std::str::from_utf8\<close>), which characters
  are control characters, lossy decoding (\<^verbatim>\<open>String::from_utf8_lossy\<close>), and slicing with its panics.
\<close>

definition is_cont :: "char \<Rightarrow> bool" where
  "is_cont b \<longleftrightarrow> 0x80 \<le> byte_of b \<and> byte_of b < 0xC0"

lemma length_dropWhile_Suc [termination_simp]: "length (dropWhile P xs) < Suc (length xs)"
  by (simp add: le_imp_less_Suc length_dropWhile_le)

text \<open>A character of a string starts at each byte that is not a continuation byte.\<close>

fun utf8_chars :: "string \<Rightarrow> string list" where
  "utf8_chars [] = []"
| "utf8_chars (x # xs) = (x # takeWhile is_cont xs) # utf8_chars (dropWhile is_cont xs)"

definition char_offset :: "string \<Rightarrow> nat \<Rightarrow> nat" where
  "char_offset s n = length (concat (take n (utf8_chars s)))"

definition in_range :: "nat \<Rightarrow> nat \<Rightarrow> char \<Rightarrow> bool" where
  "in_range lo hi b \<longleftrightarrow> lo \<le> byte_of b \<and> byte_of b \<le> hi"

text \<open>
  The well-formed byte sequences of one character (Unicode Table 3-7), as
  \<^verbatim>\<open>core::str::validations\<close> checks them.
\<close>

fun valid_char :: "string \<Rightarrow> bool" where
  "valid_char [a] = in_range 0x00 0x7F a"
| "valid_char [a, b] = (in_range 0xC2 0xDF a \<and> is_cont b)"
| "valid_char [a, b, c] =
     ((in_range 0xE0 0xE0 a \<and> in_range 0xA0 0xBF b \<and> is_cont c) \<or>
      (in_range 0xE1 0xEC a \<and> is_cont b \<and> is_cont c) \<or>
      (in_range 0xED 0xED a \<and> in_range 0x80 0x9F b \<and> is_cont c) \<or>
      (in_range 0xEE 0xEF a \<and> is_cont b \<and> is_cont c))"
| "valid_char [a, b, c, d] =
     ((in_range 0xF0 0xF0 a \<and> in_range 0x90 0xBF b \<and> is_cont c \<and> is_cont d) \<or>
      (in_range 0xF1 0xF3 a \<and> is_cont b \<and> is_cont c \<and> is_cont d) \<or>
      (in_range 0xF4 0xF4 a \<and> in_range 0x80 0x8F b \<and> is_cont c \<and> is_cont d))"
| "valid_char _ = False"

definition valid_utf8 :: "string \<Rightarrow> bool" where
  "valid_utf8 s \<longleftrightarrow> list_all valid_char (utf8_chars s)"

text \<open>
  \<^verbatim>\<open>str::is_char_boundary\<close>, and \<^verbatim>\<open>&s[i..j]\<close>: slicing panics on an inverted or out-of-range range and inside a
  character; a panic is \<^const>\<open>None\<close>.
\<close>

definition is_char_boundary :: "string \<Rightarrow> nat \<Rightarrow> bool" where
  "is_char_boundary s i \<longleftrightarrow> i = 0 \<or> i = length s \<or> (i < length s \<and> \<not> is_cont (s ! i))"

definition str_slice :: "string \<Rightarrow> nat \<Rightarrow> nat \<Rightarrow> string option" where
  "str_slice s i j =
     (if i \<le> j \<and> j \<le> length s \<and> is_char_boundary s i \<and> is_char_boundary s j
      then Some (take (j - i) (drop i s)) else None)"

text \<open>\<^verbatim>\<open>char::is_control\<close>: the C0 controls, DEL and the C1 controls.\<close>

fun is_control :: "string \<Rightarrow> bool" where
  "is_control [a] = (byte_of a < 0x20 \<or> byte_of a = 0x7F)"
| "is_control [a, b] = (byte_of a = 0xC2 \<and> in_range 0x80 0x9F b)"
| "is_control _ = False"

lemma concat_utf8_chars [simp]: "concat (utf8_chars s) = s"
  by (induction s rule: utf8_chars.induct) auto

lemma utf8_chars_eq_Nil [simp]: "utf8_chars s = [] \<longleftrightarrow> s = []"
  by (cases s) auto

lemma is_cont_byte: "is_cont b \<Longrightarrow> 0x80 \<le> byte_of b"
  by (simp add: is_cont_def)

text \<open>Splitting before a byte that starts a character splits the characters.\<close>

lemma while_append_stop:
  assumes "b = [] \<or> \<not> P (hd b)"
  shows "takeWhile P (a @ b) = takeWhile P a" and "dropWhile P (a @ b) = dropWhile P a @ b"
proof -
  from assms have "takeWhile P b = []" and "dropWhile P b = b"
    by (cases b; auto)+
  then show "takeWhile P (a @ b) = takeWhile P a" and "dropWhile P (a @ b) = dropWhile P a @ b"
    by (induction a) auto
qed

lemma utf8_chars_append:
  assumes "b = [] \<or> \<not> is_cont (hd b)"
  shows "utf8_chars (a @ b) = utf8_chars a @ utf8_chars b"
  by (induction a rule: utf8_chars.induct) (simp_all add: while_append_stop [where P = is_cont, OF assms])

lemma hd_concat_chars:
  assumes "s = [] \<or> \<not> is_cont (hd s)"
  shows "concat (take n (utf8_chars s)) = [] \<or> \<not> is_cont (hd (concat (take n (utf8_chars s))))"
  using assms by (cases s; cases n) auto

lemma hd_dropWhile_stop: "dropWhile P xs = [] \<or> \<not> P (hd (dropWhile P xs))"
  by (metis hd_dropWhile)

lemma utf8_chars_take_concat:
  "utf8_chars (concat (take n (utf8_chars s))) = take n (utf8_chars s)"
proof (induction s arbitrary: n rule: utf8_chars.induct)
  case 1
  then show ?case by simp
next
  case (2 x xs)
  show ?case
  proof (cases n)
    case 0
    then show ?thesis by simp
  next
    case (Suc m)
    let ?t = "concat (take m (utf8_chars (dropWhile is_cont xs)))"
    have "?t = [] \<or> \<not> is_cont (hd ?t)"
      by (rule hd_concat_chars) (rule hd_dropWhile_stop)
    note stop = while_append_stop [where P = is_cont and a = "takeWhile is_cont xs", OF this]
    have "dropWhile is_cont (takeWhile is_cont xs) = []"
      by (auto dest: set_takeWhileD)
    with stop show ?thesis using Suc "2" [of m] by simp
  qed
qed

lemma valid_char_not_cont_hd: "valid_char (x # xs) \<Longrightarrow> \<not> is_cont x"
  by (cases "x # xs" rule: valid_char.cases) (auto simp: in_range_def is_cont_def)

lemma valid_utf8_append:
  assumes "valid_utf8 a" and "valid_utf8 b"
  shows "valid_utf8 (a @ b)"
proof -
  have "b = [] \<or> \<not> is_cont (hd b)"
    using assms(2) by (cases b) (auto simp: valid_utf8_def dest: valid_char_not_cont_hd)
  then show ?thesis
    using assms by (simp add: valid_utf8_def utf8_chars_append)
qed

lemma valid_utf8_take:
  "valid_utf8 s \<Longrightarrow> valid_utf8 (concat (take n (utf8_chars s)))"
  unfolding valid_utf8_def utf8_chars_take_concat
  by (metis append_take_drop_id list_all_append)

lemma utf8_chars_ascii:
  "\<forall>c\<in>set s. byte_of c < 0x80 \<Longrightarrow> utf8_chars s = map (\<lambda>c. [c]) s"
proof (induction s rule: utf8_chars.induct)
  case 1
  then show ?case by simp
next
  case (2 x xs)
  then have "takeWhile is_cont xs = []" and "dropWhile is_cont xs = xs"
    by (cases xs; auto simp: is_cont_def)+
  then show ?case using 2 by simp
qed

lemma valid_utf8_ascii: "\<forall>c\<in>set s. byte_of c < 0x80 \<Longrightarrow> valid_utf8 s"
  by (auto simp: valid_utf8_def utf8_chars_ascii list_all_iff in_range_def)

section \<open>Lossy decoding\<close>

text \<open>
  \<^verbatim>\<open>String::from_utf8_lossy\<close>: every maximal ill-formed subsequence becomes U+FFFD. A sequence never
  extends over a byte that is not a continuation byte, so each chunk of \<^const>\<open>utf8_chars\<close> is decoded on
  its own: a well-formed character, or the longest beginning of one, and then stray continuation bytes.
\<close>

definition replacement :: string where
  "replacement = [CHR 0xEF, CHR 0xBF, CHR 0xBD]"

definition bad_len :: "string \<Rightarrow> nat" where
  "bad_len c =
     (if 3 \<le> length c \<and> valid_char (take 3 c @ [CHR 0x80]) then 3
      else if 2 \<le> length c \<and>
        (valid_char (take 2 c @ [CHR 0x80]) \<or> valid_char (take 2 c @ [CHR 0x80, CHR 0x80])) then 2
      else 1)"

definition lossy_chunk :: "string \<Rightarrow> string" where
  "lossy_chunk c =
     (case find (\<lambda>k. valid_char (take k c)) [1, 2, 3, 4] of
        Some k \<Rightarrow> take k c @ concat (replicate (length c - k) replacement)
      | None \<Rightarrow> concat (replicate (1 + (length c - bad_len c)) replacement))"

definition from_utf8_lossy :: "string \<Rightarrow> string" where
  "from_utf8_lossy s = concat (map lossy_chunk (utf8_chars s))"

text \<open>Decoding can be cut after any ASCII byte, and leaves well-formed text alone.\<close>

lemma lossy_chunk_ascii: "byte_of x < 0x80 \<Longrightarrow> lossy_chunk (x # cs) = x # concat (replicate (length cs) replacement)"
  by (simp add: lossy_chunk_def in_range_def)

lemma lossy_chunk_cont:
  assumes "is_cont x"
  shows "lossy_chunk (x # cs) = concat (replicate (Suc (length cs)) replacement)"
proof -
  have "\<not> valid_char (x # ys)" for ys using assms valid_char_not_cont_hd by blast
  moreover have "\<not> in_range 0 127 x" using assms by (simp add: in_range_def is_cont_def)
  ultimately show ?thesis by (simp add: lossy_chunk_def bad_len_def)
qed

lemma from_utf8_lossy_cut:
  assumes "byte_of x < 0x80"
  shows "from_utf8_lossy (a @ x # b) = from_utf8_lossy (a @ [x]) @ from_utf8_lossy b"
proof -
  have x: "\<not> is_cont x" using assms by (simp add: is_cont_def)
  have "from_utf8_lossy b = concat (replicate (length (takeWhile is_cont b)) replacement) @ from_utf8_lossy (dropWhile is_cont b)"
    by (cases b) (auto simp: from_utf8_lossy_def lossy_chunk_cont)
  with x assms show ?thesis
    by (simp add: from_utf8_lossy_def utf8_chars_append lossy_chunk_ascii)
qed

lemma from_utf8_lossy_snoc: "byte_of x < 0x80 \<Longrightarrow> from_utf8_lossy (a @ [x]) = from_utf8_lossy a @ [x]"
  by (simp add: from_utf8_lossy_def utf8_chars_append is_cont_def lossy_chunk_ascii)

definition char_width :: "char \<Rightarrow> nat" where
  "char_width a = (if byte_of a < 0x80 then 1 else if byte_of a < 0xE0 then 2 else if byte_of a < 0xF0 then 3 else 4)"

lemma valid_char_width: "valid_char (a # cs) \<Longrightarrow> Suc (length cs) = char_width a"
  by (cases "a # cs" rule: valid_char.cases) (auto simp: in_range_def char_width_def)

lemma lossy_chunk_valid:
  assumes "valid_char c"
  shows "lossy_chunk c = c"
proof -
  obtain a cs where c: "c = a # cs" using assms by (cases c) auto
  have len: "Suc (length cs) = char_width a" using assms valid_char_width c by simp
  have w: "valid_char (take k c) \<longleftrightarrow> char_width a \<le> k" if "1 \<le> k" for k
  proof
    assume "valid_char (take k c)"
    then show "char_width a \<le> k"
      using valid_char_width [of a "take (k - 1) cs"] that by (simp add: c take_Cons')
  next
    assume "char_width a \<le> k"
    then show "valid_char (take k c)" using assms len c by (simp add: take_all)
  qed
  have "1 \<le> char_width a" "char_width a \<le> 4" by (simp_all add: char_width_def)
  then have "char_width a = 1 \<or> char_width a = 2 \<or> char_width a = 3 \<or> char_width a = 4" by linarith
  then have "find (\<lambda>k. valid_char (take k c)) [1, 2, 3, 4] = Some (char_width a)"
    unfolding find.simps by (auto simp: w [of 1, simplified] w [of 2] w [of 3] w [of 4])
  moreover have "length c = char_width a" using len c by simp
  ultimately show ?thesis by (simp add: lossy_chunk_def)
qed

lemma from_utf8_lossy_valid: "valid_utf8 s \<Longrightarrow> from_utf8_lossy s = s"
proof -
  assume "valid_utf8 s"
  then have "map lossy_chunk (utf8_chars s) = utf8_chars s"
    by (simp add: valid_utf8_def list_all_iff lossy_chunk_valid map_idI)
  then show ?thesis by (simp add: from_utf8_lossy_def)
qed

text \<open>Whatever the bytes, decoding gives well-formed text.\<close>

lemma valid_char_tail: "valid_char (x # cs) \<Longrightarrow> list_all is_cont cs"
  by (cases "x # cs" rule: valid_char.cases) (auto simp: in_range_def is_cont_def)

lemma valid_utf8_char:
  assumes "valid_char c"
  shows "valid_utf8 c"
proof -
  obtain x cs where c: "c = x # cs" using assms by (cases c) auto
  then have "\<forall>b\<in>set cs. is_cont b" using valid_char_tail assms by (simp add: list_all_iff)
  then have "takeWhile is_cont cs = cs" "dropWhile is_cont cs = []"
    by (simp_all add: takeWhile_eq_all_conv dropWhile_eq_Nil_conv)
  then have "utf8_chars c = [c]" by (simp only: c utf8_chars.simps)
  then show ?thesis using assms by (simp add: valid_utf8_def)
qed

lemma valid_utf8_Nil [simp]: "valid_utf8 []"
  by (simp add: valid_utf8_def)

lemma valid_utf8_concat: "list_all valid_utf8 ss \<Longrightarrow> valid_utf8 (concat ss)"
  by (induction ss) (simp_all add: valid_utf8_append)

lemma valid_utf8_replacement: "valid_utf8 replacement"
  by (rule valid_utf8_char) (simp add: replacement_def in_range_def is_cont_def byte_of_def)

lemma lossy_chunk_text: "valid_utf8 (lossy_chunk c)"
proof -
  have r: "valid_utf8 (concat (replicate n replacement))" for n
    by (rule valid_utf8_concat) (simp add: list_all_iff valid_utf8_replacement)
  show ?thesis
  proof (cases "find (\<lambda>k. valid_char (take k c)) [1, 2, 3, 4]")
    case None
    then show ?thesis using r by (simp add: lossy_chunk_def del: replicate.simps)
  next
    case (Some k)
    then have "valid_char (take k c)" using find_Some_iff [of "\<lambda>k. valid_char (take k c)" "[1, 2, 3, 4]" k] by blast
    then show ?thesis using Some r valid_utf8_append valid_utf8_char by (simp add: lossy_chunk_def)
  qed
qed

lemma from_utf8_lossy_text: "valid_utf8 (from_utf8_lossy s)"
  unfolding from_utf8_lossy_def by (rule valid_utf8_concat) (simp add: list_all_iff lossy_chunk_text)

text \<open>Text can be cut at an ASCII byte, so its lines are text.\<close>

lemma valid_utf8_cut:
  assumes "byte_of x < 0x80" and "valid_utf8 (a @ x # b)"
  shows "valid_utf8 a" and "valid_utf8 b"
proof -
  have x: "\<not> is_cont x" using assms(1) by (simp add: is_cont_def)
  then have chars: "utf8_chars (a @ x # b) = utf8_chars a @ (x # takeWhile is_cont b) # utf8_chars (dropWhile is_cont b)"
    by (simp add: utf8_chars_append)
  then have "valid_char (x # takeWhile is_cont b)" and rest: "list_all valid_char (utf8_chars (dropWhile is_cont b))"
    and a: "list_all valid_char (utf8_chars a)"
    using assms(2) by (simp_all add: valid_utf8_def)
  then have "takeWhile is_cont b = []" using valid_char_width [of x] assms(1) by (fastforce simp: char_width_def)
  then have "dropWhile is_cont b = b" by (metis append_Nil takeWhile_dropWhile_id)
  then show "valid_utf8 a" "valid_utf8 b" using a rest by (simp_all add: valid_utf8_def)
qed

lemma split_on_text:
  assumes "byte_of c < 0x80"
  shows "valid_utf8 s \<Longrightarrow> list_all valid_utf8 (split_on c s)"
proof (induction "length s" arbitrary: s rule: less_induct)
  case less
  show ?case
  proof (cases "c \<in> set s")
    case False
    then show ?thesis using less.prems by (simp add: split_on_no_sep)
  next
    case True
    then obtain a b where s: "s = a @ c # b" "c \<notin> set a" using split_list_first by fast
    then have "valid_utf8 a" "valid_utf8 b" using less.prems valid_utf8_cut [OF assms, of a b] by simp_all
    moreover have "list_all valid_utf8 (split_on c b)" by (rule less.hyps) (use s calculation in simp_all)
    ultimately show ?thesis using s by (simp add: split_on_append_sep split_on_no_sep)
  qed
qed

text \<open>Slices at the ASCII bytes of a text do not panic.\<close>

lemma valid_char_head: "valid_char (x # cs) \<Longrightarrow> \<not> is_cont x"
  by (cases "x # cs" rule: valid_char.cases) (auto simp: in_range_def is_cont_def)

lemma valid_utf8_head: "valid_utf8 s \<Longrightarrow> s = [] \<or> \<not> is_cont (hd s)"
  by (cases s) (auto simp: valid_utf8_def dest: valid_char_head)

lemma after_ascii: "byte_of x < 0x80 \<Longrightarrow> valid_utf8 (a @ x # b) \<Longrightarrow> b = [] \<or> \<not> is_cont (hd b)"
  by (rule valid_utf8_head) (rule valid_utf8_cut(2))

lemma str_slice_to: "b = [] \<or> \<not> is_cont (hd b) \<Longrightarrow> str_slice (a @ b) 0 (length a) = Some a"
  by (cases b) (auto simp: str_slice_def is_char_boundary_def nth_append)

lemma str_slice_from: "b = [] \<or> \<not> is_cont (hd b) \<Longrightarrow> str_slice (a @ b) (length a) (length (a @ b)) = Some b"
  by (cases b) (auto simp: str_slice_def is_char_boundary_def nth_append)

lemma valid_utf8_dropWhile:
  assumes "\<And>x. P x \<Longrightarrow> byte_of x < 0x80" and "valid_utf8 s"
  shows "valid_utf8 (dropWhile P s)"
  using assms(2)
proof (induction s)
  case (Cons x s)
  then show ?case using assms(1) [of x] valid_utf8_cut(2) [of x "[]" s] by auto
qed simp

lemma valid_utf8_dropWhile_rev:
  assumes "\<And>x. P x \<Longrightarrow> byte_of x < 0x80" and "valid_utf8 s"
  shows "valid_utf8 (rev (dropWhile P (rev s)))"
  using assms(2)
proof (induction s rule: rev_induct)
  case (snoc x s)
  then show ?case using assms(1) [of x] valid_utf8_cut(1) [of x s "[]"] by auto
qed simp

lemma is_ws_ascii: "is_ws x \<Longrightarrow> byte_of x < 0x80"
  by (auto simp: is_ws_def byte_of_def)

lemma trim_text: "valid_utf8 s \<Longrightarrow> valid_utf8 (trim s)" "valid_utf8 s \<Longrightarrow> valid_utf8 (trim_start s)"
  by (simp_all add: trim_def trim_start_def trim_end_def valid_utf8_dropWhile valid_utf8_dropWhile_rev is_ws_ascii)

lemma split_ws_word: "\<forall>c \<in> set w. \<not> is_ws c \<Longrightarrow> split_ws w = [w]"
  by (induction w) auto

lemma split_ws_append: "\<forall>c \<in> set a. \<not> is_ws c \<Longrightarrow> is_ws x \<Longrightarrow> split_ws (a @ x # b) = a # split_ws b"
  by (induction a) auto

lemma split_ws_text: "valid_utf8 s \<Longrightarrow> list_all valid_utf8 (split_ws s)"
proof (induction "length s" arbitrary: s rule: less_induct)
  case less
  show ?case
  proof (cases "\<exists>x\<in>set s. is_ws x")
    case False
    then show ?thesis using less.prems by (simp add: split_ws_word)
  next
    case True
    then obtain a x b where s: "s = a @ x # b" "is_ws x" "\<forall>y\<in>set a. \<not> is_ws y" using split_list_first_prop by metis
    then have "valid_utf8 a" "valid_utf8 b" using less.prems valid_utf8_cut [OF is_ws_ascii, of x a b] by simp_all
    moreover have "list_all valid_utf8 (split_ws b)" by (rule less.hyps) (use s calculation in simp_all)
    ultimately show ?thesis using s by (simp add: split_ws_append)
  qed
qed

lemma split_whitespace_text: "valid_utf8 s \<Longrightarrow> list_all valid_utf8 (split_whitespace s)"
  using split_ws_text by (auto simp: split_whitespace_def list_all_iff)

end
