(* ===== verification/Aegis_Common.thy ===== *)
theory Aegis_Common
  imports Net_Addr Utf8 Complex_Main
begin

text \<open>
  The shared types of \<^verbatim>\<open>crates/aegis-common\<close>: session identity, the telemetry events, the
  configuration with its defaults and the kernel event record.

  A \<^verbatim>\<open>DateTime<Utc>\<close> is its number of nanoseconds since the epoch. A finite \<^verbatim>\<open>f64\<close> is a rational
  number; the program only stores such values, doubles, halves and rounds them, all of which are
  exact.
\<close>

type_synonym SessionId = string
type_synonym DateTime = int
type_synonym u32 = "32 word"

definition timestamp :: "DateTime \<Rightarrow> int" where
  "timestamp t = t div 1000000000"

section \<open>Errors\<close>

datatype AegisError =
    Io
  | Ssh string
  | Sandbox string
  | Ebpf string
  | Forensics string
  | Config string
  | ChannelClosed

section \<open>Session metadata\<close>

record SessionMeta =
  session_id :: SessionId
  client_ip :: IpAddr
  client_port :: u16
  start_ts :: DateTime

text \<open>
  \<^verbatim>\<open>SessionId::new\<close> keeps the first twelve characters of a random UUID's 32 hex digits; the
  digits are an argument.
\<close>

definition SessionId_new :: "string \<Rightarrow> SessionId" where
  "SessionId_new uuid_simple = take 12 uuid_simple"

definition SessionMeta_new :: "string \<Rightarrow> DateTime \<Rightarrow> IpAddr \<Rightarrow> u16 \<Rightarrow> SessionMeta" where
  "SessionMeta_new uuid_simple now ip port =
     \<lparr>session_id = SessionId_new uuid_simple, client_ip = ip, client_port = port, start_ts = now\<rparr>"

section \<open>Telemetry events\<close>

record GeoIpInfo =
  country :: "string option"
  city :: "string option"
  asn :: "string option"
  lat :: "rat option"
  lon :: "rat option"

definition GeoIpInfo_default :: GeoIpInfo where
  "GeoIpInfo_default = \<lparr>country = None, city = None, asn = None, lat = None, lon = None\<rparr>"

datatype AuthMethod = Password | PublicKey

datatype PayloadFileType = Elf | Shell | Pe | Unknown

record IocFindings =
  strings_preview :: "string list"
  ip_addresses :: "string list"
  urls :: "string list"
  base64_blobs :: "string list"
  monero_wallets :: "string list"

record SessionStartEvent =
  ss_timestamp :: DateTime
  ss_session_id :: SessionId
  ss_ip :: IpAddr
  ss_port :: u16
  ss_geo :: "GeoIpInfo option"

record SessionEndEvent =
  se_timestamp :: DateTime
  se_session_id :: SessionId
  se_ip :: IpAddr
  se_duration_secs :: rat

record CredentialHarvestEvent =
  ch_timestamp :: DateTime
  ch_session_id :: SessionId
  ch_ip :: IpAddr
  ch_username :: string
  ch_password :: "string option"
  ch_auth_method :: AuthMethod

record CommandRunEvent =
  cr_timestamp :: DateTime
  cr_session_id :: SessionId
  cr_ip :: IpAddr
  cr_command :: string

record SyscallExecveEvent =
  sx_timestamp :: DateTime
  sx_session_id :: SessionId
  sx_ip :: IpAddr
  sx_pid :: u32
  sx_filename :: string
  sx_argv :: "string list"

record SyscallConnectEvent =
  sc_timestamp :: DateTime
  sc_session_id :: SessionId
  sc_ip :: IpAddr
  sc_pid :: u32
  sc_dest_ip :: IpAddr
  sc_dest_port :: u16

record SyscallMemfdCreateEvent =
  sm_timestamp :: DateTime
  sm_session_id :: SessionId
  sm_ip :: IpAddr
  sm_pid :: u32
  sm_name :: string

record PayloadCapturedEvent =
  pc_timestamp :: DateTime
  pc_session_id :: SessionId
  pc_ip :: IpAddr
  pc_source_url :: "string option"
  pc_sha256 :: string
  pc_size_bytes :: nat
  pc_quarantine_path :: string
  pc_file_type :: PayloadFileType
  pc_iocs :: IocFindings

datatype TelemetryEvent =
    SessionStart SessionStartEvent
  | SessionEnd SessionEndEvent
  | CredentialHarvest CredentialHarvestEvent
  | CommandRun CommandRunEvent
  | SyscallExecve SyscallExecveEvent
  | SyscallConnect SyscallConnectEvent
  | SyscallMemfdCreate SyscallMemfdCreateEvent
  | PayloadCaptured PayloadCapturedEvent

fun event_session_id :: "TelemetryEvent \<Rightarrow> SessionId option" where
  "event_session_id (SessionStart e) = Some (ss_session_id e)"
| "event_session_id (SessionEnd e) = Some (se_session_id e)"
| "event_session_id (CredentialHarvest e) = Some (ch_session_id e)"
| "event_session_id (CommandRun e) = Some (cr_session_id e)"
| "event_session_id (SyscallExecve e) = Some (sx_session_id e)"
| "event_session_id (SyscallConnect e) = Some (sc_session_id e)"
| "event_session_id (SyscallMemfdCreate e) = Some (sm_session_id e)"
| "event_session_id (PayloadCaptured e) = Some (pc_session_id e)"

section \<open>Configuration\<close>

record GatewayConfig =
  gw_bind_addr :: string
  gw_port :: u16
  max_sessions :: nat
  max_sessions_per_ip :: u32
  max_connects_per_min_per_ip :: u32
  host_key_path :: "string option"

record VmmConfig =
  rootfs_path :: path
  overlay_base :: path
  memory_limit_mb :: nat
  cpu_quota_percent :: u8

record ForensicsConfig =
  quarantine_dir :: path
  sessions_dir :: path
  attacks_log :: path
  string_min_len :: nat
  fetch_payloads :: bool
  max_payload_bytes :: nat
  max_fetches_per_session :: u32
  max_analysis_bytes :: nat

record LoggingConfig =
  level :: string
  json :: bool

record DashboardConfig =
  db_bind_addr :: string
  db_port :: u16
  cfg_require_auth :: bool
  token_path :: string

record GeoIpConfig =
  geoip_db_path :: "string option"
  asn_db_path :: "string option"

record AegisConfig =
  gateway :: GatewayConfig
  vmm :: VmmConfig
  forensics_cfg :: ForensicsConfig
  logging :: LoggingConfig
  dashboard :: DashboardConfig
  geoip :: GeoIpConfig

definition default_require_auth :: bool where
  "default_require_auth = True"

definition default_token_path :: string where
  "default_token_path = ''./dashboard_token''"

definition default_dashboard_config :: DashboardConfig where
  "default_dashboard_config =
     \<lparr>db_bind_addr = ''127.0.0.1'', db_port = 8080,
      cfg_require_auth = default_require_auth, token_path = default_token_path\<rparr>"

definition default_max_sessions_per_ip :: u32 where
  "default_max_sessions_per_ip = 8"

definition default_max_connects_per_min_per_ip :: u32 where
  "default_max_connects_per_min_per_ip = 20"

definition default_fetch_payloads :: bool where
  "default_fetch_payloads = True"

definition default_max_payload_bytes :: nat where
  "default_max_payload_bytes = 8 * 1024 * 1024"

definition default_max_fetches_per_session :: u32 where
  "default_max_fetches_per_session = 5"

definition default_max_analysis_bytes :: nat where
  "default_max_analysis_bytes = 32 * 1024 * 1024"

text \<open>
  Paths of the configuration are component lists; \<^verbatim>\<open>./x\<close> is the component \<open>x\<close> below the
  working directory.
\<close>

definition AegisConfig_default :: AegisConfig where
  "AegisConfig_default =
     \<lparr>gateway =
        \<lparr>gw_bind_addr = ''0.0.0.0'', gw_port = 2222, max_sessions = 256,
         max_sessions_per_ip = default_max_sessions_per_ip,
         max_connects_per_min_per_ip = default_max_connects_per_min_per_ip,
         host_key_path = Some ''./host_key.pem''\<rparr>,
      vmm =
        \<lparr>rootfs_path = [''rootfs''], overlay_base = [''overlay''],
         memory_limit_mb = 256, cpu_quota_percent = 20\<rparr>,
      forensics_cfg =
        \<lparr>quarantine_dir = [''quarantine''], sessions_dir = [''sessions''],
         attacks_log = [''attacks.json''], string_min_len = 6,
         fetch_payloads = default_fetch_payloads,
         max_payload_bytes = default_max_payload_bytes,
         max_fetches_per_session = default_max_fetches_per_session,
         max_analysis_bytes = default_max_analysis_bytes\<rparr>,
      logging = \<lparr>level = ''info'', json = False\<rparr>,
      dashboard = default_dashboard_config,
      geoip = \<lparr>geoip_db_path = None, asn_db_path = None\<rparr>\<rparr>"

section \<open>Kernel events\<close>

datatype KernelEventType = Execve | Connect | MemfdCreate

fun event_type_code :: "KernelEventType \<Rightarrow> u32" where
  "event_type_code Execve = 1"
| "event_type_code Connect = 2"
| "event_type_code MemfdCreate = 3"

record KernelEvent =
  ke_event_type :: u32
  ke_pid :: u32
  ke_ppid :: u32
  ke_uid :: u32
  ke_ns_pid :: u32
  ke_dest_ip :: u32
  ke_dest_port :: u16
  ke_pad :: u16
  ke_filename :: string
  ke_argv :: string

text \<open>The bytes before the first NUL, or all of them; not UTF-8 gives a fixed text.\<close>

definition c_str :: "string \<Rightarrow> string" where
  "c_str bytes =
     (let s = takeWhile (\<lambda>b. b \<noteq> CHR 0x00) bytes
      in if valid_utf8 s then s else ''<invalid>'')"

definition filename_str :: "KernelEvent \<Rightarrow> string" where
  "filename_str ke = c_str (ke_filename ke)"

definition argv_str :: "KernelEvent \<Rightarrow> string" where
  "argv_str ke = c_str (ke_argv ke)"

text \<open>
  \<^verbatim>\<open>u32::from_be\<close> and \<^verbatim>\<open>u16::from_be\<close> on a little-endian host swap the bytes; \<^verbatim>\<open>Ipv4Addr::from\<close>
  takes the most significant byte first.
\<close>

definition u32_byte :: "nat \<Rightarrow> u32 \<Rightarrow> u8" where
  "u32_byte i w = ucast (drop_bit (8 * i) w)"

definition dest_ip_addr :: "KernelEvent \<Rightarrow> IpAddr" where
  "dest_ip_addr ke =
     (let w = ke_dest_ip ke
      in V4 (u32_byte 0 w) (u32_byte 1 w) (u32_byte 2 w) (u32_byte 3 w))"

definition u16_from_be :: "u16 \<Rightarrow> u16" where
  "u16_from_be w = seg_of (lo_octet w) (hi_octet w)"

end
