(* ===== verification/Vfs_Tree.thy ===== *)
theory Vfs_Tree
  imports Aegis_Common
begin

text \<open>
  The in-memory file tree of a session (\<^verbatim>\<open>FsNode\<close>, \<^verbatim>\<open>FileNode\<close>, \<^verbatim>\<open>DirNode\<close> in
  \<^verbatim>\<open>crates/aegis-gateway/src/vfs.rs\<close>), lookup and update along a path, and the default Ubuntu
  hierarchy. A \<^verbatim>\<open>HashMap\<close> of children is an association list; nothing the program shows
  depends on its order.
\<close>

section \<open>Nodes\<close>

record FileNode =
  fn_content :: string
  fn_perms :: string
  fn_owner :: string
  fn_group :: string
  fn_mtime :: string
  permission_denied :: bool

datatype FsNode = File FileNode | Dir DirNode
and DirNode =
  DirNode (dn_perms: string) (dn_owner: string) (dn_group: string) (dn_mtime: string)
    (children: "(string \<times> FsNode) list")

definition FileNode_new :: "string \<Rightarrow> FileNode" where
  "FileNode_new c =
     \<lparr>fn_content = c, fn_perms = ''-rw-r--r--'', fn_owner = ''root'', fn_group = ''root'',
      fn_mtime = ''Aug 27 18:00'', permission_denied = False\<rparr>"

definition denied :: "FileNode \<Rightarrow> FileNode" where
  "denied f = f\<lparr>permission_denied := True, fn_perms := ''-rw-r-----'', fn_group := ''shadow''\<rparr>"

definition DirNode_new :: DirNode where
  "DirNode_new = DirNode ''drwxr-xr-x'' ''root'' ''root'' ''Aug 27 18:00'' []"

fun with_perms :: "string \<Rightarrow> DirNode \<Rightarrow> DirNode" where
  "with_perms p (DirNode _ own g t cs) = DirNode p own g t cs"

fun insert_child :: "string \<Rightarrow> FsNode \<Rightarrow> DirNode \<Rightarrow> DirNode" where
  "insert_child n node (DirNode p own g t cs) = DirNode p own g t (AList.update n node cs)"

fun remove_child :: "string \<Rightarrow> DirNode \<Rightarrow> DirNode" where
  "remove_child n (DirNode p own g t cs) = DirNode p own g t (AList.delete n cs)"

definition file_node :: "string \<Rightarrow> FsNode" where
  "file_node c = File (FileNode_new c)"

text \<open>The chain of \<^verbatim>\<open>.insert(..)\<close> calls that builds a directory.\<close>

definition dir_of :: "(string \<times> FsNode) list \<Rightarrow> DirNode" where
  "dir_of cs = foldl (\<lambda>d (n, node). insert_child n node d) DirNode_new cs"

section \<open>Lookup and update along a path\<close>

abbreviation child :: "DirNode \<Rightarrow> string \<Rightarrow> FsNode option" where
  "child d n \<equiv> map_of (children d) n"

fun get_dir_mut :: "DirNode \<Rightarrow> path \<Rightarrow> DirNode option" where
  "get_dir_mut d [] = Some d"
| "get_dir_mut d (p # ps) =
     (case child d p of Some (Dir d') \<Rightarrow> get_dir_mut d' ps | _ \<Rightarrow> None)"

text \<open>What becomes of the tree when the directory that \<^verbatim>\<open>get_dir_mut\<close> lends out is overwritten.\<close>

fun put_dir :: "DirNode \<Rightarrow> path \<Rightarrow> DirNode \<Rightarrow> DirNode" where
  "put_dir d [] new = new"
| "put_dir d (p # ps) new =
     (case child d p of Some (Dir d') \<Rightarrow> insert_child p (Dir (put_dir d' ps new)) d | _ \<Rightarrow> d)"

fun get_node_safe :: "DirNode \<Rightarrow> path \<Rightarrow> FsNode option" where
  "get_node_safe d [] = Some (Dir d)"
| "get_node_safe d [p] = child d p"
| "get_node_safe d (p # ps) =
     (case child d p of Some (Dir d') \<Rightarrow> get_node_safe d' ps | _ \<Rightarrow> None)"

text \<open>The loop of \<^verbatim>\<open>mkdir -p\<close>.\<close>

fun mkdir_parents :: "DirNode \<Rightarrow> path \<Rightarrow> DirNode" where
  "mkdir_parents d [] = d"
| "mkdir_parents d (p # ps) =
     (let d1 = (if child d p = None then insert_child p (Dir DirNode_new) d else d)
      in case child d1 p of
           Some (Dir d') \<Rightarrow> insert_child p (Dir (mkdir_parents d' ps)) d1
         | _ \<Rightarrow> d1)"

section \<open>The default hierarchy\<close>

definition default_bin :: FsNode where
  "default_bin = Dir (dir_of [
     (''bash'', file_node ''''),
     (''sh'', file_node ''''),
     (''ls'', file_node ''''),
     (''cat'', file_node ''''),
     (''cp'', file_node ''''),
     (''mv'', file_node ''''),
     (''rm'', file_node ''''),
     (''mkdir'', file_node ''''),
     (''chmod'', file_node ''''),
     (''chown'', file_node ''''),
     (''uname'', file_node ''''),
     (''id'', file_node ''''),
     (''whoami'', file_node ''''),
     (''hostname'', file_node ''''),
     (''ps'', file_node ''''),
     (''grep'', file_node ''''),
     (''echo'', file_node ''''),
     (''date'', file_node ''''),
     (''curl'', file_node ''''),
     (''wget'', file_node ''''),
     (''python3'', file_node '''')])"

definition default_boot :: FsNode where
  "default_boot = Dir (dir_of [
     (''vmlinuz-5.15.0-72-generic'', file_node ''''),
     (''initrd.img-5.15.0-72-generic'', file_node ''''),
     (''config-5.15.0-72-generic'', file_node ''''),
     (''System.map-5.15.0-72-generic'', file_node ''''),
     (''grub'', Dir (dir_of [
       (''grub.cfg'', file_node (''# GRUB configuration file'' @ nl))]))])"

definition default_dev :: FsNode where
  "default_dev = Dir (dir_of [
     (''null'', file_node ''''),
     (''zero'', file_node ''''),
     (''urandom'', file_node ''''),
     (''random'', file_node ''''),
     (''tty'', file_node ''''),
     (''pts'', Dir DirNode_new),
     (''shm'', Dir DirNode_new),
     (''sda'', file_node ''''),
     (''sda1'', file_node '''')])"

definition default_etc :: FsNode where
  "default_etc = Dir (dir_of [
     (''passwd'', file_node (''root:x:0:0:root:/root:/bin/bash'' @ nl
         @ ''daemon:x:1:1:daemon:/usr/sbin:/usr/sbin/nologin'' @ nl
         @ ''bin:x:2:2:bin:/bin:/usr/sbin/nologin'' @ nl @ ''sys:x:3:3:sys:/dev:/usr/sbin/nologin'' @ nl
         @ ''www-data:x:33:33:www-data:/var/www:/usr/sbin/nologin'' @ nl
         @ ''sshd:x:106:65534::/run/sshd:/usr/sbin/nologin'' @ nl
         @ ''ubuntu:x:1000:1000:Ubuntu:/home/ubuntu:/bin/bash'' @ nl)),
     (''shadow'', File (denied (FileNode_new (''root:*:19400:0:99999:7:::'' @ nl
         @ ''ubuntu:$6$fakesalt$encryptedhash:19400:0:99999:7:::'' @ nl)))),
     (''group'', file_node (''root:x:0:'' @ nl @ ''daemon:x:1:'' @ nl @ ''adm:x:4:syslog,ubuntu'' @ nl
         @ ''sudo:x:27:ubuntu'' @ nl @ ''www-data:x:33:'' @ nl @ ''shadow:x:42:'' @ nl
         @ ''ubuntu:x:1000:'' @ nl)),
     (''hosts'', file_node (''127.0.0.1 localhost'' @ nl @ ''127.0.1.1 ubuntu-server-01'' @ nl
         @ ''::1 ip6-localhost ip6-loopback'' @ nl)),
     (''hostname'', file_node (''ubuntu-server-01'' @ nl)),
     (''os-release'', file_node (''NAME='' @ [dquote] @ ''Ubuntu'' @ [dquote] @ nl @ ''VERSION='' @ [dquote]
         @ ''22.04.2 LTS (Jammy Jellyfish)'' @ [dquote] @ nl @ ''ID=ubuntu'' @ nl @ ''PRETTY_NAME=''
         @ [dquote] @ ''Ubuntu 22.04.2 LTS'' @ [dquote] @ nl @ ''VERSION_ID='' @ [dquote] @ ''22.04''
         @ [dquote] @ nl)),
     (''issue'', file_node (''Ubuntu 22.04.2 LTS '' @ [bsl] @ ''n '' @ [bsl] @ ''l'' @ nl @ nl)),
     (''resolv.conf'', file_node (''nameserver 127.0.0.53'' @ nl @ ''options edns0 trust-ad'' @ nl)),
     (''crontab'', file_node (''# /etc/crontab'' @ nl
         @ ''0 2 * * *  root /bin/bash /root/backup.sh >> /var/log/backup.log 2>&1'' @ nl)),
     (''fstab'', file_node (''UUID=3a1b2c3d / ext4 errors=remount-ro 0 1'' @ nl)),
     (''sudoers'', file_node (''root ALL=(ALL:ALL) ALL'' @ nl @ ''%sudo ALL=(ALL:ALL) ALL'' @ nl)),
     (''shells'', file_node (''/bin/sh'' @ nl @ ''/bin/bash'' @ nl @ ''/usr/bin/sh'' @ nl @ ''/usr/bin/bash''
         @ nl)),
     (''environment'', file_node (''PATH='' @ [dquote]
         @ ''/usr/local/sbin:/usr/local/bin:/usr/sbin:/usr/bin:/sbin:/bin'' @ [dquote] @ nl)),
     (''ssh'', Dir (dir_of [
       (''sshd_config'', file_node (''Port 22'' @ nl @ ''PermitRootLogin yes'' @ nl
           @ ''PasswordAuthentication yes'' @ nl @ ''X11Forwarding yes'' @ nl))])),
     (''network'', Dir (dir_of [
       (''interfaces'', file_node (''auto lo'' @ nl @ ''iface lo inet loopback'' @ nl))])),
     (''apt'', Dir (dir_of [
       (''sources.list'', file_node (''deb http://archive.ubuntu.com/ubuntu jammy main restricted'' @ nl))]))])"

definition default_home :: FsNode where
  "default_home = Dir (dir_of [
     (''ubuntu'', Dir (dir_of [
       (''.bashrc'', file_node (''export PS1='' @ [squote] @ [bsl] @ ''u@'' @ [bsl] @ ''h:'' @ [bsl] @ ''w''
           @ [bsl] @ ''$ '' @ [squote] @ nl)),
       (''.profile'', file_node ''''),
       (''.ssh'', Dir DirNode_new),
       (''projects'', Dir (dir_of [
         (''README.txt'', file_node (''Internal development projects.'' @ nl))]))]))])"

definition default_lib :: FsNode where
  "default_lib = Dir (dir_of [
     (''x86_64-linux-gnu'', Dir DirNode_new),
     (''modules'', Dir (dir_of [
       (''5.15.0-72-generic'', Dir DirNode_new)]))])"

definition default_lib64 :: FsNode where
  "default_lib64 = Dir (dir_of [
     (''ld-linux-x86-64.so.2'', file_node '''')])"

definition default_proc :: FsNode where
  "default_proc = Dir (dir_of [
     (''cpuinfo'', file_node (''processor'' @ [tab] @ '': 0'' @ nl @ ''vendor_id'' @ [tab]
         @ '': GenuineIntel'' @ nl @ ''model name'' @ [tab] @ '': Intel(R) Xeon(R) CPU E5-2676 v3 @ 2.40GHz''
         @ nl @ ''cpu cores'' @ [tab] @ '': 2'' @ nl)),
     (''meminfo'', file_node (''MemTotal:        4016148 kB'' @ nl @ ''MemFree:         1845120 kB'' @ nl
         @ ''MemAvailable:    2954312 kB'' @ nl)),
     (''version'', file_node (''Linux version 5.15.0-72-generic (buildd@lcy02-amd64-019) (gcc 11.3.0) #79-Ubuntu SMP Wed Apr 19 08:22:18 UTC 2023''
         @ nl)),
     (''uptime'', file_node (''84321.45 167234.12'' @ nl)),
     (''loadavg'', file_node (''0.08 0.03 0.01 1/148 2841'' @ nl)),
     (''mounts'', file_node (''rootfs / rootfs rw 0 0'' @ nl
         @ ''sysfs /sys sysfs rw,nosuid,nodev,noexec,relatime 0 0'' @ nl
         @ ''proc /proc proc rw,nosuid,nodev,noexec,relatime 0 0'' @ nl)),
     (''net'', Dir (dir_of [
       (''dev'', file_node (''Inter-|   Receive                                                |  Transmit''
           @ nl
           @ '' face |bytes    packets errs drop fifo frame compressed multicast|bytes    packets errs drop fifo colls carrier compressed''
           @ nl
           @ ''    lo: 1234567     890    0    0    0     0          0         0  1234567     890    0    0    0     0       0          0''
           @ nl
           @ ''  eth0: 9876543    4567    0    0    0     0          0         0  9876543    4567    0    0    0     0       0          0''
           @ nl))])),
     (''sys'', Dir (dir_of [
       (''kernel'', Dir (dir_of [
         (''hostname'', file_node (''ubuntu-server-01'' @ nl)),
         (''osrelease'', file_node (''5.15.0-72-generic'' @ nl))]))]))])"

definition default_root :: FsNode where
  "default_root = Dir (dir_of [
     (''.bashrc'', file_node (''# ~/.bashrc'' @ nl @ ''export PS1='' @ [squote] @ [bsl] @ ''u@'' @ [bsl]
         @ ''h:'' @ [bsl] @ ''w'' @ [bsl] @ ''# '' @ [squote] @ nl @ ''alias ls='' @ [squote]
         @ ''ls --color=auto'' @ [squote] @ nl)),
     (''.profile'', file_node ''''),
     (''.bash_history'', file_node (''apt-get update'' @ nl @ ''systemctl status nginx'' @ nl @ ''docker ps''
         @ nl @ ''cat /etc/hosts'' @ nl @ ''ufw status'' @ nl @ ''ls -la /root'' @ nl)),
     (''.ssh'', Dir (dir_of [
       (''authorized_keys'', file_node (''ssh-ed25519 AAAAC3NzaC1lZDI1NTE5AAAAIExampleKey root@mgmt'' @ nl))])),
     (''backup.sh'', file_node (''#!/bin/bash'' @ nl
         @ ''tar -czf /var/backups/system_backup.tar.gz /etc /var/www'' @ nl))])"

definition default_run :: FsNode where
  "default_run = Dir (dir_of [
     (''sshd.pid'', file_node (''1042'' @ nl)),
     (''systemd'', Dir DirNode_new),
     (''lock'', Dir DirNode_new)])"

definition default_sbin :: FsNode where
  "default_sbin = Dir (dir_of [
     (''init'', file_node ''''),
     (''reboot'', file_node ''''),
     (''shutdown'', file_node ''''),
     (''iptables'', file_node ''''),
     (''ip'', file_node ''''),
     (''ifconfig'', file_node ''''),
     (''fdisk'', file_node '''')])"

definition default_sys :: FsNode where
  "default_sys = Dir (dir_of [
     (''class'', Dir DirNode_new),
     (''devices'', Dir DirNode_new),
     (''fs'', Dir (dir_of [
       (''cgroup'', Dir DirNode_new)]))])"

definition default_usr :: FsNode where
  "default_usr = Dir (dir_of [
     (''bin'', Dir (dir_of [
       (''python3'', file_node ''''),
       (''curl'', file_node ''''),
       (''wget'', file_node ''''),
       (''sudo'', file_node ''''),
       (''apt'', file_node ''''),
       (''apt-get'', file_node ''''),
       (''systemctl'', file_node ''''),
       (''netstat'', file_node ''''),
       (''ss'', file_node ''''),
       (''nc'', file_node ''''),
       (''base64'', file_node ''''),
       (''xxd'', file_node ''''),
       (''awk'', file_node ''''),
       (''sed'', file_node '''')])),
     (''sbin'', Dir (dir_of [
       (''sshd'', file_node ''''),
       (''service'', file_node '''')])),
     (''lib'', Dir DirNode_new),
     (''local'', Dir (dir_of [
       (''bin'', Dir DirNode_new),
       (''sbin'', Dir DirNode_new)])),
     (''share'', Dir DirNode_new)])"

definition default_var :: FsNode where
  "default_var = Dir (dir_of [
     (''backups'', Dir DirNode_new),
     (''cache'', Dir (dir_of [
       (''apt'', Dir DirNode_new)])),
     (''lib'', Dir (dir_of [
       (''dpkg'', Dir DirNode_new)])),
     (''log'', Dir (dir_of [
       (''auth.log'', file_node (''Aug 27 18:00:01 ubuntu-server-01 CRON[1402]: pam_unix(cron:session): session opened for user root''
           @ nl)),
       (''syslog'', file_node (''Aug 27 18:00:01 ubuntu-server-01 systemd[1]: Starting Daily apt download activities...''
           @ nl)),
       (''dpkg.log'', file_node (''2026-08-20 14:00:00 status installed linux-image-5.15.0-72-generic:amd64''
           @ nl)),
       (''nginx'', Dir (dir_of [
         (''access.log'', file_node (''192.0.2.100 - - [27/Aug/2026:18:00:00 +0000] '' @ [dquote]
             @ ''GET / HTTP/1.1'' @ [dquote] @ '' 200 612'' @ nl))]))])),
     (''run'', Dir DirNode_new),
     (''spool'', Dir DirNode_new),
     (''tmp'', Dir (with_perms ''drwxrwxrwt'' DirNode_new)),
     (''www'', Dir (dir_of [
       (''html'', Dir (dir_of [
         (''index.html'', file_node (''<!DOCTYPE html><html><body><h1>Welcome to nginx!</h1></body></html>''
             @ nl))]))]))])"

definition build_default_fs :: DirNode where
  "build_default_fs = dir_of [
     (''bin'', default_bin),
     (''boot'', default_boot),
     (''dev'', default_dev),
     (''etc'', default_etc),
     (''home'', default_home),
     (''lib'', default_lib),
     (''lib64'', default_lib64),
     (''media'', Dir DirNode_new),
     (''mnt'', Dir DirNode_new),
     (''opt'', Dir DirNode_new),
     (''proc'', default_proc),
     (''root'', default_root),
     (''run'', default_run),
     (''sbin'', default_sbin),
     (''srv'', Dir DirNode_new),
     (''sys'', default_sys),
     (''tmp'', Dir (with_perms ''drwxrwxrwt'' DirNode_new)),
     (''usr'', default_usr),
     (''var'', default_var)]"

section \<open>Lemmas\<close>

lemma child_insert [simp]: "child (insert_child n node d) m = (if m = n then Some node else child d m)"
  by (cases d) simp

lemma child_remove [simp]: "child (remove_child n d) m = (if m = n then None else child d m)"
  by (cases d) simp

lemma get_node_Cons:
  "ps \<noteq> [] \<Longrightarrow> get_node_safe d (p # ps) =
     (case child d p of Some (Dir d') \<Rightarrow> get_node_safe d' ps | _ \<Rightarrow> None)"
  by (cases ps) auto

text \<open>\<^verbatim>\<open>get_dir_mut\<close> finds exactly the directories that \<^verbatim>\<open>get_node_safe\<close> finds.\<close>

lemma get_dir_node: "get_dir_mut d ps = Some d' \<longleftrightarrow> get_node_safe d ps = Some (Dir d')"
proof (induction d ps rule: get_dir_mut.induct)
  case (2 d p ps)
  then show ?case by (cases ps) (auto split: option.splits FsNode.splits)
qed simp

lemma get_node_snoc:
  "get_node_safe d (ps @ [n]) = (case get_dir_mut d ps of Some d' \<Rightarrow> child d' n | None \<Rightarrow> None)"
proof (induction ps arbitrary: d)
  case (Cons p ps)
  then show ?case by (simp add: get_node_Cons split: option.splits FsNode.splits)
qed simp

lemma get_dir_put_same:
  "get_dir_mut d ps = Some d0 \<Longrightarrow> get_dir_mut (put_dir d ps new) ps = Some new"
  by (induction d ps rule: get_dir_mut.induct) (auto split: option.splits FsNode.splits)

text \<open>Overwriting a directory leaves every node that is not below it as it was.\<close>

lemma get_node_put_other:
  assumes "get_dir_mut d ps = Some d0" and "\<not> prefix ps qs" and "\<not> prefix qs ps"
  shows "get_node_safe (put_dir d ps new) qs = get_node_safe d qs"
  using assms
proof (induction d ps arbitrary: qs rule: get_dir_mut.induct)
  case (2 d p ps)
  then obtain d' where d': "child d p = Some (Dir d')" "get_dir_mut d' ps = Some d0"
    by (auto split: option.splits FsNode.splits)
  from 2(4) obtain q qs' where q: "qs = q # qs'" by (cases qs) auto
  show ?case
  proof (cases "q = p")
    case True
    then have "\<not> prefix ps qs'" "\<not> prefix qs' ps" using 2(3,4) q by auto
    moreover from this have "qs' \<noteq> []" by auto
    ultimately show ?thesis using 2(1) d' q True by (simp add: get_node_Cons)
  next
    case False
    then show ?thesis using d' q by (cases qs') auto
  qed
qed simp

text \<open>\<^verbatim>\<open>mkdir -p\<close> makes the path a directory, unless a file is in the way.\<close>

lemma mkdir_parents_dir:
  assumes "\<And>qs f. prefix qs ps \<Longrightarrow> get_node_safe d qs \<noteq> Some (File f)"
  shows "\<exists>d'. get_node_safe (mkdir_parents d ps) ps = Some (Dir d')"
  using assms
proof (induction d ps rule: mkdir_parents.induct)
  case (1 d)
  then show ?case by simp
next
  case (2 d p ps)
  have below: "get_node_safe d' qs \<noteq> Some (File f)"
    if "prefix qs ps" "child d p = Some (Dir d')" for d' qs f
    using 2(2) [of "p # qs" f] that by (cases qs) auto
  have fresh: "get_node_safe DirNode_new qs \<noteq> Some (File f)" for qs f
    by (cases "(DirNode_new, qs)" rule: get_node_safe.cases) (auto simp: DirNode_new_def)
  show ?case
  proof (cases "child d p")
    case None
    then show ?thesis using 2(1) [OF refl, of "Dir DirNode_new" DirNode_new] fresh
      by (cases ps) (auto simp: Let_def)
  next
    case (Some node)
    with 2(2) [of "[p]"] obtain d' where "node = Dir d'" by (cases node) auto
    then show ?thesis using 2(1) [OF refl, of "Dir d'" d'] below Some
      by (cases ps) (auto simp: Let_def)
  qed
qed

end
