(* ===== verification/Disk.thy ===== *)
theory Disk
  imports Aegis_Common
begin

text \<open>
  The host file system as the program sees it through \<^verbatim>\<open>std::fs\<close> and \<^verbatim>\<open>tokio::fs\<close>.

  A path is its list of components below the working directory, which always exists. A disk maps
  paths to directories and files with their permission bits; \<open>new_file_mode\<close> and \<open>new_dir_mode\<close>
  are what the process's umask leaves of the default bits. The calls fail exactly for the
  reasons the tree itself gives (\<^verbatim>\<open>ENOENT\<close>, \<^verbatim>\<open>ENOTDIR\<close>, \<^verbatim>\<open>EISDIR\<close>, \<^verbatim>\<open>EEXIST\<close>): the program owns the
  trees it works on, creates no links, and running out of space is not modelled. \<^const>\<open>None\<close> is an
  \<^verbatim>\<open>io::Error\<close>, after which the disk is unchanged.
\<close>

section \<open>Disks\<close>

datatype dentry = DDir nat | DFile nat string

record disk =
  dentries :: "(path \<times> dentry) list"
  new_file_mode :: nat
  new_dir_mode :: nat

definition dlookup :: "disk \<Rightarrow> path \<Rightarrow> dentry option" where
  "dlookup d p = (if p = [] then Some (DDir (new_dir_mode d)) else map_of (dentries d) p)"

definition path_exists :: "disk \<Rightarrow> path \<Rightarrow> bool" where
  "path_exists d p \<longleftrightarrow> dlookup d p \<noteq> None"

definition is_dir :: "disk \<Rightarrow> path \<Rightarrow> bool" where
  "is_dir d p = (case dlookup d p of Some (DDir _) \<Rightarrow> True | _ \<Rightarrow> False)"

definition is_file :: "disk \<Rightarrow> path \<Rightarrow> bool" where
  "is_file d p = (case dlookup d p of Some (DFile _ _) \<Rightarrow> True | _ \<Rightarrow> False)"

definition put :: "path \<Rightarrow> dentry \<Rightarrow> disk \<Rightarrow> disk" where
  "put p e d = d\<lparr>dentries := AList.update p e (dentries d)\<rparr>"

section \<open>Queries\<close>

definition fs_read :: "disk \<Rightarrow> path \<Rightarrow> string option" where
  "fs_read d p = (case dlookup d p of Some (DFile _ c) \<Rightarrow> Some c | _ \<Rightarrow> None)"

definition fs_read_to_string :: "disk \<Rightarrow> path \<Rightarrow> string option" where
  "fs_read_to_string d p =
     (case fs_read d p of Some c \<Rightarrow> if valid_utf8 c then Some c else None | None \<Rightarrow> None)"

text \<open>The size a directory reports is up to the file system; 4096 stands for it.\<close>

fun dentry_len :: "dentry \<Rightarrow> nat" where
  "dentry_len (DFile _ c) = length c"
| "dentry_len (DDir _) = 4096"

definition fs_len :: "disk \<Rightarrow> path \<Rightarrow> nat option" where
  "fs_len d p = map_option dentry_len (dlookup d p)"

text \<open>\<^verbatim>\<open>read_dir\<close>: the entries of a directory with their names, in directory order.\<close>

definition fs_read_dir :: "disk \<Rightarrow> path \<Rightarrow> (string \<times> dentry) list option" where
  "fs_read_dir d p =
     (if is_dir d p
      then Some (map (\<lambda>(q, e). (last q, e)) (filter (\<lambda>(q, e). q \<noteq> [] \<and> butlast q = p) (dentries d)))
      else None)"

section \<open>Updates\<close>

definition path_parent :: "path \<Rightarrow> path option" where
  "path_parent p = (if p = [] then None else Some (butlast p))"

definition fs_create_dir :: "disk \<Rightarrow> path \<Rightarrow> disk option" where
  "fs_create_dir d p =
     (if path_exists d p \<or> \<not> is_dir d (butlast p) then None
      else Some (put p (DDir (new_dir_mode d)) d))"

fun create_below :: "disk \<Rightarrow> path \<Rightarrow> path \<Rightarrow> disk option" where
  "create_below d p [] = (if is_dir d p then Some d else None)"
| "create_below d p (c # cs) =
     (let q = p @ [c]
      in if is_dir d q then create_below d q cs
         else if path_exists d q then None
         else create_below (put q (DDir (new_dir_mode d)) d) q cs)"

definition fs_create_dir_all :: "disk \<Rightarrow> path \<Rightarrow> disk option" where
  "fs_create_dir_all d p = create_below d [] p"

text \<open>
  Opening a file for writing with \<^verbatim>\<open>create(true)\<close> and permission bits for a new file; the content
  update is what is then written through the handle.
\<close>

definition fs_open_with :: "nat \<Rightarrow> (string \<Rightarrow> string) \<Rightarrow> disk \<Rightarrow> path \<Rightarrow> disk option" where
  "fs_open_with mode f d p =
     (case dlookup d p of
        Some (DFile m c) \<Rightarrow> Some (put p (DFile m (f c)) d)
      | Some (DDir _) \<Rightarrow> None
      | None \<Rightarrow> if is_dir d (butlast p) then Some (put p (DFile mode (f [])) d) else None)"

definition fs_touch :: "disk \<Rightarrow> path \<Rightarrow> disk option" where
  "fs_touch d p = fs_open_with (new_file_mode d) (\<lambda>c. c) d p"

definition fs_write :: "string \<Rightarrow> disk \<Rightarrow> path \<Rightarrow> disk option" where
  "fs_write bytes d p = fs_open_with (new_file_mode d) (\<lambda>_. bytes) d p"

definition fs_append :: "string \<Rightarrow> disk \<Rightarrow> path \<Rightarrow> disk option" where
  "fs_append bytes d p = fs_open_with (new_file_mode d) (\<lambda>c. c @ bytes) d p"

definition fs_remove_file :: "disk \<Rightarrow> path \<Rightarrow> disk option" where
  "fs_remove_file d p =
     (if is_file d p then Some (d\<lparr>dentries := AList.delete p (dentries d)\<rparr>) else None)"

definition fs_remove_dir_all :: "disk \<Rightarrow> path \<Rightarrow> disk option" where
  "fs_remove_dir_all d p =
     (if p \<noteq> [] \<and> is_dir d p
      then Some (d\<lparr>dentries := filter (\<lambda>(q, e). \<not> prefix p q) (dentries d)\<rparr>) else None)"

fun chmod_entry :: "nat \<Rightarrow> dentry \<Rightarrow> dentry" where
  "chmod_entry m (DDir _) = DDir m"
| "chmod_entry m (DFile _ c) = DFile m c"

definition fs_set_permissions :: "nat \<Rightarrow> disk \<Rightarrow> path \<Rightarrow> disk option" where
  "fs_set_permissions m d p =
     (if p = [] then None
      else case dlookup d p of Some e \<Rightarrow> Some (put p (chmod_entry m e) d) | None \<Rightarrow> None)"

text \<open>\<^verbatim>\<open>rename\<close> of a file onto a new or existing file.\<close>

definition fs_rename :: "disk \<Rightarrow> path \<Rightarrow> path \<Rightarrow> disk option" where
  "fs_rename d p q =
     (case dlookup d p of
        Some (DFile m c) \<Rightarrow>
          if is_dir d q \<or> \<not> is_dir d (butlast q) then None
          else if p = q then Some d
          else Some (put q (DFile m c) (d\<lparr>dentries := AList.delete p (dentries d)\<rparr>))
      | _ \<Rightarrow> None)"

text \<open>\<^verbatim>\<open>let _ = ...\<close>: the result of a call is thrown away.\<close>

definition ignore :: "(disk \<Rightarrow> path \<Rightarrow> disk option) \<Rightarrow> disk \<Rightarrow> path \<Rightarrow> disk" where
  "ignore upd d p = (case upd d p of Some d' \<Rightarrow> d' | None \<Rightarrow> d)"

section \<open>Well-formedness\<close>

definition disk_wf :: "disk \<Rightarrow> bool" where
  "disk_wf d \<longleftrightarrow>
     distinct (map fst (dentries d)) \<and>
     list_all (\<lambda>(q, e). q \<noteq> [] \<and> is_dir d (butlast q)) (dentries d)"

lemma is_dir_exists: "is_dir d p \<Longrightarrow> path_exists d p"
  by (auto simp: is_dir_def path_exists_def split: option.splits)

lemma is_file_exists: "is_file d p \<Longrightarrow> path_exists d p"
  by (auto simp: is_file_def path_exists_def split: option.splits)

lemma is_dir_root [simp]: "is_dir d []"
  by (simp add: is_dir_def dlookup_def)

lemma is_dir_not_file: "is_dir d p \<Longrightarrow> \<not> is_file d p"
  by (auto simp: is_dir_def is_file_def split: option.splits dentry.splits)

lemma exists_cases: "path_exists d p \<longleftrightarrow> is_dir d p \<or> is_file d p"
  by (auto simp: path_exists_def is_dir_def is_file_def split: option.splits dentry.splits)

lemma dlookup_put: "p \<noteq> [] \<Longrightarrow> dlookup (put p e d) q = (if q = p then Some e else dlookup d q)"
  by (simp add: dlookup_def put_def)

lemma put_modes [simp]:
  "new_dir_mode (put p e d) = new_dir_mode d" "new_file_mode (put p e d) = new_file_mode d"
  by (simp_all add: put_def)

lemma disk_wf_parent:
  assumes "disk_wf d" and "path_exists d p" and "p \<noteq> []"
  shows "is_dir d (butlast p)"
proof -
  from assms(2,3) obtain e where "map_of (dentries d) p = Some e"
    by (auto simp: path_exists_def dlookup_def)
  then show ?thesis
    using assms(1) by (auto simp: disk_wf_def list_all_iff dest: map_of_SomeD)
qed

text \<open>All ancestors of an existing path are directories.\<close>

lemma disk_wf_ancestor:
  "disk_wf d \<Longrightarrow> path_exists d (p @ cs) \<Longrightarrow> cs \<noteq> [] \<Longrightarrow> is_dir d p"
proof (induction cs rule: rev_induct)
  case (snoc c cs)
  then have "is_dir d (p @ cs)"
    using disk_wf_parent [of d "p @ cs @ [c]"] by (simp add: butlast_append)
  then show ?case
    using snoc by (cases cs) (auto dest: is_dir_exists)
qed simp

lemma disk_wf_put:
  assumes wf: "disk_wf d" and "p \<noteq> []" and par: "is_dir d (butlast p)"
    and keep: "is_dir d p \<Longrightarrow> (case e of DDir _ \<Rightarrow> True | _ \<Rightarrow> False)"
  shows "disk_wf (put p e d)"
proof -
  have mono: "is_dir (put p e d) q" if "is_dir d q" for q
    using that keep assms(2)
    by (cases "q = p") (auto simp: is_dir_def dlookup_put split: dentry.splits)
  have "q \<noteq> [] \<and> is_dir (put p e d) (butlast q)" if "(q, v) \<in> set (dentries (put p e d))" for q v
  proof -
    have "q = p \<or> (q, v) \<in> set (dentries d)"
      using alist_update_mem [of q v p e "dentries d"] that by (auto simp: put_def)
    then show ?thesis
      using wf assms(2) par mono by (fastforce simp: disk_wf_def list_all_iff)
  qed
  moreover have "distinct (map fst (dentries (put p e d)))"
    using wf by (simp add: disk_wf_def put_def distinct_update)
  ultimately show ?thesis
    by (auto simp: disk_wf_def list_all_iff)
qed

section \<open>The interface of an update confined to a directory\<close>

text \<open>
  \<open>confined base d d'\<close>: a change of the disk that starts from a well-formed one in which \<open>base\<close>
  is a directory keeps it well-formed, keeps the directory and changes nothing that is not strictly
  below it.
\<close>

definition confined :: "path \<Rightarrow> disk \<Rightarrow> disk \<Rightarrow> bool" where
  "confined base d d' \<longleftrightarrow>
     (disk_wf d \<and> is_dir d base \<longrightarrow>
        disk_wf d' \<and> (\<forall>q. \<not> strict_prefix base q \<longrightarrow> dlookup d' q = dlookup d q))"

lemma confined_refl [simp, intro]: "confined base d d"
  by (simp add: confined_def)

lemma is_dir_cong: "dlookup d' p = dlookup d p \<Longrightarrow> is_dir d' p = is_dir d p"
  by (simp add: is_dir_def)

lemma confined_is_dir: "confined base d d' \<Longrightarrow> disk_wf d \<Longrightarrow> is_dir d base \<Longrightarrow> is_dir d' base"
  by (simp add: confined_def is_dir_def)

lemma confined_trans [trans]: "confined base d d' \<Longrightarrow> confined base d' d'' \<Longrightarrow> confined base d d''"
  using confined_is_dir [of base d d'] by (auto simp: confined_def)

text \<open>A change confined to a deeper directory is confined to every directory above it.\<close>

lemma confined_mono:
  assumes "confined b d d'" and "prefix base b" and "disk_wf d \<Longrightarrow> is_dir d base \<Longrightarrow> is_dir d b"
  shows "confined base d d'"
  using assms prefix_order.le_less_trans by (fastforce simp: confined_def)

locale disk_update =
  fixes upd :: "disk \<Rightarrow> path \<Rightarrow> disk option"
  assumes upd_wf: "disk_wf d \<Longrightarrow> p \<noteq> [] \<Longrightarrow> upd d p = Some d' \<Longrightarrow> disk_wf d'"
    and upd_frame: "disk_wf d \<Longrightarrow> upd d p = Some d' \<Longrightarrow> is_dir d base \<Longrightarrow> strict_prefix base p \<Longrightarrow>
      \<not> strict_prefix base q \<Longrightarrow> dlookup d' q = dlookup d q"
begin

lemma upd_confined: "strict_prefix base p \<Longrightarrow> upd d p = Some d' \<Longrightarrow> confined base d d'"
  using upd_wf [of d p d'] upd_frame [of d p d' base] by (cases "p = []") (auto simp: confined_def)

lemma ignore_confined: "strict_prefix base p \<Longrightarrow> confined base d (ignore upd d p)"
  by (auto simp: ignore_def split: option.splits intro: upd_confined)

lemma ignore_wf: "disk_wf d \<Longrightarrow> p \<noteq> [] \<Longrightarrow> disk_wf (ignore upd d p)"
  by (auto simp: ignore_def split: option.splits intro: upd_wf)

end

section \<open>The updates implement the interface\<close>

text \<open>An update that sets the entry of its path, with a directory as its parent.\<close>

lemma disk_update_put:
  assumes "\<And>d p d'. upd d p = Some d' \<Longrightarrow> p \<noteq> [] \<Longrightarrow> disk_wf d \<Longrightarrow>
    \<exists>e. d' = put p e d \<and> is_dir d (butlast p) \<and>
        (is_dir d p \<longrightarrow> (case e of DDir _ \<Rightarrow> True | _ \<Rightarrow> False))"
  shows "disk_update upd"
proof
  show "disk_wf d'" if "disk_wf d" "p \<noteq> []" "upd d p = Some d'" for d p d'
    using assms [OF that(3,2,1)] that disk_wf_put by blast
  show "dlookup d' q = dlookup d q"
    if wf: "disk_wf d" and up: "upd d p = Some d'" and "is_dir d base" "strict_prefix base p"
      "\<not> strict_prefix base q"
    for d p d' base q
  proof -
    have "p \<noteq> []" using that(4) by auto
    moreover have "\<exists>e. d' = put p e d" using assms [OF up \<open>p \<noteq> []\<close> wf] by blast
    ultimately show ?thesis using that(4,5) by (auto simp: dlookup_put)
  qed
qed

interpretation create_dir: disk_update fs_create_dir
  by (rule disk_update_put) (auto simp: fs_create_dir_def split: if_splits dest: is_dir_exists)

lemma fs_open_with_put:
  assumes "fs_open_with mode f d p = Some d'" and "p \<noteq> []" and "disk_wf d"
  shows "\<exists>e. d' = put p e d \<and> is_dir d (butlast p) \<and>
    (is_dir d p \<longrightarrow> (case e of DDir _ \<Rightarrow> True | _ \<Rightarrow> False))"
proof (cases "dlookup d p")
  case None
  then show ?thesis
    using assms(1) by (auto simp: fs_open_with_def is_dir_def split: if_splits)
next
  case (Some e)
  then have "is_dir d (butlast p)"
    using disk_wf_parent [OF assms(3) _ assms(2)] by (simp add: path_exists_def)
  then show ?thesis
    using assms(1) Some by (auto simp: fs_open_with_def is_dir_def split: dentry.splits)
qed

interpretation open_with: disk_update "fs_open_with mode f" for mode f
  by (rule disk_update_put) (rule fs_open_with_put)

interpretation touch_file: disk_update fs_touch
  by (rule disk_update_put) (metis fs_touch_def fs_open_with_put)

interpretation write_file: disk_update "fs_write bytes" for bytes
  by (rule disk_update_put) (metis fs_write_def fs_open_with_put)

interpretation append_file: disk_update "fs_append bytes" for bytes
  by (rule disk_update_put) (metis fs_append_def fs_open_with_put)

interpretation set_permissions: disk_update "fs_set_permissions m" for m
proof (rule disk_update_put)
  fix d p d'
  assume "fs_set_permissions m d p = Some d'" and "p \<noteq> []" and wf: "disk_wf d"
  then obtain e where e: "dlookup d p = Some e" "d' = put p (chmod_entry m e) d"
    by (auto simp: fs_set_permissions_def split: option.splits)
  then show "\<exists>e. d' = put p e d \<and> is_dir d (butlast p) \<and>
        (is_dir d p \<longrightarrow> (case e of DDir _ \<Rightarrow> True | _ \<Rightarrow> False))"
    using disk_wf_parent [OF wf _ \<open>p \<noteq> []\<close>]
    by (cases e) (auto simp: path_exists_def is_dir_def)
qed

text \<open>Removals.\<close>

lemma disk_wf_remove:
  assumes wf: "disk_wf d" and closed: "\<And>q. q \<noteq> [] \<Longrightarrow> P (butlast q) \<Longrightarrow> path_exists d q \<Longrightarrow> P q"
    and "\<not> P []"
  shows "disk_wf (d\<lparr>dentries := filter (\<lambda>(q, e). \<not> P q) (dentries d)\<rparr>)"
    (is "disk_wf ?d")
proof -
  have look: "dlookup ?d q = (if P q then None else dlookup d q)" for q
    using assms(3) by (auto simp: dlookup_def map_of_filter_fst)
  have "q \<noteq> [] \<and> is_dir ?d (butlast q)" if "(q, e) \<in> set (dentries d)" "\<not> P q" for q e
  proof -
    have q: "q \<noteq> [] \<and> is_dir d (butlast q)"
      using wf that(1) by (auto simp: disk_wf_def list_all_iff)
    moreover have "path_exists d q"
      using that(1) q by (force simp: path_exists_def dlookup_def map_of_eq_None_iff)
    ultimately have "\<not> P (butlast q)" using closed that(2) by blast
    with q show ?thesis by (simp add: is_dir_def look)
  qed
  then show ?thesis
    using wf by (auto simp: disk_wf_def list_all_iff distinct_filter_fst)
qed

interpretation remove_dir_all: disk_update fs_remove_dir_all
proof
  fix d p d' base q
  show "disk_wf d'" if "disk_wf d" "p \<noteq> []" "fs_remove_dir_all d p = Some d'"
  proof -
    have "d' = d\<lparr>dentries := filter (\<lambda>(q, e). \<not> prefix p q) (dentries d)\<rparr>"
      using that(3) by (auto simp: fs_remove_dir_all_def split: if_splits)
    then show ?thesis
      using disk_wf_remove [OF that(1), of "prefix p"] that(2)
      by (metis append_butlast_last_id prefix_Nil prefix_prefix)
  qed
  show "dlookup d' q = dlookup d q"
    if "fs_remove_dir_all d p = Some d'" "strict_prefix base p" "\<not> strict_prefix base q"
    using that by (auto simp: fs_remove_dir_all_def dlookup_def map_of_filter_fst split: if_splits
        dest: prefix_order.less_le_trans)
qed

lemma delete_filter: "AList.delete p al = filter (\<lambda>(q, e). \<not> q = p) al"
  by (auto simp: AList.delete_eq intro!: filter_cong)

interpretation remove_file: disk_update fs_remove_file
proof
  fix d p d' base q
  show "disk_wf d'" if wf: "disk_wf d" "p \<noteq> []" and rm: "fs_remove_file d p = Some d'"
  proof -
    have f: "is_file d p" and d': "d' = d\<lparr>dentries := filter (\<lambda>(q, e). \<not> q = p) (dentries d)\<rparr>"
      using rm by (auto simp: fs_remove_file_def delete_filter split: if_splits)
    have "r = p" if "r \<noteq> []" "butlast r = p" "path_exists d r" for r
      using disk_wf_parent [OF wf(1) that(3,1)] f that(2) is_dir_not_file by auto
    then show ?thesis
      unfolding d' using wf by (intro disk_wf_remove) auto
  qed
  show "dlookup d' q = dlookup d q"
    if "fs_remove_file d p = Some d'" "strict_prefix base p" "\<not> strict_prefix base q"
    using that by (auto simp: fs_remove_file_def dlookup_def split: if_splits)
qed

text \<open>\<^verbatim>\<open>create_dir_all\<close> adds exactly the missing ancestors.\<close>

lemma prefix_step:
  "strict_prefix p q \<and> prefix q (p @ c # cs) \<longleftrightarrow>
     q = p @ [c] \<or> strict_prefix (p @ [c]) q \<and> prefix q ((p @ [c]) @ cs)"
proof (cases "prefix p q")
  case True
  then obtain zs where "q = p @ zs" by (auto simp: prefix_def)
  then show ?thesis by (cases zs) (auto simp: strict_prefix_def)
next
  case False
  then show ?thesis
    by (auto simp: strict_prefix_def dest: append_prefixD)
qed

lemma create_below_spec:
  assumes "disk_wf d" and "is_dir d p" and "create_below d p cs = Some d'"
  shows "disk_wf d' \<and> new_dir_mode d' = new_dir_mode d \<and>
    (\<forall>q. dlookup d' q =
      (if dlookup d q = None \<and> strict_prefix p q \<and> prefix q (p @ cs)
       then Some (DDir (new_dir_mode d)) else dlookup d q))"
  using assms
proof (induction cs arbitrary: d p)
  case Nil
  then show ?case by (auto split: if_splits)
next
  case (Cons c cs)
  let ?q = "p @ [c]"
  show ?case
  proof (cases "is_dir d ?q")
    case True
    then have "dlookup d ?q \<noteq> None" by (auto simp: is_dir_def split: option.splits)
    then show ?thesis
      unfolding prefix_step using Cons.IH [OF Cons.prems(1) True] Cons.prems(3) True by auto
  next
    case False
    with Cons.prems(3) have n: "dlookup d ?q = None"
      and c: "create_below (put ?q (DDir (new_dir_mode d)) d) ?q cs = Some d'"
      by (auto simp: path_exists_def Let_def split: if_splits)
    let ?d = "put ?q (DDir (new_dir_mode d)) d"
    have "disk_wf ?d"
      using Cons.prems(1,2) by (intro disk_wf_put) auto
    moreover have "is_dir ?d ?q" by (simp add: is_dir_def dlookup_put)
    ultimately show ?thesis
      unfolding prefix_step using Cons.IH [OF _ _ c] n by (auto simp: dlookup_put)
  qed
qed

lemma create_dir_all_lookup:
  assumes "disk_wf d" and "fs_create_dir_all d p = Some d'"
  shows "disk_wf d'"
    and "dlookup d' q =
      (if dlookup d q = None \<and> prefix q p then Some (DDir (new_dir_mode d)) else dlookup d q)"
proof -
  note spec = create_below_spec [OF assms(1) is_dir_root assms(2) [unfolded fs_create_dir_all_def]]
  show "disk_wf d'" using spec by simp
  have "dlookup d q = None \<Longrightarrow> q \<noteq> []" by (auto simp: dlookup_def)
  then show "dlookup d' q =
      (if dlookup d q = None \<and> prefix q p then Some (DDir (new_dir_mode d)) else dlookup d q)"
    using spec by (cases q) (auto simp: strict_prefix_def)
qed

lemma create_below_ok:
  "(\<And>q. prefix q (p @ cs) \<Longrightarrow> strict_prefix p q \<Longrightarrow> \<not> is_file d q) \<Longrightarrow> is_dir d p \<Longrightarrow>
   \<exists>d'. create_below d p cs = Some d'"
proof (induction cs arbitrary: d p)
  case (Cons c cs)
  let ?q = "p @ [c]"
  have nf: "\<not> is_file d ?q" by (rule Cons.prems(1)) (auto simp: strict_prefix_def)
  have below: "\<not> is_file d q" if "prefix q (?q @ cs)" "strict_prefix ?q q" for q
    using that by (intro Cons.prems(1)) (auto simp: strict_prefix_def prefix_def)
  show ?case
  proof (cases "is_dir d ?q")
    case True
    then show ?thesis using Cons.IH [OF below True] by simp
  next
    case False
    let ?d = "put ?q (DDir (new_dir_mode d)) d"
    have "\<not> path_exists d ?q" using False nf by (simp add: exists_cases)
    moreover have "\<exists>d'. create_below ?d ?q cs = Some d'"
    proof (rule Cons.IH)
      show "\<not> is_file ?d q" if "prefix q (?q @ cs)" "strict_prefix ?q q" for q
        using below [OF that] that(2) by (auto simp: is_file_def dlookup_put)
    qed (simp add: is_dir_def dlookup_put)
    ultimately show ?thesis using False by (simp add: Let_def)
  qed
qed simp

lemma create_below_no_file:
  "create_below d p cs = Some d' \<Longrightarrow> is_dir d p \<Longrightarrow> disk_wf d \<Longrightarrow> prefix q (p @ cs) \<Longrightarrow> \<not> is_file d q"
proof (induction cs arbitrary: d p)
  case Nil
  then show ?case
    using disk_wf_ancestor [of d q] is_dir_exists [of d p] is_dir_not_file [of d q]
    by (cases "q = p") (auto simp: prefix_def)
next
  case (Cons c cs)
  let ?q = "p @ [c]"
  show ?case
  proof (cases "is_dir d ?q")
    case True
    then show ?thesis using Cons.IH [OF _ True] Cons.prems by simp
  next
    case False
    let ?d = "put ?q (DDir (new_dir_mode d)) d"
    have n: "\<not> path_exists d ?q" and c: "create_below ?d ?q cs = Some d'"
      using Cons.prems(1) False by (auto simp: Let_def split: if_splits)
    have "disk_wf ?d" using Cons.prems(2,3) by (intro disk_wf_put) auto
    moreover have "is_dir ?d ?q" by (simp add: is_dir_def dlookup_put)
    ultimately have "\<not> is_file ?d q" using Cons.IH [OF c] Cons.prems(4) by simp
    then show ?thesis using n by (auto simp: is_file_def path_exists_def dlookup_put split: if_splits)
  qed
qed

lemma create_dir_all_iff:
  assumes "disk_wf d"
  shows "(\<exists>d'. fs_create_dir_all d p = Some d') \<longleftrightarrow> (\<forall>q. prefix q p \<longrightarrow> \<not> is_file d q)"
  using create_below_no_file [of d "[]" p, OF _ is_dir_root assms] create_below_ok [of "[]" p d]
  by (auto simp: fs_create_dir_all_def)

interpretation create_dir_all: disk_update fs_create_dir_all
proof
  fix d p d' base q
  show "disk_wf d'" if "disk_wf d" "p \<noteq> []" "fs_create_dir_all d p = Some d'"
    using create_dir_all_lookup(1) that by blast
  show "dlookup d' q = dlookup d q"
    if "disk_wf d" "fs_create_dir_all d p = Some d'" "is_dir d base" "strict_prefix base p"
      "\<not> strict_prefix base q"
  proof (cases "prefix q p")
    case True
    then have "prefix q base"
      using that(4,5) prefix_same_cases [of q p base] by (auto simp: strict_prefix_def)
    then have "is_dir d q"
      using that(1,3) disk_wf_ancestor [of d q] is_dir_exists [of d base]
      by (cases "q = base") (auto simp: prefix_def)
    then have "dlookup d q \<noteq> None" by (auto simp: is_dir_def split: option.splits)
    then show ?thesis using create_dir_all_lookup(2) [OF that(1,2)] by simp
  next
    case False
    then show ?thesis using create_dir_all_lookup(2) [OF that(1,2)] by simp
  qed
qed

lemma create_dir_all_existing:
  assumes "disk_wf d" and "is_dir d p"
  shows "confined base d (ignore fs_create_dir_all d p)"
proof (cases "fs_create_dir_all d p")
  case (Some d')
  have "is_dir d q" if "prefix q p" for q
    using disk_wf_ancestor [OF assms(1), of q] that is_dir_exists [OF assms(2)] assms(2)
    by (cases "q = p") (auto simp: prefix_def)
  then have "dlookup d q \<noteq> None" if "prefix q p" for q
    using that is_dir_exists by (fastforce simp: path_exists_def)
  then have "dlookup d' q = dlookup d q" for q
    using create_dir_all_lookup(2) [OF assms(1) Some, of q] by auto
  then show ?thesis
    using Some create_dir_all_lookup(1) [OF assms(1) Some] by (simp add: ignore_def confined_def)
qed (simp add: ignore_def)

lemma create_dir_all_confined:
  assumes "prefix base p"
  shows "confined base d (ignore fs_create_dir_all d p)"
proof (cases "base = p")
  case True
  then show ?thesis
    using create_dir_all_existing [of d p] by (auto simp: confined_def)
next
  case False
  then show ?thesis using assms create_dir_all.ignore_confined by (simp add: strict_prefix_def)
qed

section \<open>Listings\<close>

lemma read_dir_entries:
  assumes wf: "disk_wf d" and "fs_read_dir d p = Some es"
  shows "(n, e) \<in> set es \<longleftrightarrow> dlookup d (p @ [n]) = Some e" and "distinct (map fst es)"
proof -
  let ?ds = "filter (\<lambda>(q, e). q \<noteq> [] \<and> butlast q = p) (dentries d)"
  have es: "es = map (\<lambda>(q, e). (last q, e)) ?ds"
    using assms(2) by (simp add: fs_read_dir_def split: if_splits)
  have dist: "distinct (map fst (dentries d))" using wf by (simp add: disk_wf_def)
  have "(n, e) \<in> set es \<longleftrightarrow> (p @ [n], e) \<in> set (dentries d)"
  proof -
    have "q = p @ [last q]" if "q \<noteq> []" "butlast q = p" for q
      using that append_butlast_last_id [of q] by simp
    then show ?thesis by (force simp: es)
  qed
  then show "(n, e) \<in> set es \<longleftrightarrow> dlookup d (p @ [n]) = Some e"
    using dist by (simp add: dlookup_def)
  have "inj_on last (fst ` set ?ds)"
    by (auto simp: inj_on_def) (metis append_butlast_last_id)
  moreover have "map fst es = map last (map fst ?ds)" by (auto simp: es)
  ultimately show "distinct (map fst es)"
    using distinct_filter_fst [OF dist, of "\<lambda>(q, e). q \<noteq> [] \<and> butlast q = p"]
    by (simp add: distinct_map comp_inj_on)
qed

section \<open>Secrets\<close>

text \<open>\<^verbatim>\<open>ErrorKind::NotFound\<close>: nothing there, and no file on the way.\<close>

definition not_found :: "disk \<Rightarrow> path \<Rightarrow> bool" where
  "not_found d p \<longleftrightarrow> \<not> path_exists d p \<and> \<not> list_ex (is_file d) (prefixes p)"

text \<open>
  How the gateway stores its host key and the dashboard its token: the directory, the content (which may
  fail to be encoded), then mode 0600.
\<close>

definition create_private :: "string option \<Rightarrow> disk \<Rightarrow> path \<Rightarrow> (AegisError + unit) \<times> disk" where
  "create_private bytes d p =
     (case (if butlast p \<noteq> [] then fs_create_dir_all d (butlast p) else Some d) of
        None \<Rightarrow> (Inl Io, d)
      | Some d1 \<Rightarrow>
          (case bytes of
             None \<Rightarrow> (Inl Io, d1)
           | Some content \<Rightarrow>
               (case fs_write content d1 p of
                  None \<Rightarrow> (Inl Io, d1)
                | Some d2 \<Rightarrow>
                    (case fs_set_permissions 384 d2 p of
                       None \<Rightarrow> (Inl Io, d2)
                     | Some d3 \<Rightarrow> (Inr (), d3)))))"

lemma not_found_read: "not_found d p \<Longrightarrow> fs_read_to_string d p = None"
  by (auto simp: not_found_def path_exists_def fs_read_to_string_def fs_read_def split: option.splits)

lemma create_private_file:
  assumes "create_private bytes d p = (Inr u, d')" and "p \<noteq> []"
  shows "\<exists>t. bytes = Some t \<and> dlookup d' p = Some (DFile 384 t)"
proof -
  define mk where "mk = (if butlast p \<noteq> [] then fs_create_dir_all d (butlast p) else Some d)"
  note create = assms(1) [unfolded create_private_def, folded mk_def]
  obtain d1 where d1: "mk = Some d1" using create by (cases mk) simp_all
  obtain t where t: "bytes = Some t" using create d1 by (cases bytes) simp_all
  obtain d2 where d2: "fs_write t d1 p = Some d2" using create d1 t by (cases "fs_write t d1 p") simp_all
  obtain d3 where d3: "fs_set_permissions 384 d2 p = Some d3"
    using create d1 t d2 by (cases "fs_set_permissions 384 d2 p") simp_all
  have r: "d3 = d'" using create d1 t d2 d3 by simp
  obtain m where "dlookup d2 p = Some (DFile m t)"
    using d2 assms(2) by (cases "dlookup d1 p") (auto simp: fs_write_def fs_open_with_def dlookup_put split: dentry.splits if_splits)
  then have "dlookup d' p = Some (DFile 384 t)" using d3 r assms(2) by (auto simp: fs_set_permissions_def dlookup_put)
  with t show ?thesis by simp
qed

end
