(* ===== verification/Vfs.thy ===== *)
theory Vfs
  imports Vfs_Tree Disk
begin

text \<open>
  The virtual file system of a session (\<^verbatim>\<open>VirtualFileSystem\<close> in
  \<^verbatim>\<open>crates/aegis-gateway/src/vfs.rs\<close>): path resolution, the merged view of the session's upper
  layer, the golden rootfs and the in-memory tree, and the file commands of the fake shell. The
  commands thread the session's tree and the host disk through their targets.
\<close>

section \<open>State and paths\<close>

record VirtualFileSystem =
  current_path :: path
  mount_root :: "path option"
  lower_root :: "path option"
  vroot :: DirNode

definition with_roots :: "path option \<Rightarrow> path option \<Rightarrow> VirtualFileSystem" where
  "with_roots mount lower =
     \<lparr>current_path = [''root''], mount_root = mount, lower_root = lower, vroot = build_default_fs\<rparr>"

definition with_mount_root :: "path option \<Rightarrow> VirtualFileSystem" where
  "with_mount_root mount =
     \<lparr>current_path = [''root''], mount_root = mount, lower_root = Some [''rootfs''], vroot = build_default_fs\<rparr>"

definition VirtualFileSystem_default :: VirtualFileSystem where
  "VirtualFileSystem_default =
     \<lparr>current_path = [''root''], mount_root = None, lower_root = None, vroot = build_default_fs\<rparr>"

definition path_str :: "path \<Rightarrow> string" where
  "path_str parts = (if parts = [] then ''/'' else ''/'' @ join ''/'' parts)"

definition current_path_str :: "VirtualFileSystem \<Rightarrow> string" where
  "current_path_str v = path_str (current_path v)"

text \<open>One component of a path: \<^verbatim>\<open>Vec::pop\<close> on an empty vector does nothing.\<close>

definition push_component :: "path \<Rightarrow> string \<Rightarrow> path" where
  "push_component parts c =
     (if c = '''' \<or> c = ''.'' then parts
      else if c = ''..'' then butlast parts
      else parts @ [c])"

definition resolve :: "VirtualFileSystem \<Rightarrow> string \<Rightarrow> path" where
  "resolve v path0 =
     (let path = trim path0
      in if path = '''' then current_path v
         else if starts_with ''~'' path then
           let rest = trim_start_matches (CHR ''/'') (trim_start_matches (CHR ''~'') path)
           in if rest = '''' then [''root'']
              else foldl push_component [''root''] (split_on (CHR ''/'') rest)
         else
           let parts = (if starts_with ''/'' path then [] else current_path v)
           in foldl push_component parts (split_on (CHR ''/'') path))"

definition disk_component :: "string \<Rightarrow> bool" where
  "disk_component part \<longleftrightarrow>
     \<not> (part = '''' \<or> part = ''.'' \<or> part = ''..'' \<or> contains_str ''/'' part)"

definition resolve_disk_path_base :: "path \<Rightarrow> path \<Rightarrow> path" where
  "resolve_disk_path_base base parts = base @ filter disk_component parts"

definition resolve_upper_path :: "VirtualFileSystem \<Rightarrow> path \<Rightarrow> path option" where
  "resolve_upper_path v parts =
     map_option (\<lambda>base. resolve_disk_path_base base parts) (mount_root v)"

definition resolve_lower_path :: "VirtualFileSystem \<Rightarrow> path \<Rightarrow> path option" where
  "resolve_lower_path v parts =
     map_option (\<lambda>base. resolve_disk_path_base base parts) (lower_root v)"

section \<open>Commands that only read\<close>

definition pwd :: "VirtualFileSystem \<Rightarrow> string" where
  "pwd v = current_path_str v @ crlf"

text \<open>What a layer says about a path: absent, a directory, or something else.\<close>

definition layer_is_dir :: "disk \<Rightarrow> path option \<Rightarrow> bool option" where
  "layer_is_dir d p =
     (case p of
        Some q \<Rightarrow> if path_exists d q then Some (is_dir d q) else None
      | None \<Rightarrow> None)"

definition cd :: "VirtualFileSystem \<Rightarrow> disk \<Rightarrow> string \<Rightarrow> string \<times> VirtualFileSystem" where
  "cd v d arg0 =
     (let arg = trim arg0;
          parts = (if arg = '''' then [''root''] else resolve v arg);
          ok = ('''', v\<lparr>current_path := parts\<rparr>);
          not_a_dir = (''bash: cd: '' @ arg @ '': Not a directory'' @ crlf, v)
      in if parts = [] then ok
         else case layer_is_dir d (resolve_upper_path v parts) of
           Some b \<Rightarrow> if b then ok else not_a_dir
         | None \<Rightarrow>
             (case layer_is_dir d (resolve_lower_path v parts) of
                Some b \<Rightarrow> if b then ok else not_a_dir
              | None \<Rightarrow>
                  (case get_node_safe (vroot v) parts of
                     Some (Dir _) \<Rightarrow> ok
                   | Some (File _) \<Rightarrow> not_a_dir
                   | None \<Rightarrow> (''bash: cd: '' @ arg @ '': No such file or directory'' @ crlf, v))))"

text \<open>An entry of a listing: permission string, size, and whether it is a directory.\<close>

type_synonym ls_entry = "string \<times> nat \<times> bool"

fun tree_ls_entry :: "FsNode \<Rightarrow> ls_entry" where
  "tree_ls_entry (File f) = (fn_perms f, length (fn_content f), False)"
| "tree_ls_entry (Dir d) = (dn_perms d, 4096, True)"

fun disk_ls_entry :: "dentry \<Rightarrow> ls_entry" where
  "disk_ls_entry (DDir _) = (''drwxr-xr-x'', 4096, True)"
| "disk_ls_entry (DFile _ c) = (''-rw-r--r--'', length c, False)"

definition insert_all :: "('k \<times> 'v) list \<Rightarrow> ('k \<times> 'v) list \<Rightarrow> ('k \<times> 'v) list" where
  "insert_all new m = foldl (\<lambda>m (k, v). AList.update k v m) m new"

definition layer_entries :: "disk \<Rightarrow> path option \<Rightarrow> (string \<times> ls_entry) list" where
  "layer_entries d p =
     (case p of
        None \<Rightarrow> []
      | Some q \<Rightarrow>
          (case fs_read_dir d q of
             None \<Rightarrow> []
           | Some es \<Rightarrow> map (\<lambda>(n, e). (from_utf8_lossy n, disk_ls_entry e)) es))"

definition tree_entries :: "DirNode \<Rightarrow> path \<Rightarrow> (string \<times> ls_entry) list" where
  "tree_entries rt parts =
     (case get_node_safe rt parts of
        Some (Dir dn) \<Rightarrow> map (\<lambda>(n, node). (n, tree_ls_entry node)) (children dn)
      | _ \<Rightarrow> [])"

definition ls_entries :: "VirtualFileSystem \<Rightarrow> disk \<Rightarrow> path \<Rightarrow> (string \<times> ls_entry) list" where
  "ls_entries v d parts =
     insert_all (layer_entries d (resolve_upper_path v parts))
       (insert_all (layer_entries d (resolve_lower_path v parts))
          (insert_all (tree_entries (vroot v) parts) []))"

definition ls_final :: "bool \<Rightarrow> (string \<times> ls_entry) list \<Rightarrow> (string \<times> ls_entry) list" where
  "ls_final show_hidden em =
     (if show_hidden
      then [(''.'', ''drwxr-xr-x'', 4096, True), (''..'', ''drwxr-xr-x'', 4096, True)] else []) @
     List.map_filter (\<lambda>name. map_option (Pair name) (map_of em name))
       (filter (\<lambda>name. show_hidden \<or> \<not> starts_with ''.'' name) (sort (map fst em)))"

definition ls_long_row :: "string \<times> ls_entry \<Rightarrow> string" where
  "ls_long_row row =
     (case row of (name, perms, sz, isd) \<Rightarrow>
        perms @ '' '' @ (if isd then ''2'' else ''1'') @ '' root root ''
        @ pad_left 5 (show_nat sz) @ '' Aug 27 18:00 '' @ name @ crlf)"

definition ls_file_row :: "bool \<Rightarrow> string \<Rightarrow> nat \<Rightarrow> string" where
  "ls_file_row long name sz =
     (if long
      then ''-rw-r--r-- 1 root root '' @ pad_left 5 (show_nat sz) @ '' Aug 27 18:00 '' @ name @ crlf
      else name @ crlf)"

definition layer_file_size :: "disk \<Rightarrow> path option \<Rightarrow> nat option" where
  "layer_file_size d p =
     (case p of
        Some q \<Rightarrow> if is_file d q then Some (case fs_len d q of Some n \<Rightarrow> n | None \<Rightarrow> 0) else None
      | None \<Rightarrow> None)"

definition ls_dir :: "bool \<Rightarrow> bool \<Rightarrow> (string \<times> ls_entry) list \<Rightarrow> string" where
  "ls_dir show_hidden long em =
     (let final = ls_final show_hidden em
      in if long
         then ''total '' @ show_nat (length final * 4) @ crlf @ concat (map ls_long_row final)
         else let names = map fst final in if names = [] then '''' else join ''  '' names @ crlf)"

definition ls_target :: "VirtualFileSystem \<Rightarrow> disk \<Rightarrow> bool \<Rightarrow> bool \<Rightarrow> path \<Rightarrow> string" where
  "ls_target v d show_hidden long parts =
     (let name = (if parts = [] then ''?'' else last parts)
      in case layer_file_size d (resolve_upper_path v parts) of
           Some sz \<Rightarrow> ls_file_row long name sz
         | None \<Rightarrow>
             (case layer_file_size d (resolve_lower_path v parts) of
                Some sz \<Rightarrow> ls_file_row long name sz
              | None \<Rightarrow>
                  let em = ls_entries v d parts
                  in if em = [] \<and> parts \<noteq> [] \<and> get_node_safe (vroot v) parts = None
                     then ''ls: cannot access '' @ [squote] @ path_str parts @ [squote]
                          @ '': No such file or directory'' @ crlf
                     else ls_dir show_hidden long em))"

definition is_flag :: "string \<Rightarrow> bool" where
  "is_flag t = starts_with ''-'' t"

definition push_flags :: "string \<Rightarrow> string \<Rightarrow> string option" where
  "push_flags flags t = (case str_slice t 1 (length t) of Some f \<Rightarrow> Some (flags @ f) | None \<Rightarrow> None)"

definition ls :: "VirtualFileSystem \<Rightarrow> disk \<Rightarrow> string \<Rightarrow> string option" where
  "ls v d args =
     (let tokens = split_whitespace args;
          targets = filter (\<lambda>t. \<not> is_flag t) tokens
      in case try_fold push_flags [] (filter is_flag tokens) of
           None \<Rightarrow> None
         | Some flags \<Rightarrow>
             let show_hidden = contains_str ''a'' flags \<or> contains_str ''A'' flags;
                 long = contains_str ''l'' flags;
                 list_targets = (if targets = [] then [current_path v] else map (resolve v) targets)
             in Some (concat (map (ls_target v d show_hidden long) list_targets)))"

text \<open>The text of a file on the terminal.\<close>

definition terminal_text :: "string \<Rightarrow> string" where
  "terminal_text content =
     (let c = to_crlf content in if ends_with crlf c then c else c @ crlf)"

text \<open>
  What a disk layer shows for a \<^verbatim>\<open>cat\<close> target; \<^const>\<open>None\<close> falls through to the next layer (absent
  there, or not readable as text).
\<close>

definition layer_cat :: "disk \<Rightarrow> string \<Rightarrow> path option \<Rightarrow> string option" where
  "layer_cat d target p =
     (case p of
        None \<Rightarrow> None
      | Some q \<Rightarrow>
          if path_exists d q
          then if is_dir d q then Some (''cat: '' @ target @ '': Is a directory'' @ crlf)
               else map_option terminal_text (fs_read_to_string d q)
          else None)"

definition cat_target :: "VirtualFileSystem \<Rightarrow> disk \<Rightarrow> string \<Rightarrow> string" where
  "cat_target v d target =
     (let parts = resolve v target
      in if contains_str ''shadow'' target
         then ''cat: '' @ target @ '': Permission denied'' @ crlf
         else case layer_cat d target (resolve_upper_path v parts) of
           Some out \<Rightarrow> out
         | None \<Rightarrow>
             (case layer_cat d target (resolve_lower_path v parts) of
                Some out \<Rightarrow> out
              | None \<Rightarrow>
                  (case get_node_safe (vroot v) parts of
                     None \<Rightarrow> ''cat: '' @ target @ '': No such file or directory'' @ crlf
                   | Some (Dir _) \<Rightarrow> ''cat: '' @ target @ '': Is a directory'' @ crlf
                   | Some (File f) \<Rightarrow>
                       if permission_denied f
                       then ''cat: '' @ target @ '': Permission denied'' @ crlf
                       else terminal_text (fn_content f))))"

definition cat :: "VirtualFileSystem \<Rightarrow> disk \<Rightarrow> string \<Rightarrow> string" where
  "cat v d args =
     concat (map (cat_target v d) (filter (\<lambda>t. \<not> is_flag t) (split_whitespace args)))"

section \<open>Commands that change files\<close>

text \<open>
  The state of a command: output so far, the session's file system, the disk. A command that panics gives
  \<^const>\<open>None\<close>; \<^verbatim>\<open>&parts[..parts.len()-1]\<close> and \<^verbatim>\<open>parts.last().unwrap()\<close> both do on an empty vector.
\<close>

type_synonym fs_state = "string \<times> VirtualFileSystem \<times> disk"

definition split_last :: "path \<Rightarrow> (path \<times> string) option" where
  "split_last parts = (if parts = [] then None else Some (butlast parts, last parts))"

definition mkdir_disk :: "bool \<Rightarrow> disk \<Rightarrow> path \<Rightarrow> disk" where
  "mkdir_disk parents d upper =
     (if parents then ignore fs_create_dir_all d upper
      else case path_parent upper of
        Some parent \<Rightarrow> ignore fs_create_dir (ignore fs_create_dir_all d parent) upper
      | None \<Rightarrow> d)"

definition cannot_create :: "string \<Rightarrow> string \<Rightarrow> string" where
  "cannot_create target why =
     ''mkdir: cannot create directory '' @ [squote] @ target @ [squote] @ '': '' @ why @ crlf"

definition mkdir_tree :: "bool \<Rightarrow> string \<Rightarrow> path \<Rightarrow> string \<Rightarrow> DirNode \<Rightarrow> (string \<times> DirNode) option" where
  "mkdir_tree parents target parts out rt =
     (if parents then Some (out, mkdir_parents rt parts)
      else case split_last parts of
        None \<Rightarrow> None
      | Some (parent_parts, name) \<Rightarrow>
          Some (case get_dir_mut rt parent_parts of
             Some parent \<Rightarrow>
               if child parent name \<noteq> None
               then (if out = '''' then cannot_create target ''File exists'' else out, rt)
               else (out, put_dir rt parent_parts (insert_child name (Dir DirNode_new) parent))
           | None \<Rightarrow>
               (if out = '''' then cannot_create target ''No such file or directory'' else out, rt)))"

definition mkdir_target :: "bool \<Rightarrow> fs_state \<Rightarrow> string \<Rightarrow> fs_state option" where
  "mkdir_target parents s target =
     (case s of (out, v, d) \<Rightarrow>
        let parts = resolve v target
        in if parts = [] then Some (out @ cannot_create ''/'' ''File exists'', v, d)
           else
             let go = (\<lambda>d'. map_option (\<lambda>(out', root'). (out', v\<lparr>vroot := root'\<rparr>, d'))
                              (mkdir_tree parents target parts out (vroot v)))
             in case resolve_upper_path v parts of
                  None \<Rightarrow> go d
                | Some upper \<Rightarrow>
                    if \<not> parents \<and> path_exists d upper
                    then Some (out @ cannot_create target ''File exists'', v, d)
                    else go (mkdir_disk parents d upper))"

definition mkdir :: "VirtualFileSystem \<Rightarrow> disk \<Rightarrow> string \<Rightarrow> fs_state option" where
  "mkdir v d args =
     (let tokens = split_whitespace args;
          parents = (''-p'' \<in> set tokens);
          targets = filter (\<lambda>t. \<not> is_flag t) tokens
      in if targets = [] then Some (''mkdir: missing operand'' @ crlf, v, d)
         else try_fold (mkdir_target parents) ('''', v, d) targets)"

text \<open>The parent of a disk path is created first, whatever comes of it.\<close>

definition ensure_parent :: "disk \<Rightarrow> path \<Rightarrow> disk" where
  "ensure_parent d upper =
     (case path_parent upper of Some parent \<Rightarrow> ignore fs_create_dir_all d parent | None \<Rightarrow> d)"

definition update_parent :: "DirNode \<Rightarrow> path \<Rightarrow> (string \<Rightarrow> DirNode \<Rightarrow> DirNode) \<Rightarrow> DirNode option" where
  "update_parent rt parts f =
     (case split_last parts of
        None \<Rightarrow> None
      | Some (parent_parts, name) \<Rightarrow>
          Some (case get_dir_mut rt parent_parts of
                  Some parent \<Rightarrow> put_dir rt parent_parts (f name parent)
                | None \<Rightarrow> rt))"

definition touch_target :: "VirtualFileSystem \<times> disk \<Rightarrow> string \<Rightarrow> (VirtualFileSystem \<times> disk) option" where
  "touch_target s target =
     (case s of (v, d) \<Rightarrow>
        let parts = resolve v target
        in if parts = [] then Some (v, d)
           else
             let d' = (case resolve_upper_path v parts of
                         Some upper \<Rightarrow> ignore fs_touch (ensure_parent d upper) upper
                       | None \<Rightarrow> d)
             in map_option (\<lambda>root'. (v\<lparr>vroot := root'\<rparr>, d'))
                  (update_parent (vroot v) parts
                    (\<lambda>name parent. if child parent name = None
                                   then insert_child name (file_node '''') parent else parent)))"

definition touch :: "VirtualFileSystem \<Rightarrow> disk \<Rightarrow> string \<Rightarrow> fs_state option" where
  "touch v d args =
     (let targets = filter (\<lambda>t. \<not> is_flag t) (split_whitespace args)
      in if targets = [] then Some (''touch: missing file operand'' @ crlf, v, d)
         else map_option (Pair '''') (try_fold touch_target (v, d) targets))"

definition cannot_remove :: "string \<Rightarrow> string \<Rightarrow> string" where
  "cannot_remove target why =
     ''rm: cannot remove '' @ [squote] @ target @ [squote] @ '': '' @ why @ crlf"

definition rm_disk :: "bool \<Rightarrow> disk \<Rightarrow> path \<Rightarrow> disk" where
  "rm_disk recursive d upper =
     (if path_exists d upper
      then if is_dir d upper
           then if recursive then ignore fs_remove_dir_all d upper else d
           else ignore fs_remove_file d upper
      else d)"

definition rm_tree :: "bool \<Rightarrow> bool \<Rightarrow> string \<Rightarrow> path \<Rightarrow> string \<Rightarrow> DirNode \<Rightarrow> (string \<times> DirNode) option" where
  "rm_tree recursive force target parts out rt =
     (case split_last parts of
        None \<Rightarrow> None
      | Some (parent_parts, name) \<Rightarrow>
          Some (case get_dir_mut rt parent_parts of
            None \<Rightarrow> (out, rt)
          | Some parent \<Rightarrow>
             (case child parent name of
                Some node \<Rightarrow>
                  (case node of
                     Dir _ \<Rightarrow>
                       if recursive then (out, put_dir rt parent_parts (remove_child name parent))
                       else (if \<not> force \<and> out = '''' then cannot_remove target ''Is a directory'' else out, rt)
                   | File _ \<Rightarrow> (out, put_dir rt parent_parts (remove_child name parent)))
              | None \<Rightarrow>
                  (if \<not> force \<and> out = '''' then cannot_remove target ''No such file or directory'' else out,
                   rt))))"

definition rm_target :: "bool \<Rightarrow> bool \<Rightarrow> fs_state \<Rightarrow> string \<Rightarrow> fs_state option" where
  "rm_target recursive force s target =
     (case s of (out, v, d) \<Rightarrow>
        let parts = resolve v target
        in if parts = []
           then Some (out @ ''rm: it is dangerous to operate recursively on '' @ [squote] @ ''/'' @ [squote] @ crlf,
                 v, d)
           else
             let go = (\<lambda>d'. map_option (\<lambda>(out', root'). (out', v\<lparr>vroot := root'\<rparr>, d'))
                              (rm_tree recursive force target parts out (vroot v)))
             in case resolve_upper_path v parts of
                  None \<Rightarrow> go d
                | Some upper \<Rightarrow>
                    if is_dir d upper \<and> \<not> recursive \<and> \<not> force
                    then Some (out @ cannot_remove target ''Is a directory'', v, d)
                    else go (rm_disk recursive d upper))"

definition rm :: "VirtualFileSystem \<Rightarrow> disk \<Rightarrow> string \<Rightarrow> fs_state option" where
  "rm v d args =
     (let tokens = split_whitespace args;
          recursive = list_ex (\<lambda>t. is_flag t \<and> (contains_str ''r'' t \<or> contains_str ''R'' t)) tokens;
          force = list_ex (\<lambda>t. is_flag t \<and> contains_str ''f'' t) tokens;
          targets = filter (\<lambda>t. \<not> is_flag t) tokens
      in if targets = []
         then Some (if force then '''' else ''rm: missing operand'' @ crlf, v, d)
         else try_fold (rm_target recursive force) ('''', v, d) targets)"

definition write_child :: "string \<Rightarrow> bool \<Rightarrow> string \<Rightarrow> DirNode \<Rightarrow> DirNode" where
  "write_child content app name parent =
     (case child parent name of
        Some (File f) \<Rightarrow>
          if app
          then insert_child name (File (f\<lparr>fn_content := fn_content f @ content\<rparr>)) parent
          else insert_child name (file_node content) parent
      | _ \<Rightarrow> insert_child name (file_node content) parent)"

definition write_file :: "VirtualFileSystem \<Rightarrow> disk \<Rightarrow> string \<Rightarrow> string \<Rightarrow> bool \<Rightarrow> fs_state option" where
  "write_file v d target content app =
     (let parts = resolve v target
      in if parts = [] then Some (''bash: '' @ target @ '': Is a directory'' @ crlf, v, d)
         else
           let d' = (case resolve_upper_path v parts of
                       Some upper \<Rightarrow>
                         ignore (if app then fs_append content else fs_write content)
                           (ensure_parent d upper) upper
                     | None \<Rightarrow> d)
           in map_option (\<lambda>root'. ('''', v\<lparr>vroot := root'\<rparr>, d'))
                (update_parent (vroot v) parts (write_child content app)))"

section \<open>Paths stay inside\<close>

definition vfs_inv :: "VirtualFileSystem \<Rightarrow> bool" where
  "vfs_inv v \<longleftrightarrow> list_all disk_component (current_path v)"

lemma disk_component_iff:
  "disk_component c \<longleftrightarrow> c \<noteq> '''' \<and> c \<noteq> ''.'' \<and> c \<noteq> ''..'' \<and> CHR ''/'' \<notin> set c"
  by (simp add: disk_component_def)

lemma push_component_clean:
  "list_all disk_component parts \<Longrightarrow> CHR ''/'' \<notin> set c \<Longrightarrow> list_all disk_component (push_component parts c)"
  by (auto simp: push_component_def disk_component_iff list_all_iff dest: in_set_butlastD)

lemma push_components_clean:
  "list_all disk_component parts \<Longrightarrow>
   list_all disk_component (foldl push_component parts (split_on (CHR ''/'') s))"
  by (rule foldl_invariant) (auto intro: push_component_clean dest: split_on_clean)

lemma root_clean: "list_all disk_component [''root'']"
  by (simp add: disk_component_iff)

lemma resolve_clean: "vfs_inv v \<Longrightarrow> list_all disk_component (resolve v s)"
  using root_clean by (auto simp: resolve_def vfs_inv_def Let_def intro: push_components_clean)

lemma disk_path_clean:
  "list_all disk_component parts \<Longrightarrow> resolve_disk_path_base base parts = base @ parts"
  by (simp add: resolve_disk_path_base_def list_all_iff filter_id_conv)

lemma upper_path_clean:
  "vfs_inv v \<Longrightarrow> resolve_upper_path v (resolve v s) = map_option (\<lambda>base. base @ resolve v s) (mount_root v)"
  by (simp add: resolve_upper_path_def disk_path_clean resolve_clean)

lemma path_parent_below: "parts \<noteq> [] \<Longrightarrow> path_parent (base @ parts) = Some (base @ butlast parts)"
  by (simp add: path_parent_def butlast_append)

lemma strict_prefix_below: "parts \<noteq> [] \<Longrightarrow> strict_prefix base (base @ parts)"
  by (simp add: strict_prefix_def)

lemma ensure_parent_confined:
  "parts \<noteq> [] \<Longrightarrow> confined base d (ensure_parent d (base @ parts))"
  by (simp add: ensure_parent_def path_parent_below create_dir_all_confined)

lemma mkdir_disk_confined:
  assumes "parts \<noteq> []"
  shows "confined base d (mkdir_disk ps d (base @ parts))"
proof (cases ps)
  case True
  then show ?thesis by (simp add: mkdir_disk_def create_dir_all_confined)
next
  case False
  have "confined base d (ignore fs_create_dir_all d (base @ butlast parts))"
    by (rule create_dir_all_confined) simp
  also have "confined base (ignore fs_create_dir_all d (base @ butlast parts))
      (ignore fs_create_dir (ignore fs_create_dir_all d (base @ butlast parts)) (base @ parts))"
    by (rule create_dir.ignore_confined [OF strict_prefix_below [OF assms]])
  finally show ?thesis using False assms by (simp add: mkdir_disk_def path_parent_below)
qed

lemma rm_disk_confined:
  "parts \<noteq> [] \<Longrightarrow> confined base d (rm_disk r d (base @ parts))"
  using remove_dir_all.ignore_confined [OF strict_prefix_below] remove_file.ignore_confined [OF strict_prefix_below]
  by (auto simp: rm_disk_def)

section \<open>The interface of a file command\<close>

text \<open>
  What a step of a session may do to its file system and to the disk: the roots stay, the working
  directory stays a path of plain components, and the disk changes strictly below the session's
  mount root only (not at all without one).
\<close>

definition session_confined ::
  "VirtualFileSystem \<Rightarrow> disk \<Rightarrow> VirtualFileSystem \<Rightarrow> disk \<Rightarrow> bool" where
  "session_confined v d v' d' \<longleftrightarrow>
     (vfs_inv v \<longrightarrow>
        vfs_inv v' \<and> mount_root v' = mount_root v \<and> lower_root v' = lower_root v \<and>
        (case mount_root v of None \<Rightarrow> d' = d | Some base \<Rightarrow> confined base d d'))"

lemma session_confined_refl [simp, intro]: "session_confined v d v d"
  by (simp add: session_confined_def split: option.splits)

lemma session_confined_trans [trans]:
  "session_confined v d v' d' \<Longrightarrow> session_confined v' d' v'' d'' \<Longrightarrow> session_confined v d v'' d''"
  by (auto simp: session_confined_def split: option.splits intro: confined_trans)

lemma session_confined_tree [simp, intro]: "session_confined v d (v\<lparr>vroot := r\<rparr>) d"
  by (simp add: session_confined_def vfs_inv_def split: option.splits)

lemma session_confined_upper:
  assumes "\<And>base. vfs_inv v \<Longrightarrow> mount_root v = Some base \<Longrightarrow> confined base d d'"
    and "mount_root v = None \<Longrightarrow> d' = d"
  shows "session_confined v d (v\<lparr>vroot := r\<rparr>) d'"
  using assms by (auto simp: session_confined_def vfs_inv_def split: option.splits)

locale file_command =
  fixes cmd :: "VirtualFileSystem \<Rightarrow> disk \<Rightarrow> string \<Rightarrow> fs_state option"
  assumes cmd_confined: "cmd v d args = Some (out, v', d') \<Longrightarrow> session_confined v d v' d'"
    and cmd_cwd: "cmd v d args = Some (out, v', d') \<Longrightarrow> current_path v' = current_path v"
    and cmd_total: "cmd v d args \<noteq> None"
begin

lemma cmd_returns: "\<exists>out v' d'. cmd v d args = Some (out, v', d')"
  using cmd_total [of v d args] by auto

text \<open>A golden rootfs that does not lie below the mount root is never touched.\<close>

lemma cmd_lower_untouched:
  assumes "vfs_inv v" and "mount_root v = Some base" and "disk_wf d" and "is_dir d base"
    and "\<not> strict_prefix base q" and "cmd v d args = Some (out, v', d')"
  shows "dlookup d' q = dlookup d q"
  using cmd_confined [OF assms(6)] assms(1-5) by (simp add: session_confined_def confined_def)

end

text \<open>Commands that fold a step over their targets.\<close>

lemma fold_targets_confined:
  fixes out out' :: string
  assumes "\<And>out v d t out' v' d'. step (out, v, d) t = Some (out', v', d') \<Longrightarrow>
    session_confined v d v' d' \<and> current_path v' = current_path v"
    and "try_fold step (out, v, d) ts = Some (out', v', d')"
  shows "session_confined v d v' d' \<and> current_path v' = current_path v"
proof -
  let ?R = "\<lambda>(o1 :: string, v, d) (o2 :: string, v', d'). session_confined v d v' d' \<and> current_path v' = current_path v"
  have "?R (out, v, d) (out', v', d')"
    by (rule try_fold_rel [where R = ?R, OF assms(2)]) (auto dest: assms(1) session_confined_trans)
  then show ?thesis by simp
qed

lemma split_last_nonempty [simp]: "parts \<noteq> [] \<Longrightarrow> split_last parts = Some (butlast parts, last parts)"
  by (simp add: split_last_def)

lemma update_parent_total: "parts \<noteq> [] \<Longrightarrow> update_parent rt parts f \<noteq> None"
  by (simp add: update_parent_def)

lemmas command_total = update_parent_total try_fold_total

lemma mkdir_target_confined:
  assumes "mkdir_target ps (out, v, d) t = Some (out', v', d')"
  shows "session_confined v d v' d' \<and> current_path v' = current_path v"
proof (cases "v' = v \<and> d' = d")
  case False
  with assms have ne: "resolve v t \<noteq> []"
    and v': "\<exists>r. v' = v\<lparr>vroot := r\<rparr>"
    and d': "d' = (case resolve_upper_path v (resolve v t) of
        None \<Rightarrow> d | Some upper \<Rightarrow> mkdir_disk ps d upper)"
    by (auto simp: mkdir_target_def Let_def split: if_splits option.splits prod.splits)
  have "session_confined v d (v\<lparr>vroot := r\<rparr>) d'" for r
    by (rule session_confined_upper)
       (use ne in \<open>auto simp: d' disk_path_clean resolve_clean mkdir_disk_confined resolve_upper_path_def\<close>)
  then show ?thesis using v' by auto
qed simp

lemma mkdir_target_total: "mkdir_target ps s t \<noteq> None"
  by (auto simp: mkdir_target_def mkdir_tree_def Let_def split: prod.splits option.splits)

lemma rm_target_confined:
  assumes "rm_target r f (out, v, d) t = Some (out', v', d')"
  shows "session_confined v d v' d' \<and> current_path v' = current_path v"
proof (cases "v' = v \<and> d' = d")
  case False
  with assms have ne: "resolve v t \<noteq> []"
    and v': "\<exists>r. v' = v\<lparr>vroot := r\<rparr>"
    and d': "d' = (case resolve_upper_path v (resolve v t) of
        None \<Rightarrow> d | Some upper \<Rightarrow> rm_disk r d upper)"
    by (auto simp: rm_target_def Let_def split: if_splits option.splits prod.splits)
  have "session_confined v d (v\<lparr>vroot := r'\<rparr>) d'" for r'
    by (rule session_confined_upper)
       (use ne in \<open>auto simp: d' disk_path_clean resolve_clean rm_disk_confined resolve_upper_path_def\<close>)
  then show ?thesis using v' by auto
qed simp

lemma rm_target_total: "rm_target r f s t \<noteq> None"
  by (auto simp: rm_target_def rm_tree_def Let_def split: prod.splits option.splits)

lemma touch_target_confined:
  assumes "touch_target (v, d) t = Some (v', d')"
  shows "session_confined v d v' d' \<and> current_path v' = current_path v"
proof (cases "resolve v t = []")
  case True
  then show ?thesis using assms by (simp add: touch_target_def)
next
  case False
  have "confined base d (ignore fs_touch (ensure_parent d (base @ resolve v t)) (base @ resolve v t))" for base
    by (rule confined_trans [OF ensure_parent_confined [OF False]])
       (rule touch_file.ignore_confined [OF strict_prefix_below [OF False]])
  then show ?thesis
    using assms False
    by (auto simp: touch_target_def Let_def disk_path_clean resolve_clean resolve_upper_path_def
        intro!: session_confined_upper)
qed

lemma touch_target_total: "touch_target s t \<noteq> None"
  by (simp add: touch_target_def Let_def command_total del: not_None_eq split: prod.splits)

lemma write_file_confined:
  assumes "write_file v d t c app = Some (out', v', d')"
  shows "session_confined v d v' d' \<and> current_path v' = current_path v"
proof (cases "resolve v t = []")
  case True
  then show ?thesis using assms by (simp add: write_file_def)
next
  case False
  have "confined base d (ignore (if app then fs_append c else fs_write c)
      (ensure_parent d (base @ resolve v t)) (base @ resolve v t))" for base
    by (rule confined_trans [OF ensure_parent_confined [OF False]])
       (auto intro: append_file.ignore_confined write_file.ignore_confined strict_prefix_below [OF False])
  then show ?thesis
    using assms False
    by (auto simp: write_file_def Let_def disk_path_clean resolve_clean resolve_upper_path_def
        intro!: session_confined_upper)
qed

lemma write_file_total: "write_file v d t c app \<noteq> None"
  by (simp add: write_file_def Let_def command_total del: not_None_eq)

lemma mkdir_targets_confined:
  "try_fold (mkdir_target ps) (out, v, d) ts = Some (out', v', d') \<Longrightarrow>
   session_confined v d v' d' \<and> current_path v' = current_path v"
  by (rule fold_targets_confined [where step = "mkdir_target ps"]) (rule mkdir_target_confined)

lemma rm_targets_confined:
  "try_fold (rm_target r f) (out, v, d) ts = Some (out', v', d') \<Longrightarrow>
   session_confined v d v' d' \<and> current_path v' = current_path v"
  by (rule fold_targets_confined [where step = "rm_target r f"]) (rule rm_target_confined)

lemma touch_targets_confined:
  assumes "try_fold touch_target (v, d) ts = Some (v', d')"
  shows "session_confined v d v' d' \<and> current_path v' = current_path v"
proof -
  let ?R = "\<lambda>(v, d) (v', d'). session_confined v d v' d' \<and> current_path v' = current_path v"
  have "?R (v, d) (v', d')"
    by (rule try_fold_rel [where R = ?R, OF assms]) (auto dest: touch_target_confined session_confined_trans)
  then show ?thesis by simp
qed

lemma mkdir_total: "mkdir v d args \<noteq> None"
  by (simp add: mkdir_def Let_def command_total mkdir_target_total del: not_None_eq)

lemma rm_total: "rm v d args \<noteq> None"
  by (simp add: rm_def Let_def command_total rm_target_total del: not_None_eq)

lemma touch_total: "touch v d args \<noteq> None"
  by (simp add: touch_def Let_def command_total touch_target_total del: not_None_eq)

lemma mkdir_confined:
  "mkdir v d args = Some (out, v', d') \<Longrightarrow> session_confined v d v' d' \<and> current_path v' = current_path v"
  by (auto simp: mkdir_def Let_def split: if_splits dest: mkdir_targets_confined)

lemma rm_confined:
  "rm v d args = Some (out, v', d') \<Longrightarrow> session_confined v d v' d' \<and> current_path v' = current_path v"
  by (auto simp: rm_def Let_def split: if_splits dest: rm_targets_confined)

lemma touch_confined:
  "touch v d args = Some (out, v', d') \<Longrightarrow> session_confined v d v' d' \<and> current_path v' = current_path v"
  by (auto simp: touch_def Let_def split: if_splits dest: touch_targets_confined)

interpretation mkdir_cmd: file_command mkdir
  by unfold_locales (blast dest: mkdir_confined, blast dest: mkdir_confined, rule mkdir_total)

interpretation rm_cmd: file_command rm
  by unfold_locales (blast dest: rm_confined, blast dest: rm_confined, rule rm_total)

interpretation touch_cmd: file_command touch
  by unfold_locales (blast dest: touch_confined, blast dest: touch_confined, rule touch_total)

interpretation write_cmd: file_command "\<lambda>v d t. write_file v d t c app" for c app
  by unfold_locales (blast dest: write_file_confined, blast dest: write_file_confined, rule write_file_total)

text \<open>The flags of \<^verbatim>\<open>ls\<close> are cut behind their dash, which is a character of its own in text.\<close>

lemma push_flags_total: "valid_utf8 t \<Longrightarrow> is_flag t \<Longrightarrow> push_flags flags t = Some (flags @ tl t)"
  using str_slice_from [of "tl t" "''-''"] after_ascii [of "CHR ''-''" "[]" "tl t"]
  by (cases t) (auto simp: push_flags_def is_flag_def byte_of_def)

lemma ls_flags:
  "list_all valid_utf8 ts \<Longrightarrow> list_all is_flag ts \<Longrightarrow> try_fold push_flags fl ts = Some (fl @ concat (map tl ts))"
  by (induction ts arbitrary: fl) (simp_all add: push_flags_total)

lemma ls_total:
  assumes "valid_utf8 args"
  shows "ls v d args \<noteq> None"
proof -
  have "list_all valid_utf8 (filter is_flag (split_whitespace args))"
    using split_whitespace_text [OF assms] by (auto simp: list_all_iff)
  then show ?thesis by (simp add: ls_def Let_def ls_flags list_all_iff)
qed

lemma cd_result:
  "cd v d arg = (out, v') \<Longrightarrow>
   v' = v \<or> v' = v\<lparr>current_path := if trim arg = '''' then [''root''] else resolve v (trim arg)\<rparr>"
  unfolding cd_def Let_def by (simp only: split: option.splits FsNode.splits if_splits) auto

lemma cd_confined: "session_confined v d (snd (cd v d arg)) d"
proof -
  have "list_all disk_component (if trim arg = '''' then [''root''] else resolve v (trim arg))"
    if "vfs_inv v"
    using root_clean resolve_clean [OF that] by simp
  moreover have "snd (cd v d arg) = v \<or>
      snd (cd v d arg) = v\<lparr>current_path := if trim arg = '''' then [''root''] else resolve v (trim arg)\<rparr>"
    using cd_result [of v d arg "fst (cd v d arg)" "snd (cd v d arg)"] by simp
  ultimately show ?thesis
    by (auto simp: session_confined_def vfs_inv_def split: option.splits)
qed

section \<open>Properties\<close>

text \<open>
  Claim C32: resolving any string an attacker types, from a working directory of plain components,
  gives a path of plain components: no empty, \<^verbatim>\<open>.\<close> or \<^verbatim>\<open>..\<close> component and none with a slash. The disk
  path below a base is therefore the base extended by exactly those components, so it never leaves
  the base.
\<close>

theorem resolve_stays_inside:
  assumes "vfs_inv v"
  shows "list_all disk_component (resolve v s) \<and>
    resolve_disk_path_base base (resolve v s) = base @ resolve v s"
  using resolve_clean [OF assms, of s] disk_path_clean by auto

theorem resolve_stays_inside_witness:
  "vfs_inv (with_roots None None) \<and>
   resolve_disk_path_base [''mnt''] (resolve (with_roots None None) ''../../../etc/./passwd'') =
     [''mnt'', ''etc'', ''passwd'']"
proof -
  have inv: "vfs_inv (with_roots None None)"
    by (simp add: vfs_inv_def with_roots_def disk_component_iff)
  have "resolve (with_roots None None) ''../../../etc/./passwd'' = [''etc'', ''passwd'']"
    by (simp add: resolve_def trim_def trim_start_def trim_end_def is_ws_def with_roots_def
        push_component_def Let_def str_simps del: split_on.simps(2))
  then show ?thesis
    using resolve_stays_inside [OF inv, of "''../../../etc/./passwd''" "[''mnt'']"] inv by simp
qed

lemma push_components_id:
  "list_all disk_component p \<Longrightarrow> foldl push_component acc p = acc @ p"
  by (induction p arbitrary: acc) (auto simp: push_component_def disk_component_iff)

lemma last_join: "ps \<noteq> [] \<Longrightarrow> last ps \<noteq> [] \<Longrightarrow> join sep ps \<noteq> [] \<and> last (join sep ps) = last (last ps)"
  by (induction sep ps rule: join.induct) auto

text \<open>
  The printed working directory resolves back to itself, for every working directory of
  plain components whose last one does not end in white space.
\<close>

theorem resolve_current_path_str:
  assumes "vfs_inv v" and "current_path v \<noteq> [] \<Longrightarrow> \<not> is_ws (last (last (current_path v)))"
  shows "resolve v (current_path_str v) = current_path v"
proof (cases "current_path v = []")
  case True
  then show ?thesis
    by (simp add: current_path_str_def path_str_def resolve_def trim_def trim_start_def trim_end_def
        is_ws_def push_component_def)
next
  case False
  let ?p = "current_path v"
  have clean: "list_all disk_component ?p" using assms(1) by (simp add: vfs_inv_def)
  then have ne: "last ?p \<noteq> []" using False by (auto simp: list_all_iff disk_component_iff)
  let ?s = "CHR ''/'' # join ''/'' ?p"
  have "trim ?s = ?s"
    using last_join [OF False ne, of "''/''"] assms(2) [OF False] by (intro trim_id) (auto simp: is_ws_def)
  moreover have "split_on (CHR ''/'') ?s = [] # ?p"
    using split_on_join [OF False, of "CHR ''/''"] clean by (auto simp: list_all_iff disk_component_iff)
  ultimately show ?thesis
    using False push_components_id [OF clean, of "[]"]
    by (simp add: current_path_str_def path_str_def resolve_def push_component_def)
qed

theorem resolve_current_path_str_witness:
  "resolve (with_roots None None) (current_path_str (with_roots None None)) = [''root'']"
  using resolve_current_path_str [of "with_roots None None"]
  by (simp add: vfs_inv_def with_roots_def disk_component_iff is_ws_def)

text \<open>
  Whatever file command an attacker runs, with whatever arguments, on a well-formed disk
  where the session's mount root is a directory, nothing changes on the disk except strictly below
  the mount root, the disk stays well-formed, and the roots and the shape of the working directory
  are kept. In particular the golden rootfs, other sessions, logs and quarantine are out of reach,
  and the mount root itself is never removed.
\<close>

theorem file_commands_confined:
  assumes "vfs_inv v" and "mount_root v = Some base" and "disk_wf d" and "is_dir d base"
    and "Some (out, v', d') \<in> {mkdir v d args, touch v d args, rm v d args, write_file v d args content app}"
  shows "disk_wf d' \<and> is_dir d' base \<and> (\<forall>q. \<not> strict_prefix base q \<longrightarrow> dlookup d' q = dlookup d q) \<and>
    vfs_inv v' \<and> mount_root v' = Some base \<and> lower_root v' = lower_root v"
proof -
  have "session_confined v d v' d'"
    using assms(5) mkdir_cmd.cmd_confined [of v d args out v' d'] touch_cmd.cmd_confined [of v d args out v' d']
      rm_cmd.cmd_confined [of v d args out v' d'] write_cmd.cmd_confined [of v d args content app out v' d']
    by auto
  then show ?thesis
    using assms(1-4) confined_is_dir [of base d d'] by (simp add: session_confined_def confined_def)
qed

text \<open>A small disk and session for concrete instances.\<close>

definition demo_disk :: disk where
  "demo_disk =
     \<lparr>dentries = [([''mnt''], DDir 493), ([''mnt'', ''x''], DDir 493), ([''log''], DFile 384 ''evidence'')],
      new_file_mode = 420, new_dir_mode = 493\<rparr>"

definition demo_vfs :: VirtualFileSystem where
  "demo_vfs =
     \<lparr>current_path = [], mount_root = Some [''mnt''], lower_root = None, vroot = DirNode_new\<rparr>"

lemma demo_ok: "disk_wf demo_disk" "is_dir demo_disk [''mnt'']" "vfs_inv demo_vfs"
  "mount_root demo_vfs = Some [''mnt'']"
  by (simp_all add: demo_disk_def demo_vfs_def disk_wf_def is_dir_def dlookup_def vfs_inv_def)

theorem file_commands_confined_witness:
  "dlookup (snd (snd (the (rm demo_vfs demo_disk ''-rf ../log /..'')))) [''log''] = Some (DFile 384 ''evidence'')"
proof -
  obtain out v' d' where r: "rm demo_vfs demo_disk ''-rf ../log /..'' = Some (out, v', d')"
    using rm_cmd.cmd_returns by blast
  show ?thesis
    using file_commands_confined [OF demo_ok(3,4,1,2), of out v' d' "''-rf ../log /..''" "''''" False]
    by (simp add: r strict_prefix_def) (simp add: demo_disk_def dlookup_def)
qed

text \<open>
  A session without a mount root never changes the disk.
\<close>

theorem unmounted_commands_leave_disk:
  assumes "vfs_inv v" and "mount_root v = None"
    and "Some (out, v', d') \<in> {mkdir v d args, touch v d args, rm v d args, write_file v d args content app}"
  shows "d' = d"
proof -
  have "session_confined v d v' d'"
    using assms(3) mkdir_cmd.cmd_confined [of v d args out v' d'] touch_cmd.cmd_confined [of v d args out v' d']
      rm_cmd.cmd_confined [of v d args out v' d'] write_cmd.cmd_confined [of v d args content app out v' d']
    by auto
  then show ?thesis using assms(1,2) by (simp add: session_confined_def)
qed

lemma rm_target_dirs:
  assumes "rm_target False f (out, v, d) t = Some (out', v', d')" and "is_dir d q"
  shows "is_dir d' q"
proof -
  have "is_dir (rm_disk False d p) q" for p
    using assms(2) is_dir_not_file [OF assms(2)]
    by (auto simp: rm_disk_def ignore_def fs_remove_file_def is_dir_def dlookup_def is_file_def
        split: option.splits if_splits)
  then show ?thesis
    using assms by (auto simp: rm_target_def Let_def split: if_splits option.splits prod.splits)
qed

theorem unmounted_commands_leave_disk_witness:
  "snd (snd (the (write_file (with_roots None None) demo_disk ''/mnt/y'' ''z'' False))) = demo_disk"
proof -
  obtain out v' d' where w: "write_file (with_roots None None) demo_disk ''/mnt/y'' ''z'' False = Some (out, v', d')"
    using write_cmd.cmd_returns by blast
  have "vfs_inv (with_roots None None)" "mount_root (with_roots None None) = None"
    by (simp_all add: vfs_inv_def with_roots_def disk_component_iff)
  then show ?thesis
    using unmounted_commands_leave_disk [of "with_roots None None" out v' d' demo_disk "''/mnt/y''" "''z''" False]
    by (simp add: w)
qed

lemma rm_targets_dirs:
  assumes "try_fold (rm_target False f) (out, v, d) ts = Some (out', v', d')" and "is_dir d q"
  shows "is_dir d' q"
proof -
  let ?R = "\<lambda>(o1 :: string, v1 :: VirtualFileSystem, d) (o2 :: string, v2 :: VirtualFileSystem, d'). is_dir d q \<longrightarrow> is_dir d' q"
  have "?R (out, v, d) (out', v', d')"
    by (rule try_fold_rel [where R = ?R, OF assms(1)]) (auto dest: rm_target_dirs)
  then show ?thesis using assms(2) by simp
qed

text \<open>
  \<^verbatim>\<open>rm\<close> without a flag that contains \<^verbatim>\<open>r\<close> or \<^verbatim>\<open>R\<close> removes no directory from the disk,
  whatever its operands are called.
\<close>

theorem rm_without_r_keeps_directories:
  assumes "\<forall>t \<in> set (split_whitespace args). is_flag t \<longrightarrow> CHR ''r'' \<notin> set t \<and> CHR ''R'' \<notin> set t"
    and "rm v d args = Some (out, v', d')" and "is_dir d q"
  shows "is_dir d' q"
proof -
  have "\<not> list_ex (\<lambda>t. is_flag t \<and> (contains_str ''r'' t \<or> contains_str ''R'' t)) (split_whitespace args)"
    using assms(1) by (auto simp: list_ex_iff)
  then show ?thesis
    using assms(2,3) by (auto simp: rm_def Let_def split: if_splits dest: rm_targets_dirs)
qed

lemma demo_split: "split_whitespace ''report /x'' = [''report'', ''/x'']"
  by (simp add: split_whitespace_def is_ws_def str_simps del: split_ws.simps(2))

theorem rm_without_r_keeps_directories_witness:
  "is_dir (snd (snd (the (rm demo_vfs demo_disk ''report /x'')))) [''mnt'', ''x'']"
proof -
  obtain out v' d' where r: "rm demo_vfs demo_disk ''report /x'' = Some (out, v', d')"
    using rm_cmd.cmd_returns by blast
  have "is_dir demo_disk [''mnt'', ''x'']" by (simp add: demo_disk_def is_dir_def dlookup_def)
  then show ?thesis
    using rm_without_r_keeps_directories [OF _ r] by (simp add: r demo_split is_flag_def)
qed

subsection \<open>Reading back\<close>

lemma ensure_parent_lookup:
  assumes wf: "disk_wf d" and base: "is_dir d base" and ne: "parts \<noteq> []"
    and anc: "\<And>q. strict_prefix q parts \<Longrightarrow> \<not> is_file d (base @ q)"
  shows "disk_wf (ensure_parent d (base @ parts))"
    and "is_dir (ensure_parent d (base @ parts)) (base @ butlast parts)"
    and "dlookup (ensure_parent d (base @ parts)) (base @ parts) = dlookup d (base @ parts)"
proof -
  let ?p = "base @ butlast parts"
  have "\<not> is_file d q" if q: "prefix q ?p" for q
  proof (cases "prefix base q")
    case True
    then obtain q' where q': "q = base @ q'" by (auto simp: prefix_def)
    with q have "prefix q' (butlast parts)" by simp
    then have "strict_prefix q' parts"
      using ne by (metis append_butlast_last_id not_Cons_self2 prefix_order.le_less_trans
          prefix_snocD prefix_order.refl)
    then show ?thesis using anc q' by blast
  next
    case False
    then have "prefix q base" using q prefix_same_cases [of q ?p base] by auto
    then have "is_dir d q"
      using base disk_wf_ancestor [OF wf, of q] is_dir_exists [OF base]
      by (cases "q = base") (auto simp: prefix_def)
    then show ?thesis by (rule is_dir_not_file)
  qed
  then obtain d1 where d1: "fs_create_dir_all d ?p = Some d1"
    using create_dir_all_iff [OF wf] by blast
  note spec = create_dir_all_lookup [OF wf d1]
  have e: "ensure_parent d (base @ parts) = d1"
    using ne d1 by (simp add: ensure_parent_def path_parent_below ignore_def)
  show "disk_wf (ensure_parent d (base @ parts))" using spec(1) e by simp
  show "is_dir (ensure_parent d (base @ parts)) ?p"
    using spec(2) [of ?p] \<open>\<And>q. prefix q ?p \<Longrightarrow> \<not> is_file d q\<close> [of ?p] e
    by (auto simp: is_dir_def is_file_def split: option.splits dentry.splits)
  have "\<not> prefix (base @ parts) ?p"
    using ne by (cases parts rule: rev_cases) (auto dest!: prefix_length_le)
  then show "dlookup (ensure_parent d (base @ parts)) (base @ parts) = dlookup d (base @ parts)"
    using spec(2) e by simp
qed

lemma write_then_cat_eq:
  assumes "vfs_inv v" and "mount_root v = Some base" and "disk_wf d" and "is_dir d base"
    and "resolve v t \<noteq> []" and "\<not> is_dir d (base @ resolve v t)"
    and anc: "\<And>q. strict_prefix q (resolve v t) \<Longrightarrow> \<not> is_file d (base @ q)"
    and "split_whitespace t = [t]" and "\<not> is_flag t" and "\<not> contains_str ''shadow'' t"
    and "valid_utf8 content" and w: "write_file v d t content False = Some (out, v', d')"
  shows "out = '''' \<and> cat v' d' t = terminal_text content"
proof -
  let ?u = "base @ resolve v t"
  let ?d1 = "ensure_parent d ?u"
  note par = ensure_parent_lookup [OF assms(3,4,5) anc]
  have up: "resolve_upper_path v (resolve v t) = Some ?u"
    using upper_path_clean [OF assms(1)] assms(2) by simp
  have d': "d' = ignore (fs_write content) ?d1 ?u" and out: "out = ''''"
    and v': "current_path v' = current_path v" "mount_root v' = mount_root v"
    using w assms(5) up by (auto simp: write_file_def Let_def)
  have "butlast ?u = base @ butlast (resolve v t)" using assms(5) by (simp add: butlast_append)
  then have "\<exists>m. fs_write content ?d1 ?u = Some (put ?u (DFile m content) ?d1)"
    using par(2,3) assms(6)
    by (auto simp: fs_write_def fs_open_with_def is_dir_def split: option.splits dentry.splits)
  then have look: "\<exists>m. dlookup d' ?u = Some (DFile m content)"
    using assms(5) by (auto simp: d' ignore_def dlookup_put)
  have "resolve v' t = resolve v t" using v' by (simp add: resolve_def Let_def)
  then have "resolve_upper_path v' (resolve v' t) = Some ?u"
    using up v' by (simp add: resolve_upper_path_def)
  then show ?thesis
    using look assms(8-11) out
    by (auto simp: cat_def cat_target_def layer_cat_def path_exists_def is_dir_def
        fs_read_to_string_def fs_read_def Let_def)
qed

text \<open>
  A file written through the shell reads back: after a successful-looking redirect to a
  path with no file among its ancestors and no directory at the end, \<^verbatim>\<open>cat\<close> of the same target
  shows exactly the written text as the terminal shows it.
\<close>

theorem write_then_cat:
  assumes "vfs_inv v" and "mount_root v = Some base" and "disk_wf d" and "is_dir d base"
    and "resolve v t \<noteq> []" and "\<not> is_dir d (base @ resolve v t)"
    and anc: "\<And>q. strict_prefix q (resolve v t) \<Longrightarrow> \<not> is_file d (base @ q)"
    and "split_whitespace t = [t]" and "\<not> is_flag t" and "\<not> contains_str ''shadow'' t"
    and "valid_utf8 content" and w: "write_file v d t content False = Some (out, v', d')"
  shows "out = '''' \<and> cat v' d' t = terminal_text content"
  using assms by (rule write_then_cat_eq)

lemma demo_resolve: "resolve demo_vfs ''/y'' = [''y'']" "split_whitespace ''/y'' = [''/y'']"
  by (simp_all add: resolve_def trim_def trim_start_def trim_end_def is_ws_def push_component_def Let_def
      split_whitespace_def str_simps del: split_on.simps(2) split_ws.simps(2))

theorem write_then_cat_witness:
  "let r = the (write_file demo_vfs demo_disk ''/y'' (''id'' @ nl @ ''ls'') False)
   in cat (fst (snd r)) (snd (snd r)) ''/y'' = ''id'' @ crlf @ ''ls'' @ crlf"
proof -
  have c: "valid_utf8 (''id'' @ nl @ ''ls'')"
    by (rule valid_utf8_ascii) (simp add: nl_def byte_of_def)
  have t: "terminal_text (''id'' @ nl @ ''ls'') = ''id'' @ crlf @ ''ls'' @ crlf"
    by (simp add: terminal_text_def to_crlf_def nl_def crlf_def starts_with_def ends_with_def)
  have nf: "\<not> is_file demo_disk ([''mnt''] @ q)" if "strict_prefix q [''y'']" for q
    using that demo_ok(2) is_dir_not_file by (cases q) (auto simp: strict_prefix_def)
  have nd: "\<not> is_dir demo_disk [''mnt'', ''y'']"
    by (simp add: demo_disk_def is_dir_def dlookup_def)
  obtain out v' d' where w: "write_file demo_vfs demo_disk ''/y'' (''id'' @ nl @ ''ls'') False = Some (out, v', d')"
    using write_cmd.cmd_returns by blast
  show ?thesis
    using write_then_cat [OF demo_ok(3,4,1,2), of "''/y''" "''id'' @ nl @ ''ls''" out v' d'] nf nd c t w
    by (simp add: demo_resolve Let_def is_flag_def starts_with_def)
qed

subsection \<open>The shadow file\<close>

lemma sublist_drop_ends: "sublist (trim s) s" "sublist (dropWhile P s) s"
proof -
  have dw: "sublist (dropWhile Q r) r" for Q and r :: string
    by (metis sublist_append_leftI sublist_order.order_refl takeWhile_dropWhile_id)
  show "sublist (dropWhile P s) s" by (rule dw)
  have "sublist (rev (dropWhile is_ws (rev (dropWhile is_ws s)))) (dropWhile is_ws s)"
    using dw [of is_ws "rev (dropWhile is_ws s)"] by (simp add: sublist_rev_left)
  then show "sublist (trim s) s"
    unfolding trim_def trim_start_def trim_end_def using dw sublist_order.order_trans by blast
qed

lemma sublist_split_on: "c \<in> set (split_on x s) \<Longrightarrow> sublist c s"
proof (induction s arbitrary: c)
  case (Cons y ys)
  obtain z zs where z: "split_on x ys = z # zs" by (cases "split_on x ys") auto
  have "prefix z ys" using z
  proof (induction ys arbitrary: z zs)
    case (Cons u us)
    then show ?case by (cases "split_on x us") (auto split: if_splits)
  qed auto
  then show ?case
    using Cons z by (auto simp: sublist_Cons_right split: if_splits)
qed simp

lemma push_components_mem:
  "c \<in> set (foldl push_component parts cs) \<Longrightarrow> c \<in> set parts \<or> c \<in> set cs"
proof (induction cs arbitrary: parts)
  case (Cons x cs)
  have "set (push_component parts x) \<subseteq> insert x (set parts)"
    by (auto simp: push_component_def dest: in_set_butlastD)
  then show ?case using Cons.IH [of "push_component parts x"] Cons.prems by auto
qed simp

lemma resolve_mem:
  assumes "c \<in> set (resolve v s)"
  shows "c \<in> set (current_path v) \<or> c = ''root'' \<or> sublist c s"
proof -
  have t: "sublist (trim s) s" by (rule sublist_drop_ends(1))
  have r: "sublist (trim_start_matches (CHR ''/'') (trim_start_matches (CHR ''~'') (trim s))) (trim s)"
    unfolding trim_start_matches_def using sublist_drop_ends(2) sublist_order.order_trans by blast
  show ?thesis
    using assms t r
    by (auto simp: resolve_def Let_def split: if_splits
        dest!: push_components_mem sublist_split_on intro: sublist_order.order_trans)
qed

text \<open>
  As long as the attacker has not entered a directory named after it, no spelling of a
  path (relative, with \<^verbatim>\<open>..\<close>, with \<^verbatim>\<open>~\<close>) makes \<^verbatim>\<open>cat\<close> show a file with a \<^verbatim>\<open>shadow\<close> component: the
  answer is always the permission error.
\<close>

theorem cat_never_shows_shadow:
  assumes "\<forall>c \<in> set (current_path v). \<not> contains_str ''shadow'' c"
    and "c \<in> set (resolve v t)" and "contains_str ''shadow'' c"
  shows "cat_target v d t = ''cat: '' @ t @ '': Permission denied'' @ crlf"
proof -
  have "c \<noteq> ''root''" using assms(3) by (auto simp: starts_with_def)
  then have "sublist c t" using resolve_mem [OF assms(2)] assms(1,3) by auto
  then have "contains_str ''shadow'' t"
    using assms(3) sublist_order.order_trans by (auto simp: contains_str_sublist)
  then show ?thesis by (simp add: cat_target_def)
qed

theorem cat_never_shows_shadow_witness:
  "cat_target (with_roots None None) demo_disk ''../etc/shadow'' =
     ''cat: ../etc/shadow: Permission denied'' @ crlf"
proof -
  have "''shadow'' \<in> set (resolve (with_roots None None) ''../etc/shadow'')"
    by (simp add: resolve_def trim_def trim_start_def trim_end_def is_ws_def push_component_def Let_def
        with_roots_def str_simps del: split_on.simps(2))
  then show ?thesis
    using cat_never_shows_shadow [of "with_roots None None" "''shadow''" "''../etc/shadow''" demo_disk]
    by (simp add: with_roots_def starts_with_def)
qed

subsection \<open>Listings\<close>



















end
