(* ===== verification/Shell.thy ===== *)
theory Shell
  imports Vfs
begin

text \<open>
  The fake shell (\<^verbatim>\<open>crates/aegis-gateway/src/shell.rs\<close>): a dispatcher that answers every command
  line with a text and runs nothing. Slicing a string panics on an inverted range and inside a character, and
  a file command panics where it takes the last component of an empty path, so the dispatcher's result is
  optional: \<^const>\<open>None\<close> is a panic. What \<^verbatim>\<open>chrono\<close> prints for the current time
  is an argument, the same for the whole of one command line.

  The fixed texts are what the compiler makes of the string constants: a backslash at the end of a
  line of a Rust literal also swallows the white space that starts the next line.
\<close>

section \<open>Fixed replies\<close>

definition UNAME :: string where
  "UNAME =
     ''Linux ubuntu-server-01 5.15.0-72-generic #79-Ubuntu SMP Wed Apr 19 08:22:18 UTC 2023 x86_64 x86_64 x86_64 GNU/Linux'' @ crlf"

definition PS_AUX :: string where
  "PS_AUX =
     ''USER       PID %CPU %MEM    VSZ   RSS TTY      STAT START   TIME COMMAND'' @ crlf
     @ ''root         1  0.0  0.1 165924  9080 ?        Ss   Aug26   0:03 /sbin/init'' @ crlf
     @ ''root       512  0.0  0.1  72296  5584 ?        Ss   Aug26   0:00 /lib/systemd/systemd-journald'' @ crlf
     @ ''root       783  0.0  0.0 104740  1736 ?        Ssl  Aug26   0:00 /usr/sbin/rsyslogd -n'' @ crlf
     @ ''root       849  0.0  0.0  72292  2092 ?        Ss   Aug26   0:00 /usr/sbin/cron -f'' @ crlf
     @ ''root      1200  0.0  0.1  71828  5912 ?        Ss   Aug26   0:00 /usr/sbin/sshd -D'' @ crlf
     @ ''root      1822  0.0  0.1 107700  7228 ?        Ss   18:12   0:00 sshd: root@pts/0'' @ crlf
     @ ''root      1824  0.0  0.0  21336  4488 pts/0    Ss   18:12   0:00 -bash'' @ crlf
     @ ''www-data  2100  0.0  0.5 190120 21032 ?        S    Aug26   0:12 nginx: worker process'' @ crlf
     @ ''root      2099  0.0  0.1  54876  4472 ?        Ss   Aug26   0:00 nginx: master process /usr/sbin/nginx -g daemon on; master_process on;'' @ crlf
     @ ''root      2901  0.0  0.3 1487420 13588 ?       Ssl  Aug26   0:15 dockerd --host=fd:// --containerd=/run/containerd/containerd.sock'' @ crlf
     @ ''root      3100  0.0  0.2 711100 10644 ?        Ssl  Aug26   0:02 /usr/bin/containerd'' @ crlf
     @ ''mysql     4122  0.1  3.2 1821196 132488 ?      Sl   Aug26   1:23 /usr/sbin/mysqld'' @ crlf"

definition NETSTAT :: string where
  "NETSTAT =
     ''Active Internet connections (w/o servers)'' @ crlf
     @ ''Proto Recv-Q Send-Q Local Address           Foreign Address         State'' @ crlf
     @ ''tcp        0      0 0.0.0.0:22              0.0.0.0:*               LISTEN'' @ crlf
     @ ''tcp        0      0 0.0.0.0:80              0.0.0.0:*               LISTEN'' @ crlf
     @ ''tcp        0      0 0.0.0.0:443             0.0.0.0:*               LISTEN'' @ crlf
     @ ''tcp        0      0 127.0.0.1:3306          0.0.0.0:*               LISTEN'' @ crlf
     @ ''tcp        0      0 0.0.0.0:8080            0.0.0.0:*               LISTEN'' @ crlf
     @ ''tcp6       0      0 :::22                   :::*                    LISTEN'' @ crlf
     @ ''tcp6       0      0 :::80                   :::*                    LISTEN'' @ crlf"

definition SS_OUT :: string where
  "SS_OUT =
     ''Netid    State    Recv-Q  Send-Q    Local Address:Port     Peer Address:Port  Process'' @ crlf
     @ ''tcp      LISTEN   0       128             0.0.0.0:22            0.0.0.0:*     users:(('' @ [dquote] @ ''sshd'' @ [dquote] @ '',pid=1200,fd=3))'' @ crlf
     @ ''tcp      LISTEN   0       511             0.0.0.0:80            0.0.0.0:*     users:(('' @ [dquote] @ ''nginx'' @ [dquote] @ '',pid=2099,fd=6))'' @ crlf
     @ ''tcp      LISTEN   0       511             0.0.0.0:443           0.0.0.0:*     users:(('' @ [dquote] @ ''nginx'' @ [dquote] @ '',pid=2099,fd=7))'' @ crlf
     @ ''tcp      LISTEN   0       128           127.0.0.1:3306          0.0.0.0:*     users:(('' @ [dquote] @ ''mysqld'' @ [dquote] @ '',pid=4122,fd=29))'' @ crlf"

definition IFCONFIG :: string where
  "IFCONFIG =
     ''eth0: flags=4163<UP,BROADCAST,RUNNING,MULTICAST>  mtu 1500'' @ crlf
     @ ''inet 192.0.2.15  netmask 255.255.255.0  broadcast 192.0.2.255'' @ crlf
     @ ''inet6 fe80::200:5eff:fe00:1  prefixlen 64  scopeid 0x20<link>'' @ crlf
     @ ''ether 02:00:5e:00:00:01  txqueuelen 1000  (Ethernet)'' @ crlf
     @ ''RX packets 184293 bytes 217234891 (207.2 MiB)'' @ crlf
     @ ''TX packets 40237 bytes 5827433 (5.5 MiB)'' @ crlf
     @ crlf
     @ ''lo: flags=73<UP,LOOPBACK,RUNNING>  mtu 65536'' @ crlf
     @ ''inet 127.0.0.1  netmask 255.0.0.0'' @ crlf
     @ ''inet6 ::1  prefixlen 128  scopeid 0x10<host>'' @ crlf
     @ ''loop  txqueuelen 1000  (Local Loopback)'' @ crlf"

definition IP_A :: string where
  "IP_A =
     ''1: lo: <LOOPBACK,UP,LOWER_UP> mtu 65536 qdisc noqueue state UNKNOWN group default qlen 1000'' @ crlf
     @ ''link/loopback 00:00:00:00:00:00 brd 00:00:00:00:00:00'' @ crlf
     @ ''inet 127.0.0.1/8 scope host lo'' @ crlf
     @ ''2: eth0: <BROADCAST,MULTICAST,UP,LOWER_UP> mtu 1500 qdisc mq state UP group default qlen 1000'' @ crlf
     @ ''link/ether 02:00:5e:00:00:01 brd ff:ff:ff:ff:ff:ff'' @ crlf
     @ ''inet 192.0.2.15/24 brd 192.0.2.255 scope global eth0'' @ crlf"

definition LSCPU :: string where
  "LSCPU =
     ''Architecture:                    x86_64'' @ crlf
     @ ''CPU op-mode(s):                  32-bit, 64-bit'' @ crlf
     @ ''Byte Order:                      Little Endian'' @ crlf
     @ ''Address sizes:                   46 bits physical, 48 bits virtual'' @ crlf
     @ ''CPU(s):                          4'' @ crlf
     @ ''On-line CPU(s) list:             0-3'' @ crlf
     @ ''Thread(s) per core:              1'' @ crlf
     @ ''Core(s) per socket:              4'' @ crlf
     @ ''Socket(s):                       1'' @ crlf
     @ ''Model name:                      Intel(R) Xeon(R) CPU E5-2676 v3 @ 2.40GHz'' @ crlf
     @ ''CPU MHz:                         2400.062'' @ crlf
     @ ''BogoMIPS:                        4800.12'' @ crlf
     @ ''L3 cache:                        30720K'' @ crlf
     @ ''NUMA node0 CPU(s):               0-3'' @ crlf"

definition CRONTAB_L :: string where
  "CRONTAB_L =
     ''# Edit this file to introduce tasks to be run by cron.'' @ crlf
     @ ''# m h  dom mon dow   command'' @ crlf
     @ ''0 2 * * *  /bin/bash /root/backup.sh >> /var/log/backup.log 2>&1'' @ crlf
     @ ''*/15 * * * *  curl -s http://monitoring.example.com/health > /dev/null'' @ crlf"

definition ENV_OUT :: string where
  "ENV_OUT =
     ''HOME=/root'' @ crlf
     @ ''SHELL=/bin/bash'' @ crlf
     @ ''USER=root'' @ crlf
     @ ''LOGNAME=root'' @ crlf
     @ ''PATH=/usr/local/sbin:/usr/local/bin:/usr/sbin:/usr/bin:/sbin:/bin'' @ crlf
     @ ''LANG=en_US.UTF-8'' @ crlf
     @ ''TERM=xterm-256color'' @ crlf
     @ ''SHLVL=1'' @ crlf
     @ ''_=/usr/bin/env'' @ crlf"

definition LAST :: string where
  "LAST =
     ''root     pts/0        192.0.2.100      Mon Aug 26 22:14   still logged in'' @ crlf
     @ ''root     pts/0        198.51.100.45    Mon Aug 26 03:12 - 03:14  (00:01)'' @ crlf
     @ ''root     pts/0        203.0.113.156    Sun Aug 25 19:44 - 19:47  (00:02)'' @ crlf
     @ ''ubuntu   pts/1        192.0.2.100      Sat Aug 24 15:30 - 17:22  (01:52)'' @ crlf
     @ crlf
     @ ''wtmp begins Wed Aug 01 00:00:00 2026'' @ crlf"

definition DF_H :: string where
  "DF_H =
     ''Filesystem      Size  Used Avail Use% Mounted on'' @ crlf
     @ ''/dev/sda1        50G   18G   30G  38% /'' @ crlf
     @ ''tmpfs           3.9G     0  3.9G   0% /dev/shm'' @ crlf
     @ ''/dev/sda15      105M  5.3M  100M   6% /boot/efi'' @ crlf"

definition FREE_H :: string where
  "FREE_H =
     ''total        used        free      shared  buff/cache   available'' @ crlf
     @ ''Mem:           7.8Gi       2.1Gi       3.0Gi        74Mi       2.7Gi       5.4Gi'' @ crlf
     @ ''Swap:          2.0Gi          0B       2.0Gi'' @ crlf"

definition UPTIME :: string where
  "UPTIME =
     '' 18:25:01 up 15 days,  6:12,  1 user,  load average: 0.12, 0.08, 0.03'' @ crlf"

definition W_OUT :: string where
  "W_OUT =
     ''18:25:01 up 15 days,  6:12,  1 user,  load average: 0.12, 0.08, 0.03'' @ crlf
     @ ''USER     TTY      FROM             LOGIN@   IDLE JCPU   PCPU WHAT'' @ crlf
     @ ''root     pts/0    192.0.2.100     18:12    0.00s  0.06s  0.01s -bash'' @ crlf"

section \<open>Parsing a command line\<close>

text \<open>
  The two slices around a redirection operator; the outer \<^const>\<open>None\<close> of \<open>parse_redirect\<close> is a panic, the
  inner one a line without redirection.
\<close>

definition slice_around :: "string \<Rightarrow> nat \<Rightarrow> string \<Rightarrow> (string \<times> string \<times> string) option" where
  "slice_around cmd pos redir =
     (case str_slice cmd 0 pos of
        None \<Rightarrow> None
      | Some cmd_part \<Rightarrow>
          map_option (\<lambda>file_part. (cmd_part, redir, file_part))
            (str_slice cmd (pos + length redir) (length cmd)))"

definition parse_redirect :: "string \<Rightarrow> (string \<times> string \<times> string) option option" where
  "parse_redirect cmd =
     (case find_str ''>>'' cmd of
        Some pos \<Rightarrow> map_option Some (slice_around cmd pos ''>>'')
      | None \<Rightarrow>
          (case rfind_char (CHR ''>'') cmd of
             Some pos \<Rightarrow>
               if pos + 1 < length cmd \<and> cmd ! (pos + 1) = CHR ''='' then Some None
               else map_option Some (slice_around cmd pos ''>'')
           | None \<Rightarrow> Some None))"

text \<open>The loop that strips leading \<^verbatim>\<open>sudo\<close>s.\<close>

function strip_sudo :: "string \<Rightarrow> string" where
  "strip_sudo cmd =
     (case strip_prefix ''sudo'' cmd of
        Some rest \<Rightarrow>
          if rest = '''' then strip_sudo ''''
          else if starts_with '' '' rest then strip_sudo (trim_start rest)
          else cmd
      | None \<Rightarrow> cmd)"
  by pat_completeness auto
termination
proof (relation "measure length")
  fix cmd rest
  assume s: "strip_prefix ''sudo'' cmd = Some rest"
  then have len: "length cmd = 4 + length rest" by (simp add: strip_prefix_Some)
  show "('''', cmd) \<in> measure length" using len by simp
  show "(trim_start rest, cmd) \<in> measure length"
    using len length_trim_start [of rest] by simp
qed simp

declare strip_sudo.simps [simp del]

text \<open>\<^verbatim>\<open>splitn(2, ' ')\<close>: the program and the rest of the line.\<close>

definition prog_of :: "string \<Rightarrow> string" where
  "prog_of cmd = takeWhile (\<lambda>c. c \<noteq> CHR '' '') cmd"

definition args_of :: "string \<Rightarrow> string" where
  "args_of cmd = drop (Suc (length (prog_of cmd))) cmd"

section \<open>Replies\<close>

definition echo_text :: "string \<Rightarrow> string option" where
  "echo_text args =
     (let s = trim args
      in if 2 \<le> length s \<and>
            (starts_with [dquote] s \<and> ends_with [dquote] s \<or>
             starts_with [squote] s \<and> ends_with [squote] s)
         then str_slice s 1 (length s - 1)
         else Some s)"

definition first_word :: "string \<Rightarrow> string \<Rightarrow> string" where
  "first_word dflt s = (case split_whitespace s of [] \<Rightarrow> dflt | w # _ \<Rightarrow> w)"

definition last_word :: "string \<Rightarrow> string" where
  "last_word s = (let ws = split_whitespace s in if ws = [] then '''' else last ws)"

definition known_programs :: "string list" where
  "known_programs =
     [''bash'', ''sh'', ''python'', ''python3'', ''perl'', ''curl'', ''wget'', ''tar'', ''gzip'',
      ''ls'', ''cat'', ''rm'', ''mv'', ''cp'', ''mkdir'', ''touch'', ''find'', ''grep'', ''awk'',
      ''sed'', ''chmod'', ''chown'', ''systemctl'', ''apt'', ''apt-get'']"

definition history_entries :: "string list" where
  "history_entries =
     [''apt-get update'', ''systemctl status nginx'', ''docker ps'', ''cat /etc/hosts'',
      ''ufw status'', ''ls -la /root'']"

definition history_reply :: string where
  "history_reply =
     concat (map (\<lambda>(i, e). ''  '' @ pad_right 4 (show_nat (i + 1)) @ e @ crlf)
       (zip [0..<length history_entries] history_entries))"

definition uname_reply :: "string \<Rightarrow> string" where
  "uname_reply args =
     (if contains_str ''a'' args then UNAME
      else if contains_str ''r'' args then ''5.15.0-72-generic'' @ crlf
      else ''Linux'' @ crlf)"

definition python_reply :: "string \<Rightarrow> string" where
  "python_reply args =
     (if args = ''''
      then ''Python 3.10.6 (main, Nov 14 2022, 16:10:14) [GCC 11.3.0] on linux'' @ crlf
           @ ''Type '' @ [dquote] @ ''help'' @ [dquote] @ '', '' @ [dquote] @ ''copyright'' @ [dquote]
           @ '', '' @ [dquote] @ ''credits'' @ [dquote] @ '' or '' @ [dquote] @ ''license'' @ [dquote]
           @ '' for more information.'' @ crlf @ ''>>> ''
      else '''')"

definition which_reply :: "string \<Rightarrow> string" where
  "which_reply args =
     (let prog_name = first_word '''' (trim args)
      in if prog_name \<in> set known_programs then ''/usr/bin/'' @ prog_name @ crlf else '''')"

text \<open>The bullet \<^verbatim>\<open>U+25CF\<close> in UTF-8.\<close>

definition bullet :: string where
  "bullet = [CHR 0xE2, CHR 0x97, CHR 0x8F]"

definition systemctl_reply :: "string \<Rightarrow> string" where
  "systemctl_reply args =
     (case strip_prefix ''status'' args of
        Some rest \<Rightarrow>
          (let svc = trim rest
           in bullet @ '' '' @ svc @ ''.service - '' @ svc @ crlf @ ''   Loaded: loaded'' @ crlf
              @ ''   Active: active (running)'' @ crlf)
      | None \<Rightarrow> '''')"

definition find_reply :: "string \<Rightarrow> string" where
  "find_reply args =
     (if contains_str ''-name'' args \<and> contains_str ''*.sh'' args
      then ''/root/backup.sh'' @ crlf @ ''/etc/cron.daily/apt-compat'' @ crlf else '''')"

definition ping_reply :: "string \<Rightarrow> string" where
  "ping_reply args =
     (let host = first_word ''host'' args
      in ''PING '' @ host @ '' (192.0.2.1) 56(84) bytes of data.'' @ crlf
         @ ''64 bytes from '' @ host @ '': icmp_seq=1 ttl=51 time=11.3 ms'' @ crlf @ ''^C'' @ crlf)"

definition curl_reply :: "string \<Rightarrow> string" where
  "curl_reply args =
     (if trim args = ''''
      then ''curl: try '' @ [squote] @ ''curl --help'' @ [squote] @ '' for more information'' @ crlf
      else if contains_str ''--help'' args \<or> contains_str ''-h'' args
      then ''Usage: curl [options...] <url>'' @ crlf @ ''Use '' @ [squote] @ ''curl --help category''
           @ [squote] @ '' to get an overview of all categories.'' @ crlf
      else ''curl: (6) Could not resolve host'' @ crlf)"

definition wc_reply :: "VirtualFileSystem \<Rightarrow> disk \<Rightarrow> string \<Rightarrow> string" where
  "wc_reply v d args =
     (let target = last_word args;
          content = cat v d target
      in '' '' @ pad_left 7 (show_nat (length (str_lines content)))
         @ '' '' @ pad_left 7 (show_nat (length (split_whitespace content)))
         @ '' '' @ pad_left 7 (show_nat (length content)) @ '' '' @ target @ crlf)"

definition apt_reply :: string where
  "apt_reply =
     ''Reading package lists... Done'' @ crlf @ ''Building dependency tree... Done'' @ crlf
     @ ''Reading state information... Done'' @ crlf"

definition ssh_reply :: string where
  "ssh_reply = ''ssh: connect to host localhost port 22: Connection refused'' @ crlf"

definition nc_reply :: string where
  "nc_reply =
     ''nc: getaddrinfo for host '' @ [dquote] @ [dquote]
     @ '' port 0: Servname not supported for ai_socktype'' @ crlf"

definition quiet_programs :: "string list" where
  "quiet_programs =
     [''chmod'', ''chown'', ''chattr'', ''lsattr'', ''service'', ''grep'', ''tar'', ''gzip'', ''gunzip'',
      ''unzip'', ''zip'', ''exit'', ''logout'', ''xxd'', ''cut'', ''sort'', ''uniq'', ''awk'', ''sed'', ''tr'',
      ''tee'', ''xargs'', ''useradd'', ''userdel'', ''usermod'', ''groupadd'', ''su'', ''lsof'', ''strace'',
      ''kill'', ''killall'', ''pkill'', ''mount'', ''umount'']"

definition static_replies :: "string \<Rightarrow> string \<Rightarrow> (string \<times> string) list" where
  "static_replies date args =
     [(''whoami'', ''root'' @ crlf),
      (''id'', ''uid=0(root) gid=0(root) groups=0(root)'' @ crlf),
      (''hostname'', ''ubuntu-server-01'' @ crlf),
      (''uname'', uname_reply args),
      (''ps'', PS_AUX), (''netstat'', NETSTAT), (''ss'', SS_OUT), (''ifconfig'', IFCONFIG),
      (''ip'', IP_A), (''lscpu'', LSCPU), (''env'', ENV_OUT), (''printenv'', ENV_OUT),
      (''crontab'', if contains_str ''l'' args then CRONTAB_L else ''''),
      (''last'', LAST), (''w'', W_OUT),
      (''who'', ''root     pts/0        2026-08-26 22:14 (192.0.2.100)'' @ crlf),
      (''uptime'', UPTIME), (''df'', DF_H), (''free'', FREE_H),
      (''history'', history_reply),
      (''clear'', [esc] @ ''[2J'' @ [esc] @ ''[H''),
      (''python'', python_reply args), (''python3'', python_reply args),
      (''which'', which_reply args), (''systemctl'', systemctl_reply args),
      (''apt'', apt_reply), (''apt-get'', apt_reply), (''find'', find_reply args),
      (''scp'', ssh_reply), (''ssh'', ssh_reply), (''sftp'', ssh_reply),
      (''ping'', ping_reply args),
      (''nmap'', ''Starting Nmap 7.80 ( https://nmap.org )'' @ crlf
                 @ ''nmap: You requested a scan type which requires root privileges.'' @ crlf),
      (''base64'', ''SGVsbG8gV29ybGQK'' @ crlf),
      (''date'', date @ crlf),
      (''nc'', nc_reply), (''netcat'', nc_reply), (''ncat'', nc_reply),
      (''curl'', curl_reply args),
      (''passwd'', ''Changing password for root.'' @ crlf @ ''New password: ''),
      (''dmesg'', ''[    0.000000] Initializing cgroup subsys cpuset'' @ crlf
                  @ ''[    0.000000] Linux version 5.15.0-72-generic'' @ crlf),
      (''journalctl'', ''-- No entries --'' @ crlf)]
     @ map (\<lambda>p. (p, '''')) quiet_programs"

definition unknown_reply :: "string \<Rightarrow> string \<Rightarrow> string" where
  "unknown_reply cmd prog =
     (if starts_with ''./'' cmd \<or> starts_with ''/'' cmd
      then ''bash: '' @ first_word cmd cmd @ '': Permission denied'' @ crlf
      else ''bash: '' @ prog @ '': command not found'' @ crlf)"

section \<open>Dispatch\<close>

definition run_prog ::
  "string \<Rightarrow> VirtualFileSystem \<Rightarrow> disk \<Rightarrow> string \<Rightarrow> string \<Rightarrow> string \<Rightarrow> fs_state option" where
  "run_prog date v d cmd prog args =
     (if prog = ''pwd'' then Some (pwd v, v, d)
      else if prog = ''cd'' then (case cd v d args of (r, v') \<Rightarrow> Some (r, v', d))
      else if prog = ''ls'' then map_option (\<lambda>s. (s, v, d)) (ls v d args)
      else if prog = ''cat'' then Some (cat v d args, v, d)
      else if prog = ''mkdir'' then mkdir v d args
      else if prog = ''touch'' then touch v d args
      else if prog = ''rm'' then rm v d args
      else if prog = ''echo'' then map_option (\<lambda>s. (s @ crlf, v, d)) (echo_text args)
      else if prog = ''head'' \<or> prog = ''tail'' then Some (cat v d (last_word args), v, d)
      else if prog = ''wc'' then Some (wc_reply v d args, v, d)
      else Some (case map_of (static_replies date args) prog of
                   Some reply \<Rightarrow> reply
                 | None \<Rightarrow> unknown_reply cmd prog, v, d))"

definition dispatch_pure ::
  "string \<Rightarrow> VirtualFileSystem \<Rightarrow> disk \<Rightarrow> string \<Rightarrow> fs_state option" where
  "dispatch_pure date v d cmd0 =
     (let cmd = strip_sudo cmd0
      in if cmd = '''' then Some ('''', v, d)
         else run_prog date v d cmd (prog_of cmd) (args_of cmd))"

text \<open>Running one more command after what has been printed so far; a panic stays a panic.\<close>

definition then_run :: "(VirtualFileSystem \<Rightarrow> disk \<Rightarrow> fs_state option) \<Rightarrow> fs_state option \<Rightarrow> fs_state option" where
  "then_run f acc =
     (case acc of
        None \<Rightarrow> None
      | Some (out, v, d) \<Rightarrow>
          (case f v d of None \<Rightarrow> None | Some (out', v', d') \<Rightarrow> Some (out @ out', v', d')))"

lemma then_run_cong [fundef_cong]:
  "acc = acc' \<Longrightarrow> (\<And>v d. f v d = g v d) \<Longrightarrow> then_run f acc = then_run g acc'"
  by (auto simp: then_run_def split: option.splits)

function dispatch ::
  "string \<Rightarrow> VirtualFileSystem \<Rightarrow> disk \<Rightarrow> string \<Rightarrow> fs_state option" where
  "dispatch date v d cmd0 =
     (let cmd = trim cmd0
      in case parse_redirect cmd of
           None \<Rightarrow> None
         | Some (Some (cmd_part, redir, file_part)) \<Rightarrow>
             (case dispatch_pure date v d (trim cmd_part) of
                None \<Rightarrow> None
              | Some (out, v1, d1) \<Rightarrow>
                  (case write_file v1 d1 (trim file_part) (replace_str crlf nl out) (redir = ''>>'') of
                     None \<Rightarrow> None
                   | Some (_, v2, d2) \<Rightarrow> Some ('''', v2, d2)))
         | Some None \<Rightarrow>
             if CHR '';'' \<in> set cmd
             then foldl (\<lambda>acc c. then_run (\<lambda>v d. dispatch date v d (trim c)) acc)
                    (Some ('''', v, d)) (split_on (CHR '';'') cmd)
             else dispatch_pure date v d cmd)"
  by pat_completeness auto
termination
proof (relation "measure (\<lambda>(date, v, d, cmd). length cmd)")
  fix date :: string and v v' :: VirtualFileSystem and d d' :: disk and cmd0 cmd c
  assume "cmd = trim cmd0" and "CHR '';'' \<in> set cmd" and "c \<in> set (split_on (CHR '';'') cmd)"
  then have "length (trim c) < length cmd0"
    using length_split_on_less [of "CHR '';''" cmd c] length_trim [of c] length_trim [of cmd0]
    by auto
  then show "((date, v', d', trim c), date, v, d, cmd0) \<in> measure (\<lambda>(date, v, d, cmd). length cmd)"
    by simp
qed simp

declare dispatch.simps [simp del]

section \<open>No command line panics\<close>

lemma str_slice_quoted:
  assumes "valid_utf8 s" and "2 \<le> length s" and "hd s = q" and "last s = q" and "byte_of q < 0x80"
  shows "str_slice s 1 (length s - 1) \<noteq> None"
proof -
  obtain r where s: "s = q # r @ [q]"
    using assms(2-4) by (cases s; cases "tl s" rule: rev_cases) auto
  have "\<not> is_cont (hd (r @ [q]))" using after_ascii [OF assms(5), of "[]" "r @ [q]"] assms(1) s by simp
  moreover have "\<not> is_cont q" using assms(5) by (simp add: is_cont_def)
  ultimately show ?thesis
    by (cases r) (simp_all add: s str_slice_def is_char_boundary_def nth_append)
qed

lemma echo_text_total: "valid_utf8 args \<Longrightarrow> echo_text args \<noteq> None"
  using str_slice_quoted [of "trim args" dquote] str_slice_quoted [of "trim args" squote] trim_text(1) [of args]
  by (auto simp: echo_text_def Let_def byte_of_def)

lemma if_not_None: "x \<noteq> None \<Longrightarrow> y \<noteq> None \<Longrightarrow> (if b then x else y) \<noteq> None"
  by simp

lemma map_option_not_None: "x \<noteq> None \<Longrightarrow> map_option f x \<noteq> None"
  by simp

lemma run_prog_total:
  assumes "valid_utf8 args"
  shows "run_prog date v d cmd prog args \<noteq> None"
  unfolding run_prog_def split_beta
  by (intro if_not_None map_option_not_None echo_text_total [OF assms] ls_total [OF assms]
      mkdir_total touch_total rm_total) simp_all

lemma strip_sudo_text: "valid_utf8 cmd \<Longrightarrow> valid_utf8 (strip_sudo cmd)"
proof (induction cmd rule: strip_sudo.induct)
  case (1 cmd)
  show ?case
  proof (cases "strip_prefix ''sudo'' cmd")
    case None
    then show ?thesis using 1(3) by (subst strip_sudo.simps) simp
  next
    case (Some rest)
    then have "valid_utf8 rest"
      using 1(3) valid_utf8_cut(2) [of "CHR ''o''" "''sud''" rest] by (simp add: strip_prefix_Some byte_of_def)
    then show ?thesis
      using Some 1 by (subst strip_sudo.simps) (simp add: trim_text)
  qed
qed

lemma args_of_text:
  assumes "valid_utf8 cmd"
  shows "valid_utf8 (args_of cmd)"
proof (cases "CHR '' '' \<in> set cmd")
  case True
  then obtain a b where c: "cmd = a @ CHR '' '' # b" "CHR '' '' \<notin> set a" using split_list_first by fast
  then have "prog_of cmd = a" by (auto simp: prog_of_def takeWhile_tail)
  then show ?thesis using c assms valid_utf8_cut(2) [of "CHR '' ''" a b] by (simp add: args_of_def byte_of_def)
next
  case False
  then have "prog_of cmd = cmd" by (auto simp: prog_of_def takeWhile_eq_all_conv)
  then show ?thesis by (simp add: args_of_def)
qed

lemma dispatch_pure_total: "valid_utf8 cmd \<Longrightarrow> dispatch_pure date v d cmd \<noteq> None"
  using run_prog_total [OF args_of_text [OF strip_sudo_text]] by (simp add: dispatch_pure_def Let_def del: not_None_eq)

text \<open>A text is cut at a redirection operator without a panic, and both parts are text.\<close>

lemma slice_around_eq:
  assumes "b = [] \<or> \<not> is_cont (hd b)" and "redir \<noteq> []" and "\<not> is_cont (hd redir)"
  shows "slice_around (a @ redir @ b) (length a) redir = Some (a, redir, b)"
  using str_slice_to [of "redir @ b" a] str_slice_from [OF assms(1), of "a @ redir"] assms(2,3)
  by (simp add: slice_around_def)

lemma slice_around_text:
  assumes "valid_utf8 (a @ x # b)" and "byte_of x < 0x80"
  shows "slice_around (a @ x # b) (length a) [x] = Some (a, [x], b)" and "valid_utf8 a" and "valid_utf8 b"
  using slice_around_eq [of b "[x]" a] after_ascii [OF assms(2,1)] valid_utf8_cut [OF assms(2,1)] assms(2)
  by (simp_all add: is_cont_def)

lemma find_str_Some: "find_str p s = Some n \<Longrightarrow> \<exists>a b. s = a @ p @ b \<and> length a = n"
proof (induction s arbitrary: n)
  case Nil
  then show ?case by (auto split: if_splits)
next
  case (Cons x xs)
  show ?case
  proof (cases "starts_with p (x # xs)")
    case True
    then show ?thesis using Cons.prems by (auto simp: starts_with_prefix prefix_def)
  next
    case False
    then obtain m where m: "find_str p xs = Some m" "n = Suc m" using Cons.prems by auto
    then obtain a b where "xs = a @ p @ b" "length a = m" using Cons.IH by blast
    then have "x # xs = (x # a) @ p @ b \<and> length (x # a) = n" using m by simp
    then show ?thesis by blast
  qed
qed

lemma parse_redirect_text:
  assumes "valid_utf8 cmd"
  shows "parse_redirect cmd = Some None \<or>
    (\<exists>c redir f. parse_redirect cmd = Some (Some (c, redir, f)) \<and> valid_utf8 c \<and> valid_utf8 f)"
proof (cases "find_str ''>>'' cmd")
  case (Some pos)
  then obtain a b where c: "cmd = a @ ''>>'' @ b" "length a = pos" using find_str_Some by blast
  have "valid_utf8 (a @ ''>'')" "valid_utf8 b"
    using valid_utf8_cut [of "CHR ''>''" "a @ ''>''" b] assms c by (simp_all add: byte_of_def)
  moreover from this have "valid_utf8 a" "b = [] \<or> \<not> is_cont (hd b)"
    using valid_utf8_cut(1) [of "CHR ''>''" a "[]"] valid_utf8_head [of b] by (simp_all add: byte_of_def)
  ultimately show ?thesis
    using slice_around_eq [of b "''>>''" a] c Some by (simp add: parse_redirect_def is_cont_def byte_of_def)
next
  case None
  show ?thesis
  proof (cases "rfind_char (CHR ''>'') cmd")
    case (Some pos)
    then obtain a b where "cmd = a @ CHR ''>'' # b" "length a = pos" using rfind_char_Some by blast
    then show ?thesis
      using slice_around_text [of a "CHR ''>''" b] assms None Some by (simp add: parse_redirect_def byte_of_def)
  qed (simp add: parse_redirect_def None)
qed

lemma fold_then_run_total:
  assumes "\<And>c v d. c \<in> set cs \<Longrightarrow> f c v d \<noteq> None"
  shows "foldl (\<lambda>acc c. then_run (f c) acc) (Some (out, v, d)) cs \<noteq> None"
  using assms
proof (induction cs arbitrary: out v d)
  case (Cons c cs)
  then obtain o1 v1 d1 where "f c v d = Some (o1, v1, d1)" by (metis list.set_intros(1) option.exhaust prod_cases3)
  then show ?case using Cons.IH [of "out @ o1" v1 d1] Cons.prems by (simp add: then_run_def)
qed simp

lemma dispatch_total: "valid_utf8 cmd \<Longrightarrow> dispatch date v d cmd \<noteq> None"
proof (induction date v d cmd rule: dispatch.induct)
  case (1 date v d cmd0)
  let ?cmd = "trim cmd0"
  have cmd: "valid_utf8 ?cmd" using 1(2) by (rule trim_text)
  consider c redir f where "parse_redirect ?cmd = Some (Some (c, redir, f))" "valid_utf8 c"
    | "parse_redirect ?cmd = Some None" "CHR '';'' \<in> set ?cmd"
    | "parse_redirect ?cmd = Some None" "CHR '';'' \<notin> set ?cmd"
    using parse_redirect_text [OF cmd] by blast
  then show ?case
  proof cases
    case 1
    obtain out v1 d1 where p: "dispatch_pure date v d (trim c) = Some (out, v1, d1)"
      using dispatch_pure_total [OF trim_text(1) [OF 1(2)], of date v d] by auto
    obtain o2 v2 d2 where "write_file v1 d1 (trim f) (replace_str crlf nl out) (redir = ''>>'') = Some (o2, v2, d2)"
      using write_cmd.cmd_returns by blast
    then show ?thesis by (subst dispatch.simps) (simp add: 1 p)
  next
    case 2
    have "valid_utf8 (trim c)" if "c \<in> set (split_on (CHR '';'') ?cmd)" for c
      using split_on_text [OF _ cmd, of "CHR '';''"] that by (simp add: list_all_iff byte_of_def trim_text)
    then have "foldl (\<lambda>acc c. then_run (\<lambda>v d. dispatch date v d (trim c)) acc)
        (Some ('''', v, d)) (split_on (CHR '';'') ?cmd) \<noteq> None"
      by (intro fold_then_run_total) (rule "1.IH" [OF refl 2(1) refl 2(2)])
    then show ?thesis by (subst dispatch.simps) (simp add: 2)
  next
    case 3
    then show ?thesis using dispatch_pure_total [OF cmd] by (subst dispatch.simps) simp
  qed
qed

section \<open>Every command is confined\<close>

lemma run_prog_confined:
  assumes "run_prog date v d cmd prog args = Some (out, v', d')"
  shows "session_confined v d v' d'"
proof -
  have cd: "session_confined v d v'' d" if "cd v d args = (r, v'')" for r v''
    using cd_confined [of v d args] that by simp
  show ?thesis
    using assms mkdir_cmd.cmd_confined [of v d args out v' d'] touch_cmd.cmd_confined [of v d args out v' d']
      rm_cmd.cmd_confined [of v d args out v' d'] cd
    unfolding run_prog_def by (simp split: if_splits prod.splits) auto
qed

lemma dispatch_pure_confined:
  "dispatch_pure date v d cmd = Some (out, v', d') \<Longrightarrow> session_confined v d v' d'"
  by (auto simp: dispatch_pure_def Let_def split: if_splits dest: run_prog_confined)

lemma then_run_None [simp]: "then_run f None = None"
  by (simp add: then_run_def)

lemma fold_then_run_None [simp]: "foldl (\<lambda>acc c. then_run (f c) acc) None cs = None"
  by (induction cs) simp_all

lemma fold_then_run_confined:
  assumes "\<And>c v d out v' d'. c \<in> set cs \<Longrightarrow> f c v d = Some (out, v', d') \<Longrightarrow> session_confined v d v' d'"
    and "foldl (\<lambda>acc c. then_run (f c) acc) (Some (out, v, d)) cs = Some (out', v', d')"
  shows "session_confined v d v' d'"
  using assms
proof (induction cs arbitrary: out v d)
  case (Cons c cs)
  have "f c v d \<noteq> None"
  proof
    assume "f c v d = None"
    then have "then_run (f c) (Some (out, v, d)) = None" by (simp add: then_run_def)
    then show False using Cons.prems(2) by simp
  qed
  then obtain o1 v1 d1 where 1: "f c v d = Some (o1, v1, d1)" by auto
  then have "foldl (\<lambda>acc c. then_run (f c) acc) (Some (out @ o1, v1, d1)) cs = Some (out', v', d')"
    using Cons.prems(2) by (simp add: then_run_def)
  then have "session_confined v1 d1 v' d'" by (rule Cons.IH [rotated]) (rule Cons.prems(1), auto)
  moreover have "session_confined v d v1 d1" using Cons.prems(1) [OF _ 1] by simp
  ultimately show ?case using session_confined_trans by blast
qed simp

lemma dispatch_keeps_confined:
  "dispatch date v d cmd = Some (out, v', d') \<Longrightarrow> session_confined v d v' d'"
proof (induction date v d cmd arbitrary: out v' d' rule: dispatch.induct)
  case (1 date v d cmd0)
  let ?cmd = "trim cmd0"
  have "parse_redirect ?cmd \<noteq> None"
  proof
    assume "parse_redirect ?cmd = None"
    then have "dispatch date v d cmd0 = None" by (subst dispatch.simps) simp
    then show False using 1(2) by simp
  qed
  then consider c redir f where "parse_redirect ?cmd = Some (Some (c, redir, f))"
    | "parse_redirect ?cmd = Some None" "CHR '';'' \<in> set ?cmd"
    | "parse_redirect ?cmd = Some None" "CHR '';'' \<notin> set ?cmd"
    by fastforce
  then show ?case
  proof cases
    case r: 1
    then show ?thesis
      using 1(2) by (subst (asm) dispatch.simps)
        (auto split: option.splits dest!: dispatch_pure_confined write_cmd.cmd_confined intro: session_confined_trans)
  next
    case 2
    then have "foldl (\<lambda>acc c. then_run (\<lambda>v d. dispatch date v d (trim c)) acc)
        (Some ('''', v, d)) (split_on (CHR '';'') ?cmd) = Some (out, v', d')"
      using 1(2) by (subst (asm) dispatch.simps) simp
    then show ?thesis by (rule fold_then_run_confined [rotated]) (rule "1.IH" [OF refl 2(1) refl 2(2)])
  next
    case 3
    then show ?thesis using 1(2) by (subst (asm) dispatch.simps) (auto dest: dispatch_pure_confined)
  qed
qed

section \<open>Properties\<close>

text \<open>
  Claim C17: the dispatcher answers every command line that is text: whatever quotes, redirections,
  separators, flags, paths or \<^verbatim>\<open>sudo\<close>s it contains and whatever the session's files are, no slice is inverted
  or cuts a character (the quotes of \<^verbatim>\<open>echo\<close>, the two sides of a redirection, the flags of \<^verbatim>\<open>ls\<close>), no file
  command takes the last component of an empty path, and the recursion over separators ends.
\<close>

theorem dispatch_never_panics:
  assumes "valid_utf8 cmd"
  shows "\<exists>out v' d'. dispatch date v d cmd = Some (out, v', d')"
  using dispatch_total [OF assms, of date v d] by auto

theorem dispatch_never_panics_witness:
  "\<exists>out v' d'. dispatch ''now'' demo_vfs demo_disk
     (''mkdir /..; rm -r /; touch ~/../..; ls -l -; echo '' @ [dquote] @ '' >>/'') = Some (out, v', d')"
  by (rule dispatch_never_panics, rule valid_utf8_ascii) (simp add: byte_of_def)

text \<open>
  Claim C10: no command line, however composed, changes anything on the disk outside the session's
  mount root, removes the mount root, moves the session's roots or leaves a working directory that
  could escape them.
\<close>

theorem dispatch_confined:
  assumes "vfs_inv v" and "mount_root v = Some base" and "disk_wf d" and "is_dir d base"
    and "dispatch date v d cmd = Some (out, v', d')"
  shows "disk_wf d' \<and> is_dir d' base \<and> (\<forall>q. \<not> strict_prefix base q \<longrightarrow> dlookup d' q = dlookup d q) \<and>
    vfs_inv v' \<and> mount_root v' = Some base \<and> lower_root v' = lower_root v"
  using dispatch_keeps_confined [OF assms(5)] assms(1-4) confined_is_dir [of base d d']
  by (simp add: session_confined_def confined_def)

theorem dispatch_confined_witness:
  "\<exists>out v' d'. dispatch ''now'' demo_vfs demo_disk ''cd ..; rm -rf /../log ~; echo x > ../../log'' = Some (out, v', d') \<and>
     dlookup d' [''log''] = Some (DFile 384 ''evidence'')"
proof -
  have "valid_utf8 ''cd ..; rm -rf /../log ~; echo x > ../../log''" by (rule valid_utf8_ascii) (simp add: byte_of_def)
  then obtain out v' d' where r:
    "dispatch ''now'' demo_vfs demo_disk ''cd ..; rm -rf /../log ~; echo x > ../../log'' = Some (out, v', d')"
    using dispatch_total [of "''cd ..; rm -rf /../log ~; echo x > ../../log''"] by fastforce
  have "dlookup d' [''log''] = dlookup demo_disk [''log'']"
    using dispatch_confined [OF demo_ok(3,4,1,2) r] by (simp add: strict_prefix_def)
  moreover have "dlookup demo_disk [''log''] = Some (DFile 384 ''evidence'')"
    by (simp add: demo_disk_def dlookup_def)
  ultimately show ?thesis using r by simp
qed

subsection \<open>Stacked sudo\<close>

lemma strip_sudo_space:
  assumes "c = [] \<or> \<not> is_ws (hd c)"
  shows "strip_sudo (''sudo '' @ c) = strip_sudo c"
proof -
  have "trim_start ('' '' @ c) = c"
    using assms by (cases c) (auto simp: trim_start_def is_ws_def)
  moreover have "strip_prefix ''sudo'' (''sudo '' @ c) = Some ('' '' @ c)"
    by (simp add: strip_prefix_Some)
  ultimately show ?thesis
    by (subst strip_sudo.simps) simp
qed

text \<open>
  Any number of leading \<^verbatim>\<open>sudo\<close>s is transparent: the command runs as if they were not
  there, in a loop that always ends.
\<close>

theorem sudo_is_transparent:
  assumes "c = [] \<or> \<not> is_ws (hd c)"
  shows "dispatch_pure date v d (concat (replicate n ''sudo '') @ c) = dispatch_pure date v d c"
proof -
  have "strip_sudo (concat (replicate n ''sudo '') @ c) = strip_sudo c"
  proof (induction n)
    case (Suc n)
    have "concat (replicate n ''sudo '') @ c = [] \<or> \<not> is_ws (hd (concat (replicate n ''sudo '') @ c))"
      using assms by (cases n) (auto simp: is_ws_def)
    from strip_sudo_space [OF this] Suc show ?case by simp
  qed simp
  then show ?thesis by (simp add: dispatch_pure_def)
qed

theorem sudo_is_transparent_witness:
  "dispatch_pure ''now'' demo_vfs demo_disk (concat (replicate 200000 ''sudo '') @ ''pwd'') =
     Some (''/'' @ crlf, demo_vfs, demo_disk)"
proof -
  have "strip_sudo ''pwd'' = ''pwd''"
    by (subst strip_sudo.simps) (simp add: strip_prefix_def starts_with_def)
  then have "dispatch_pure ''now'' demo_vfs demo_disk ''pwd'' = Some (''/'' @ crlf, demo_vfs, demo_disk)"
    by (simp add: dispatch_pure_def run_prog_def prog_of_def pwd_def current_path_str_def path_str_def
        demo_vfs_def)
  then show ?thesis
    using sudo_is_transparent [of "''pwd''" "''now''" demo_vfs demo_disk 200000] by (simp add: is_ws_def)
qed

subsection \<open>Sequences\<close>

lemma find_str_None: "sublist p s \<longleftrightarrow> find_str p s \<noteq> None"
proof (induction s)
  case Nil
  then show ?case by (cases p) auto
next
  case (Cons x xs)
  then show ?case by (auto simp: sublist_Cons_right starts_with_prefix)
qed

lemma parse_redirect_None: "CHR ''>'' \<notin> set cmd \<Longrightarrow> parse_redirect cmd = Some None"
proof -
  assume a: "CHR ''>'' \<notin> set cmd"
  then have "\<not> sublist ''>>'' cmd" by (auto dest: set_mono_sublist)
  then show ?thesis
    using a rfind_char_None [of "CHR ''>''" cmd] by (simp add: parse_redirect_def find_str_None)
qed

lemma then_run_Some [simp]: "then_run f (Some ('''', v, d)) = f v d"
  by (auto simp: then_run_def split: option.splits)

lemma then_run_assoc: "then_run g (then_run f acc) = then_run (\<lambda>v d. then_run g (f v d)) acc"
  by (auto simp: then_run_def split: option.splits)

lemma fold_then_run_shift:
  "foldl (\<lambda>acc c. then_run (f c) acc) acc cs =
   then_run (\<lambda>v d. foldl (\<lambda>acc c. then_run (f c) acc) (Some ('''', v, d)) cs) acc"
proof (induction cs arbitrary: acc)
  case Nil
  then show ?case by (auto simp: then_run_def split: option.splits)
next
  case (Cons c cs)
  have "foldl (\<lambda>acc c. then_run (f c) acc) acc (c # cs) =
      then_run (\<lambda>v d. foldl (\<lambda>acc c. then_run (f c) acc) (Some ('''', v, d)) cs) (then_run (f c) acc)"
    using Cons.IH [of "then_run (f c) acc"] by simp
  also have "\<dots> = then_run (\<lambda>v d. then_run
      (\<lambda>v d. foldl (\<lambda>acc c. then_run (f c) acc) (Some ('''', v, d)) cs) (f c v d)) acc"
    by (rule then_run_assoc)
  also have "(\<lambda>v d. then_run (\<lambda>v d. foldl (\<lambda>acc c. then_run (f c) acc) (Some ('''', v, d)) cs) (f c v d)) =
      (\<lambda>v d. foldl (\<lambda>acc c. then_run (f c) acc) (f c v d) cs)"
    by (intro ext) (rule Cons.IH [symmetric])
  finally show ?case by simp
qed

definition run_parts :: "string \<Rightarrow> string list \<Rightarrow> fs_state option \<Rightarrow> fs_state option" where
  "run_parts date cs acc = foldl (\<lambda>acc c. then_run (\<lambda>v d. dispatch_pure date v d c) acc) acc cs"

lemma dispatch_no_redirect:
  assumes "CHR ''>'' \<notin> set cmd"
  shows "dispatch date v d cmd = run_parts date (map trim (split_on (CHR '';'') (trim cmd))) (Some ('''', v, d))"
proof -
  let ?F = "\<lambda>cs. foldl (\<lambda>acc c. then_run (\<lambda>v d. dispatch_pure date v d (trim c)) acc) (Some ('''', v, d)) cs"
  have nr: "parse_redirect s = Some None" if "set s \<subseteq> set cmd" for s
    using assms that by (intro parse_redirect_None) auto
  have single: "dispatch date v d (trim c) = dispatch_pure date v d (trim c)"
    if "c \<in> set (split_on (CHR '';'') (trim cmd))" for c v d
  proof -
    have "set (trim c) \<subseteq> set cmd"
      using split_on_set [OF that] set_trim [of c] set_trim [of cmd] by blast
    moreover have "CHR '';'' \<notin> set (trim c)" using split_on_clean [OF that] set_trim [of c] by blast
    ultimately show ?thesis by (subst dispatch.simps) (simp add: nr)
  qed
  have "dispatch date v d cmd = ?F (split_on (CHR '';'') (trim cmd))"
  proof (cases "CHR '';'' \<in> set (trim cmd)")
    case True
    have "dispatch date v d cmd = foldl (\<lambda>acc c. then_run (\<lambda>v d. dispatch date v d (trim c)) acc)
        (Some ('''', v, d)) (split_on (CHR '';'') (trim cmd))"
      by (subst dispatch.simps) (simp add: nr set_trim True)
    also have "\<dots> = ?F (split_on (CHR '';'') (trim cmd))"
      by (rule foldl_cong) (simp_all add: single)
    finally show ?thesis .
  next
    case False
    then show ?thesis
      by (subst dispatch.simps) (simp add: nr set_trim split_on_no_sep)
  qed
  then show ?thesis by (simp add: run_parts_def foldl_map)
qed

lemma trim_Cons_ws: "is_ws x \<Longrightarrow> trim (x # s) = trim s"
  by (simp add: trim_def trim_start_def)

lemma trim_snoc_ws:
  assumes "is_ws x"
  shows "trim (s @ [x]) = trim s"
proof (cases "\<forall>y \<in> set s. is_ws y")
  case True
  then have "dropWhile is_ws s = []" "dropWhile is_ws (s @ [x]) = []" using assms by auto
  then have "trim s = []" and "trim (s @ [x]) = []"
    by (simp_all only: trim_def trim_start_def trim_end_def rev.simps(1) dropWhile.simps(1))
  then show ?thesis by simp
next
  case False
  then have "dropWhile is_ws (s @ [x]) = dropWhile is_ws s @ [x]" by (simp add: dropWhile_append)
  then show ?thesis using assms by (simp add: trim_def trim_start_def trim_end_def)
qed

lemma split_on_snoc:
  "split_on c (s @ [x]) =
     (if x = c then split_on c s @ [[]] else butlast (split_on c s) @ [last (split_on c s) @ [x]])"
proof (induction s)
  case (Cons y ys)
  obtain z zs where "split_on c ys = z # zs" by (cases "split_on c ys") auto
  then show ?case using Cons by (cases zs rule: rev_cases) auto
qed simp

lemma split_trim_start:
  "\<not> is_ws c \<Longrightarrow> map trim (split_on c (trim_start s)) = map trim (split_on c s)"
proof (induction s)
  case (Cons x s)
  obtain z zs where "split_on c s = z # zs" by (cases "split_on c s") auto
  then show ?case using Cons by (auto simp: trim_start_def trim_Cons_ws)
qed (simp add: trim_start_def)

lemma split_trim_end:
  "\<not> is_ws c \<Longrightarrow> map trim (split_on c (trim_end s)) = map trim (split_on c s)"
proof (induction s rule: rev_induct)
  case (snoc x s)
  show ?case
  proof (cases "is_ws x")
    case True
    have "map trim (split_on c s) = map trim (butlast (split_on c s)) @ [trim (last (split_on c s))]"
      by (metis append_butlast_last_id list.simps(8) list.simps(9) map_append split_on_neq)
    then show ?thesis
      using True snoc by (auto simp: split_on_snoc trim_snoc_ws trim_end_def)
  next
    case False
    then show ?thesis by (simp add: trim_end_def)
  qed
qed (simp add: trim_end_def)

lemma split_trim: "\<not> is_ws c \<Longrightarrow> map trim (split_on c (trim s)) = map trim (split_on c s)"
  by (simp add: trim_def split_trim_end split_trim_start)

text \<open>
  A line of commands separated by a semicolon, without redirection, does what the
  commands do one after the other, each starting from the file system, working directory and disk
  the previous one left, and prints their outputs in order.
\<close>

theorem dispatch_sequence:
  assumes "CHR ''>'' \<notin> set a" and "CHR ''>'' \<notin> set b"
  shows "dispatch date v d (a @ '';'' @ b) =
    then_run (\<lambda>v d. dispatch date v d b) (dispatch date v d a)"
proof -
  have sc: "\<not> is_ws (CHR '';'')" by (simp add: is_ws_def)
  have parts: "map trim (split_on (CHR '';'') (a @ '';'' @ b)) =
      map trim (split_on (CHR '';'') a) @ map trim (split_on (CHR '';'') b)"
    using split_on_append_sep [of "CHR '';''" a b] by simp
  have all: "CHR ''>'' \<notin> set (a @ '';'' @ b)" using assms by simp
  show ?thesis
    unfolding dispatch_no_redirect [OF all] dispatch_no_redirect [OF assms(1)]
      dispatch_no_redirect [OF assms(2)] split_trim [OF sc] parts
    unfolding run_parts_def foldl_append
    by (rule fold_then_run_shift)
qed

theorem dispatch_sequence_witness:
  "dispatch ''now'' demo_vfs demo_disk (''cd /x'' @ '';'' @ ''pwd'') =
     then_run (\<lambda>v d. dispatch ''now'' v d ''pwd'') (dispatch ''now'' demo_vfs demo_disk ''cd /x'')"
  by (rule dispatch_sequence) simp_all

subsection \<open>Redirection\<close>

lemma trim_middle:
  assumes "\<not> is_ws x"
  shows "trim (a @ x # b) = trim_start a @ x # trim_end b"
proof -
  have s: "trim_start (a @ x # b) = trim_start a @ x # b"
    using assms while_append_stop(2) [of "x # b" is_ws a] by (simp add: trim_start_def)
  have "trim_end (r @ x # b) = r @ x # trim_end b" for r
    using assms while_append_stop(2) [of "x # rev r" is_ws "rev b"] by (simp add: trim_end_def)
  then show ?thesis by (simp add: trim_def s)
qed

lemma trim_trim_start: "trim (trim_start s) = trim s"
  by (simp add: trim_def trim_start_def dropWhile_idem)

lemma trim_trim_end: "trim (trim_end s) = trim s"
proof (induction s rule: rev_induct)
  case (snoc x s)
  then show ?case by (cases "is_ws x") (auto simp: trim_end_def trim_snoc_ws)
qed (simp add: trim_end_def)

lemma set_trim_end: "set (trim_end s) \<subseteq> set s"
  by (auto simp: trim_end_def dest: set_dropWhileD)

lemma hd_trim_end: "trim_end s \<noteq> [] \<Longrightarrow> hd (trim_end s) = hd s"
proof (induction s rule: rev_induct)
  case (snoc x s)
  then show ?case by (cases "is_ws x") (cases s; auto simp: trim_end_def)+
qed (simp add: trim_end_def)

lemma trim_end_boundary: "f = [] \<or> \<not> is_cont (hd f) \<longleftrightarrow> trim_end f = [] \<or> \<not> is_cont (hd (trim_end f))"
proof (cases "trim_end f = []")
  case True
  then have "\<forall>x \<in> set f. is_ws x" by (simp add: trim_end_def dropWhile_eq_Nil_conv)
  then have "f = [] \<or> \<not> is_cont (hd f)" using is_ws_ascii [of "hd f"] by (cases f) (auto simp: is_cont_def)
  then show ?thesis using True by simp
qed (cases "f = []", simp_all add: hd_trim_end, simp add: trim_end_def)

lemma no_double: "c \<notin> set a \<Longrightarrow> c \<notin> set b \<Longrightarrow> find_str [c, c] (a @ c # b) = None"
proof (induction a)
  case Nil
  have "\<not> sublist [c, c] b" using Nil by (auto dest: set_mono_sublist)
  then show ?case using Nil find_str_None [of "[c, c]" b] by (cases b) (auto simp: starts_with_def)
next
  case (Cons y a)
  then show ?case by (auto simp: starts_with_def)
qed

lemma dispatch_redirect_eq:
  assumes "CHR ''>'' \<notin> set c" and "CHR ''>'' \<notin> set f" and "f = [] \<or> hd f \<noteq> CHR ''=''"
  shows "dispatch date v d (c @ ''>'' @ f) =
    (if is_char_boundary (c @ ''>'' @ f) (length c + 1)
     then case dispatch_pure date v d (trim c) of
            None \<Rightarrow> None
          | Some (out, v1, d1) \<Rightarrow>
              (case write_file v1 d1 (trim f) (replace_str crlf nl out) False of
                 None \<Rightarrow> None
               | Some (_, v2, d2) \<Rightarrow> Some ('''', v2, d2))
     else None)"
proof -
  let ?c = "trim_start c" and ?f = "trim_end f"
  have t: "trim (c @ CHR ''>'' # f) = ?c @ CHR ''>'' # ?f"
    using trim_middle [of "CHR ''>''" c f] by (simp add: is_ws_def)
  have nc: "CHR ''>'' \<notin> set ?c" and nf: "CHR ''>'' \<notin> set ?f"
    using assms(1,2) set_trim_start [of c] set_trim_end [of f] by auto
  have "?f = [] \<or> hd ?f \<noteq> CHR ''=''"
    using assms(3) hd_trim_end [of f] by (cases "f = []") (simp add: trim_end_def, auto)
  then have p: "parse_redirect (?c @ CHR ''>'' # ?f) = map_option Some (slice_around (?c @ ''>'' @ ?f) (length ?c) ''>'')"
    using no_double [OF nc nf] rfind_char_last [OF nf, of ?c]
    by (cases ?f) (auto simp: parse_redirect_def nth_append)
  have b: "is_char_boundary (c @ CHR ''>'' # f) (length c + 1) \<longleftrightarrow> ?f = [] \<or> \<not> is_cont (hd ?f)"
    using trim_end_boundary [of f] by (cases f) (auto simp: is_char_boundary_def nth_append)
  have "slice_around (?c @ ''>'' @ ?f) (length ?c) ''>'' =
      (if ?f = [] \<or> \<not> is_cont (hd ?f) then Some (?c, ''>'', ?f) else None)"
    using slice_around_eq [of ?f "''>''" ?c]
    by (cases ?f) (auto simp: is_cont_def byte_of_def slice_around_def str_slice_def is_char_boundary_def nth_append)
  note s = p [unfolded this]
  show ?thesis
    by (cases "?f = [] \<or> \<not> is_cont (hd ?f)"; subst dispatch.simps)
       (simp_all only: b t s trim_trim_start trim_trim_end Let_def append.simps if_True if_False option.map option.case prod.case
         list.inject list.distinct simp_thms)
qed

text \<open>
  Claim C35: \<^verbatim>\<open>cmd > file\<close> (with no other \<^verbatim>\<open>>\<close> and no \<^verbatim>\<open>=\<close> right after it) prints nothing and stores
  exactly what the command would have printed, with line feeds for line ends, in the named file,
  replacing its contents. The part before \<^verbatim>\<open>>\<close> is one command: semicolons in it do not separate. (Bytes that are
  not text and continue a character right behind \<^verbatim>\<open>>\<close> would panic.)
\<close>

theorem dispatch_redirect:
  assumes "CHR ''>'' \<notin> set c" and "CHR ''>'' \<notin> set f" and "f = [] \<or> hd f \<noteq> CHR ''=''"
  shows "dispatch date v d (c @ ''>'' @ f) =
    (if is_char_boundary (c @ ''>'' @ f) (length c + 1)
     then case dispatch_pure date v d (trim c) of
            None \<Rightarrow> None
          | Some (out, v1, d1) \<Rightarrow>
              (case write_file v1 d1 (trim f) (replace_str crlf nl out) False of
                 None \<Rightarrow> None
               | Some (_, v2, d2) \<Rightarrow> Some ('''', v2, d2))
     else None)"
  using assms by (rule dispatch_redirect_eq)

theorem dispatch_redirect_witness:
  "dispatch ''now'' demo_vfs demo_disk (''id; pwd '' @ ''>'' @ '' /y'') =
    (case dispatch_pure ''now'' demo_vfs demo_disk (trim ''id; pwd '') of
       None \<Rightarrow> None
     | Some (out, v1, d1) \<Rightarrow>
         (case write_file v1 d1 (trim '' /y'') (replace_str crlf nl out) False of
            None \<Rightarrow> None
          | Some (_, v2, d2) \<Rightarrow> Some ('''', v2, d2)))"
proof -
  have "is_char_boundary (''id; pwd '' @ ''>'' @ '' /y'') (length ''id; pwd '' + 1)"
    by (simp add: is_char_boundary_def is_cont_def byte_of_def)
  then show ?thesis using dispatch_redirect [of "''id; pwd ''" "'' /y''" "''now''" demo_vfs demo_disk] by simp
qed

subsection \<open>Writing and reading through the command line\<close>

definition plain_word :: "string \<Rightarrow> bool" where
  "plain_word w \<longleftrightarrow> w \<noteq> [] \<and>
     list_all (\<lambda>c. is_ascii_graphic c \<and> c \<notin> {CHR ''>'', CHR '';'', dquote, squote}) w"

lemma graphic_not_ws: "is_ascii_graphic c \<Longrightarrow> \<not> is_ws c"
  by (auto simp: is_ascii_graphic_def is_ws_def byte_of_def)

lemma plain_word_facts:
  assumes "plain_word w"
  shows "w \<noteq> []" and "trim w = w" and "CHR ''>'' \<notin> set w" and "CHR '';'' \<notin> set w"
    and "hd w \<noteq> dquote" and "hd w \<noteq> squote" and "\<forall>c \<in> set w. \<not> is_ws c" and "valid_utf8 w"
proof -
  show ne: "w \<noteq> []" and ws: "\<forall>c \<in> set w. \<not> is_ws c"
    and "CHR ''>'' \<notin> set w" and "CHR '';'' \<notin> set w"
    using assms by (auto simp: plain_word_def list_all_iff graphic_not_ws)
  then show "trim w = w" by (intro trim_id) auto
  show "hd w \<noteq> dquote" and "hd w \<noteq> squote"
    using assms ne by (cases w; simp add: plain_word_def)+
  show "valid_utf8 w"
    using assms by (intro valid_utf8_ascii) (fastforce simp: plain_word_def list_all_iff is_ascii_graphic_def)
qed

lemma split_whitespace_word: "plain_word w \<Longrightarrow> split_whitespace w = [w]"
  using plain_word_facts [of w] by (simp add: split_whitespace_def split_ws_word)

lemma dispatch_pure_prog:
  assumes "CHR '' '' \<notin> set p" and "p \<noteq> []" and "hd p \<noteq> CHR ''s''"
  shows "dispatch_pure date v d (p @ '' '' @ a) = run_prog date v d (p @ '' '' @ a) p a"
proof -
  have "strip_prefix ''sudo'' (p @ '' '' @ a) = None"
    using assms(2,3)
    by (cases p) (auto simp: strip_prefix_None prefix_append)
  then have "strip_sudo (p @ '' '' @ a) = p @ '' '' @ a"
    by (subst strip_sudo.simps) simp
  moreover have "takeWhile (\<lambda>c. c \<noteq> CHR '' '') (p @ '' '' @ a) = p"
    using assms(1) by (subst takeWhile_append2) auto
  ultimately show ?thesis
    using assms(2) by (simp add: dispatch_pure_def prog_of_def args_of_def)
qed

lemma echo_word:
  assumes "plain_word w"
  shows "dispatch_pure date v d (''echo '' @ w) = Some (w @ crlf, v, d)"
proof -
  have "echo_text w = Some w"
    using plain_word_facts [OF assms] by (simp add: echo_text_def)
  then show ?thesis
    using dispatch_pure_prog [of "''echo''" date v d w]
    by (simp add: run_prog_def)
qed

lemma cat_word:
  assumes "plain_word t"
  shows "dispatch date v d (''cat '' @ t) = Some (cat v d t, v, d)"
proof -
  note pf = plain_word_facts [OF assms]
  have tr: "trim (''cat '' @ t) = ''cat '' @ t"
    using pf(1,7) by (intro trim_id) (auto simp: is_ws_def)
  have "dispatch date v d (''cat '' @ t) = dispatch_pure date v d (''cat '' @ t)"
    using pf(3,4) parse_redirect_None [of "''cat '' @ t"] by (subst dispatch.simps) (simp add: tr [simplified])
  then show ?thesis
    using dispatch_pure_prog [of "''cat''" date v d t]
    by (simp add: run_prog_def)
qed

lemma replace_crlf_append: "cr \<notin> set u \<Longrightarrow> replace_str crlf nl (u @ s) = u @ replace_str crlf nl s"
  by (induction u) (auto simp: replace_crlf_Cons simp del: replace_str.simps(2))

lemma replace_nl_append: "lf \<notin> set u \<Longrightarrow> replace_str nl crlf (u @ s) = u @ replace_str nl crlf s"
  by (induction u) (auto simp: replace_nl_Cons simp del: replace_str.simps(2))

lemma replace_ends: "replace_str crlf nl crlf = nl" "replace_str crlf nl nl = nl" "replace_str nl crlf nl = crlf"
  by (simp_all add: crlf_def nl_def starts_with_def)

lemma terminal_text_line: "plain_word w \<Longrightarrow> terminal_text (w @ nl) = w @ crlf"
proof -
  assume a: "plain_word w"
  have w: "cr \<notin> set w" "lf \<notin> set w"
    using plain_word_facts(7) [OF a] by (auto simp: is_ws_def)
  show ?thesis
    using replace_crlf_append [OF w(1), of nl] replace_nl_append [OF w(2), of nl]
    by (simp add: terminal_text_def to_crlf_def ends_with_suffix replace_ends Let_def suffix_def)
qed

text \<open>
  Claim C33: what an attacker stores with \<^verbatim>\<open>echo word > file\<close> is what \<^verbatim>\<open>cat file\<close> shows afterwards:
  the two command lines, run one after the other through dispatch, redirection, disk and merged
  view, print exactly the word and a line end.
\<close>

theorem echo_redirect_then_cat:
  assumes "vfs_inv v" and "mount_root v = Some base" and "disk_wf d" and "is_dir d base"
    and "plain_word w" and "plain_word t" and "\<not> is_flag t" and "\<not> contains_str ''shadow'' t"
    and "resolve v t \<noteq> []" and "\<not> is_dir d (base @ resolve v t)"
    and "\<And>q. strict_prefix q (resolve v t) \<Longrightarrow> \<not> is_file d (base @ q)"
  shows "\<exists>v' d'. dispatch date v d (''echo '' @ w @ '' > '' @ t) = Some ('''', v', d') \<and>
    dispatch date v' d' (''cat '' @ t) = Some (w @ crlf, v', d')"
proof -
  note w = plain_word_facts [OF assms(5)] and t = plain_word_facts [OF assms(6)]
  obtain out v' d' where wr: "write_file v d t (w @ nl) False = Some (out, v', d')"
    using write_cmd.cmd_returns by blast
  have tr: "trim (''echo '' @ w @ '' '') = ''echo '' @ w"
    using trim_snoc_ws [of "CHR '' ''" "''echo '' @ w"] w(1,7) trim_id [of "''echo '' @ w"]
    by (auto simp: is_ws_def)
  have tf: "trim ('' '' @ t) = t" using t(2) trim_Cons_ws [of "CHR '' ''" t] by (simp add: is_ws_def)
  have "cr \<notin> set w" using w(7) by (auto simp: is_ws_def)
  then have cr: "replace_str crlf nl (w @ crlf) = w @ nl" by (simp add: replace_crlf_append replace_ends)
  have bd: "is_char_boundary ((''echo '' @ w @ '' '') @ ''>'' @ '' '' @ t) (length (''echo '' @ w @ '' '') + 1)"
    by (simp add: is_char_boundary_def nth_append is_cont_def byte_of_def)
  have "CHR ''>'' \<notin> set (''echo '' @ w @ '' '')" "CHR ''>'' \<notin> set ('' '' @ t)"
    "'' '' @ t = [] \<or> hd ('' '' @ t) \<noteq> CHR ''=''"
    using w(3) t(3) by simp_all
  from dispatch_redirect_eq [OF this, of date v d, unfolded if_P [OF bd] tr tf echo_word [OF assms(5)]]
  have "dispatch date v d ((''echo '' @ w @ '' '') @ ''>'' @ '' '' @ t) = Some ('''', v', d')"
    using wr cr by simp
  moreover have "valid_utf8 (w @ nl)"
    by (rule valid_utf8_append [OF w(8)]) (rule valid_utf8_ascii, simp add: nl_def byte_of_def)
  then have "cat v' d' t = w @ crlf"
    using write_then_cat_eq [OF assms(1-4,9-11) split_whitespace_word [OF assms(6)] assms(7,8) _ wr]
      terminal_text_line [OF assms(5)] by simp
  ultimately show ?thesis using cat_word [OF assms(6)] by auto
qed

theorem echo_redirect_then_cat_witness:
  "\<exists>v' d'. dispatch ''now'' demo_vfs demo_disk (''echo '' @ ''hi'' @ '' > '' @ ''/y'') = Some ('''', v', d') \<and>
    dispatch ''now'' v' d' (''cat '' @ ''/y'') = Some (''hi'' @ crlf, v', d')"
proof (rule echo_redirect_then_cat [OF demo_ok(3,4,1,2)])
  show "plain_word ''hi''" and "plain_word ''/y''"
    by (simp_all add: plain_word_def is_ascii_graphic_def byte_of_def)
  show "\<not> is_flag ''/y''" and "\<not> contains_str ''shadow'' ''/y''"
    by (simp_all add: is_flag_def starts_with_def)
  show "resolve demo_vfs ''/y'' \<noteq> []" by (simp add: demo_resolve)
  show "\<not> is_dir demo_disk ([''mnt''] @ resolve demo_vfs ''/y'')"
    by (simp add: demo_resolve) (simp add: demo_disk_def is_dir_def dlookup_def)
  show "\<not> is_file demo_disk ([''mnt''] @ q)" if "strict_prefix q (resolve demo_vfs ''/y'')" for q
    using that demo_ok(2) is_dir_not_file by (cases q) (auto simp: demo_resolve strict_prefix_def)
qed

end
