(* ===== verification/Ssrf_Guard.thy ===== *)
theory Ssrf_Guard
  imports Aegis_Common
begin

unbundle bit_operations_syntax

text \<open>
  The guard around the gateway's only outbound traffic, and the other small functions at the
  head of \<^verbatim>\<open>crates/aegis-gateway/src/handler.rs\<close>: which addresses the payload fetcher may connect
  to, which name a fetched file gets, how harvested credentials are cut and what transcript the
  attacker sees.

  \<^verbatim>\<open>reqwest::Url\<close> is a third-party type: a URL is the record of what its accessors return, and
  parsing and name resolution are arguments of the definitions that use them.
\<close>

section \<open>Definitions\<close>

definition MAX_CREDENTIAL_LEN :: nat where
  "MAX_CREDENTIAL_LEN = 256"

function is_blocked_ip :: "IpAddr \<Rightarrow> bool" where
  "is_blocked_ip (V4 o0 o1 o2 o3) =
     (v4_is_loopback o0 o1 o2 o3
      \<or> v4_is_private o0 o1 o2 o3
      \<or> v4_is_link_local o0 o1 o2 o3
      \<or> v4_is_unspecified o0 o1 o2 o3
      \<or> v4_is_broadcast o0 o1 o2 o3
      \<or> v4_is_multicast o0 o1 o2 o3
      \<or> o0 = 0
      \<or> (o0 = 100 \<and> 64 \<le> o1 \<and> o1 < 128)
      \<or> (o0 = 192 \<and> o1 = 0 \<and> o2 = 2)
      \<or> (o0 = 198 \<and> 18 \<le> o1 \<and> o1 < 20)
      \<or> (o0 = 198 \<and> o1 = 51 \<and> o2 = 100)
      \<or> (o0 = 203 \<and> o1 = 0 \<and> o2 = 113)
      \<or> 240 \<le> o0)"
| "is_blocked_ip (V6 s0 s1 s2 s3 s4 s5 s6 s7) =
     (case to_ipv4_mapped (V6 s0 s1 s2 s3 s4 s5 s6 s7) of
        Some (a, b, c, d) \<Rightarrow> is_blocked_ip (V4 a b c d)
      | None \<Rightarrow>
          v6_is_loopback [s0, s1, s2, s3, s4, s5, s6, s7]
          \<or> v6_is_unspecified [s0, s1, s2, s3, s4, s5, s6, s7]
          \<or> v6_is_multicast s0
          \<or> s0 AND 0xfe00 = 0xfc00
          \<or> s0 AND 0xffc0 = 0xfe80)"
  by pat_completeness auto
termination
  by (relation "measure (\<lambda>ip. case ip of V4 _ _ _ _ \<Rightarrow> 0 | V6 _ _ _ _ _ _ _ _ \<Rightarrow> 1)") auto

record Url =
  scheme :: string
  host_str :: "string option"
  port_or_known_default :: "nat option"
  path_segments :: "string list option"

datatype vet_error =
    SchemeNotAllowed string
  | UrlHasNoHost
  | UrlHasNoPort
  | ResolveFailed string string
  | NoAddresses string
  | BlockedAddress string IpAddr

type_synonym resolver = "string \<Rightarrow> nat \<Rightarrow> string + SocketAddr list"

definition vet_target :: "resolver \<Rightarrow> Url \<Rightarrow> vet_error + SocketAddr" where
  "vet_target to_socket_addrs url =
     (if scheme url \<noteq> ''http'' \<and> scheme url \<noteq> ''https''
      then Inl (SchemeNotAllowed (scheme url))
      else case host_str url of
        None \<Rightarrow> Inl UrlHasNoHost
      | Some host \<Rightarrow>
          (case port_or_known_default url of
             None \<Rightarrow> Inl UrlHasNoPort
           | Some port \<Rightarrow>
               (case to_socket_addrs host port of
                  Inl e \<Rightarrow> Inl (ResolveFailed host e)
                | Inr [] \<Rightarrow> Inl (NoAddresses host)
                | Inr (first # rest) \<Rightarrow>
                    (case find (\<lambda>a. is_blocked_ip (sa_ip a)) (first # rest) of
                       Some bad \<Rightarrow> Inl (BlockedAddress host (sa_ip bad))
                     | None \<Rightarrow> Inr first))))"

definition safe_filename :: "Url \<Rightarrow> string" where
  "safe_filename url =
     (let candidate =
        (case path_segments url of
           None \<Rightarrow> ''''
         | Some segs \<Rightarrow> if segs = [] then '''' else last segs)
      in if candidate = '''' \<or> candidate = ''.'' \<or> candidate = ''..''
            \<or> contains_str ''/'' candidate \<or> contains_str [bsl] candidate
            \<or> starts_with ''.'' candidate
         then ''index.html''
         else concat (take 128 (utf8_chars candidate)))"

text \<open>The ellipsis \<^verbatim>\<open>U+2026\<close> in UTF-8.\<close>

definition ellipsis :: string where
  "ellipsis = [CHR 0xE2, CHR 0x80, CHR 0xA6]"

definition truncate_credential :: "string \<Rightarrow> string" where
  "truncate_credential s =
     (if MAX_CREDENTIAL_LEN < length (utf8_chars s)
      then take (char_offset s MAX_CREDENTIAL_LEN) s @ ellipsis
      else s)"

definition fake_wget_progress :: "string \<Rightarrow> nat \<Rightarrow> string" where
  "fake_wget_progress url size_kb0 =
     (let parts = split_on (CHR ''/'') url;
          filename0 = last parts;
          filename = (if filename0 = '''' then ''index.html'' else filename0);
          size_kb = (if size_kb0 = 0 then 64 else size_kb0);
          host = (if 2 < length parts then parts ! 2 else ''example.com'');
          size_bytes = size_kb * 1024
      in ''--2026-08-27 18:25:00--  '' @ url @ crlf
         @ ''Resolving '' @ host @ '' ('' @ host @ '')... 192.0.2.1'' @ crlf
         @ ''Connecting to '' @ host @ ''|192.0.2.1|:80... connected.'' @ crlf
         @ ''HTTP request sent, awaiting response... 200 OK'' @ crlf
         @ ''Length: '' @ show_nat size_bytes @ '' ('' @ show_nat size_kb
         @ ''K) [application/octet-stream]'' @ crlf
         @ ''Saving to: '' @ [squote] @ filename @ [squote] @ crlf @ crlf
         @ filename @ ''   100%[===================>]  '' @ show_nat size_kb
         @ ''.00K  --.-KB/s    in 0.1s'' @ crlf @ crlf
         @ ''2026-08-27 18:25:01 (512 KB/s) - '' @ [squote] @ filename @ [squote]
         @ '' saved ['' @ show_nat size_bytes @ '']'' @ crlf)"

section \<open>The blocked addresses as CIDR blocks\<close>

definition blocked_nets4 :: "((nat \<times> nat \<times> nat \<times> nat) \<times> nat) list" where
  "blocked_nets4 =
     [((0, 0, 0, 0), 8), ((10, 0, 0, 0), 8), ((100, 64, 0, 0), 10), ((127, 0, 0, 0), 8),
      ((169, 254, 0, 0), 16), ((172, 16, 0, 0), 12), ((192, 0, 2, 0), 24), ((192, 168, 0, 0), 16),
      ((198, 18, 0, 0), 15), ((198, 51, 100, 0), 24), ((203, 0, 113, 0), 24),
      ((224, 0, 0, 0), 4), ((240, 0, 0, 0), 4)]"

definition seg_val :: "u16 list \<Rightarrow> nat" where
  "seg_val ss = foldl (\<lambda>acc w. acc * 65536 + unat w) 0 ss"

definition in_cidr6 :: "u16 list \<Rightarrow> u16 list \<times> nat \<Rightarrow> bool" where
  "in_cidr6 ss blk = (seg_val ss div 2 ^ (128 - snd blk) = seg_val (fst blk) div 2 ^ (128 - snd blk))"

definition blocked_nets6 :: "(u16 list \<times> nat) list" where
  "blocked_nets6 =
     [([0, 0, 0, 0, 0, 0, 0, 0], 128), ([0, 0, 0, 0, 0, 0, 0, 1], 128),
      ([0xff00, 0, 0, 0, 0, 0, 0, 0], 8), ([0xfc00, 0, 0, 0, 0, 0, 0, 0], 7),
      ([0xfe80, 0, 0, 0, 0, 0, 0, 0], 10)]"

definition mapped_net6 :: "u16 list \<times> nat" where
  "mapped_net6 = ([0, 0, 0, 0, 0, 0xffff, 0, 0], 96)"

fun blocked_ref :: "IpAddr \<Rightarrow> bool" where
  "blocked_ref (V4 a b c d) = list_ex (in_cidr4 (ip4_val a b c d)) blocked_nets4"
| "blocked_ref (V6 s0 s1 s2 s3 s4 s5 s6 s7) =
     (let ss = [s0, s1, s2, s3, s4, s5, s6, s7]
      in if in_cidr6 ss mapped_net6
         then list_ex (in_cidr4 (seg_val [s6, s7])) blocked_nets4
         else list_ex (in_cidr6 ss) blocked_nets6)"

subsection \<open>IPv4\<close>

lemma u8_less_eq_iff: "(x :: u8) \<le> y \<longleftrightarrow> unat x \<le> unat y" "(x :: u8) < y \<longleftrightarrow> unat x < unat y"
  by (simp_all add: word_le_nat_alt word_less_nat_alt)

lemmas u8_nat = u8_eq_iff u8_less_eq_iff

text \<open>The tests of the code as conditions on the octets' values.\<close>

definition blocked_octets :: "nat \<Rightarrow> nat \<Rightarrow> nat \<Rightarrow> bool" where
  "blocked_octets a b c \<longleftrightarrow>
     a = 0 \<or> a = 10 \<or> (a = 100 \<and> b div 64 = 1) \<or> a = 127 \<or> (a = 169 \<and> b = 254)
     \<or> (a = 172 \<and> b div 16 = 1) \<or> (a = 192 \<and> b = 0 \<and> c = 2) \<or> (a = 192 \<and> b = 168)
     \<or> (a = 198 \<and> b div 2 = 9) \<or> (a = 198 \<and> b = 51 \<and> c = 100) \<or> (a = 203 \<and> b = 0 \<and> c = 113)
     \<or> a div 16 = 14 \<or> a div 16 = 15"

lemma div_range: "0 < k \<Longrightarrow> (n :: nat) div k = m \<longleftrightarrow> m * k \<le> n \<and> n < Suc m * k"
  by (metis div_nat_eqI dividend_less_div_times div_times_less_eq_dividend mult.commute mult_Suc
      plus_1_eq_Suc)

lemmas v4_tests =
  is_blocked_ip.simps(1) v4_is_loopback.simps v4_is_private.simps v4_is_link_local.simps
  v4_is_unspecified.simps v4_is_broadcast.simps v4_is_multicast.simps u8_nat blocked_octets_def

lemma is_blocked_v4_octets:
  "is_blocked_ip (V4 a b c d) \<longleftrightarrow> blocked_octets (unat a) (unat b) (unat c)"
proof -
  let ?a = "unat a" and ?b = "unat b"
  have ranges: "?b div 64 = 1 \<longleftrightarrow> 64 \<le> ?b \<and> ?b < 128" "?b div 16 = 1 \<longleftrightarrow> 16 \<le> ?b \<and> ?b \<le> 31"
    "?b div 2 = 9 \<longleftrightarrow> 18 \<le> ?b \<and> ?b < 20"
    by (auto simp: div_range)
  have high: "?a div 16 = 14 \<or> ?a div 16 = 15 \<longleftrightarrow> 224 \<le> ?a"
    using unat_u8 [of a] by (auto simp: div_range)
  show ?thesis
  proof (cases "224 \<le> ?a")
    case True
    then have "?a \<le> 239 \<or> 240 \<le> ?a" by arith
    with True show ?thesis unfolding v4_tests ranges high by simp
  next
    case False
    then have "\<not> 240 \<le> ?a" "?a \<noteq> 255" by auto
    with False show ?thesis unfolding v4_tests ranges high by simp argo
  qed
qed

lemma blocked_nets4_octets:
  assumes "b < 256" "c < 256" "d < 256"
  shows "list_ex (in_cidr4 (horner4 a b c d)) blocked_nets4 \<longleftrightarrow> blocked_octets a b c"
  unfolding blocked_nets4_def list_ex_Cons_iff list_ex_Nil_iff blocked_octets_def
  using assms
  by (simp only: in_cidr4_8 in_cidr4_16 in_cidr4_24 in_cidr4_4)
     (simp add: in_cidr4_second del: in_cidr4.simps)

subsection \<open>IPv6\<close>

lemma seg_val_append: "seg_val (xs @ ys) = seg_val xs * 65536 ^ length ys + seg_val ys"
proof (induction ys rule: rev_induct)
  case Nil
  then show ?case by (simp add: seg_val_def)
next
  case (snoc y ys)
  have "seg_val (zs @ [y]) = seg_val zs * 65536 + unat y" for zs
    by (simp add: seg_val_def)
  with snoc show ?case
    by (simp add: algebra_simps flip: append_assoc)
qed

lemma seg_val_less: "seg_val xs < 65536 ^ length xs"
proof (induction xs rule: rev_induct)
  case Nil
  then show ?case by (simp add: seg_val_def)
next
  case (snoc x xs)
  have "seg_val (xs @ [x]) = seg_val xs * 65536 + unat x"
    by (simp add: seg_val_def)
  with snoc unat_u16 [of x] show ?case by simp
qed

lemma seg_val_div: "seg_val (xs @ ys) div 65536 ^ length ys = seg_val xs"
  using seg_val_less [of ys] by (simp add: seg_val_append)

lemma u16_eq_iff: "(x :: u16) = y \<longleftrightarrow> unat x = unat y"
  by (simp add: word_unat_eq_iff)

lemma seg_val_inj:
  "length xs = length ys \<Longrightarrow> seg_val xs = seg_val ys \<longleftrightarrow> xs = ys"
proof (induction xs ys rule: rev_induct2)
  case (4 x xs y ys)
  have "seg_val (zs @ [z]) = seg_val zs * 65536 + unat z" for zs and z :: u16
    by (simp add: seg_val_def)
  with 4 show ?case by (simp add: digit_eq unat_u16 u16_eq_iff)
qed auto

lemma in_cidr6_full:
  "length ss = 8 \<Longrightarrow> length n = 8 \<Longrightarrow> in_cidr6 ss (n, 128) \<longleftrightarrow> ss = n"
  by (simp add: in_cidr6_def seg_val_inj)

lemma in_cidr6_first:
  assumes "length ss = 7" "length ns = 7" "len \<le> 16"
  shows "in_cidr6 (s0 # ss) (n0 # ns, len) \<longleftrightarrow>
    unat s0 div 2 ^ (16 - len) = unat n0 div 2 ^ (16 - len)"
proof -
  have e: "128 - len = 112 + (16 - len)" using assms(3) by simp
  have first: "seg_val (x # xs) div 2 ^ 112 = unat x" if "length xs = 7" for x xs
    using seg_val_div [of "[x]" xs] that by (simp add: seg_val_def)
  show ?thesis
    by (simp only: in_cidr6_def fst_conv snd_conv e div_split_pow first assms)
qed

lemma in_cidr6_mapped:
  "in_cidr6 [s0, s1, s2, s3, s4, s5, s6, s7] mapped_net6 \<longleftrightarrow>
     [s0, s1, s2, s3, s4, s5] = [0, 0, 0, 0, 0, 0xffff]"
  using seg_val_div [of "[s0, s1, s2, s3, s4, s5]" "[s6, s7]"]
    seg_val_div [of "[0, 0, 0, 0, 0, 0xffff]" "[0, 0]"]
    seg_val_inj [of "[s0, s1, s2, s3, s4, s5]" "[0, 0, 0, 0, 0, 0xffff]"]
  by (simp add: in_cidr6_def mapped_net6_def)

lemma unat_and_high:
  fixes w :: u16
  assumes "m = - (2 ^ k)"
  shows "unat (w AND m) = unat w div 2 ^ k * 2 ^ k"
proof -
  have "w AND m = push_bit k (drop_bit k w)"
    unfolding assms minus_exp_eq_not_mask by (rule bit_word_eqI) (auto simp: bit_simps)
  then have "unat (w AND m) = (unat w div 2 ^ k * 2 ^ k) mod 65536"
    by (simp add: unsigned_push_bit_eq unat_drop_bit_eq push_bit_eq_mult [where ?'a = nat]
        drop_bit_eq_div [where ?'a = nat] take_bit_eq_mod)
  moreover have "unat w div 2 ^ k * 2 ^ k < 65536"
    by (rule le_less_trans [OF div_times_less_eq_dividend unat_u16])
  ultimately show ?thesis by simp
qed

lemma seg_masks:
  fixes w :: u16
  shows "w AND 0xfe00 = 0xfc00 \<longleftrightarrow> unat w div 512 = 126"
    and "w AND 0xffc0 = 0xfe80 \<longleftrightarrow> unat w div 64 = 1018"
    and "w AND 0xff00 = 0xff00 \<longleftrightarrow> unat w div 256 = 255"
  using unat_and_high [of "0xfe00" 9 w] unat_and_high [of "0xffc0" 6 w]
    unat_and_high [of "0xff00" 8 w]
  by (auto simp: u16_eq_iff)

lemma blocked_nets6_segments:
  "list_ex (in_cidr6 [s0, s1, s2, s3, s4, s5, s6, s7]) blocked_nets6 \<longleftrightarrow>
     [s0, s1, s2, s3, s4, s5, s6, s7] = [0, 0, 0, 0, 0, 0, 0, 0]
     \<or> [s0, s1, s2, s3, s4, s5, s6, s7] = [0, 0, 0, 0, 0, 0, 0, 1]
     \<or> unat s0 div 256 = 255 \<or> unat s0 div 512 = 126 \<or> unat s0 div 64 = 1018"
  unfolding blocked_nets6_def list_ex_Cons_iff list_ex_Nil_iff
  by (simp add: in_cidr6_full in_cidr6_first)

lemma seg_val_octets:
  "seg_val [s, t] =
     horner4 (unat (hi_octet s)) (unat (lo_octet s)) (unat (hi_octet t)) (unat (lo_octet t))"
proof -
  have "unat w = unat (hi_octet w) * 256 + unat (lo_octet w)" for w :: u16
  proof -
    have "unat (hi_octet w) = (unat w div 256) mod 256"
      by (simp add: hi_octet_def unsigned_ucast_eq drop_bit_eq_div unat_div take_bit_eq_mod)
    moreover have "unat (lo_octet w) = unat w mod 256"
      by (simp add: lo_octet_def unsigned_ucast_eq take_bit_eq_mod)
    ultimately show ?thesis using unat_u16 [of w] by simp
  qed
  from this [of s] this [of t] show ?thesis
    by (simp add: seg_val_def horner4_def)
qed

section \<open>Properties\<close>

lemma is_blocked_ref: "is_blocked_ip ip = blocked_ref ip"
proof (cases ip)
  case (V4 a b c d)
  then show ?thesis
    by (simp only: is_blocked_v4_octets blocked_ref.simps ip4_val.simps
        blocked_nets4_octets [OF unat_u8 unat_u8 unat_u8])
next
  case (V6 s0 s1 s2 s3 s4 s5 s6 s7)
  show ?thesis
  proof (cases "in_cidr6 [s0, s1, s2, s3, s4, s5, s6, s7] mapped_net6")
    case True
    then have m: "to_ipv4_mapped ip = Some (hi_octet s6, lo_octet s6, hi_octet s7, lo_octet s7)"
      by (simp add: V6 in_cidr6_mapped)
    show ?thesis
      unfolding V6 is_blocked_ip.simps(2) blocked_ref.simps m [unfolded V6] Let_def if_P [OF True]
        seg_val_octets blocked_nets4_octets [OF unat_u8 unat_u8 unat_u8]
      by (simp add: is_blocked_v4_octets del: is_blocked_ip.simps)
  next
    case False
    then have m: "to_ipv4_mapped ip = None"
      by (simp add: V6 in_cidr6_mapped)
    show ?thesis
      unfolding V6 is_blocked_ip.simps(2) blocked_ref.simps m [unfolded V6] Let_def if_not_P [OF False]
        blocked_nets6_segments v6_is_multicast.simps seg_masks
      by auto
  qed
qed

lemma vet_target_Inr_iff:
  "vet_target dns url = Inr a \<longleftrightarrow>
     (scheme url = ''http'' \<or> scheme url = ''https'') \<and>
     (\<exists>host port rest. host_str url = Some host \<and> port_or_known_default url = Some port \<and>
        dns host port = Inr (a # rest) \<and> list_all (\<lambda>x. \<not> is_blocked_ip (sa_ip x)) (a # rest))"
proof -
  have hit: "\<exists>x\<in>set xs. P x" if "find P xs = Some y" for P y and xs :: "SocketAddr list"
    using that by (metis find_Some_iff nth_mem)
  show ?thesis
    by (auto simp: vet_target_def list_all_iff find_None_iff dest: hit
        split: option.splits sum.splits list.splits if_splits)
qed

lemma vet_target_not_blocked:
  "vet_target dns url = Inr a \<Longrightarrow> \<not> is_blocked_ip (sa_ip a)"
  by (auto simp: vet_target_Inr_iff)

text \<open>A file name that names an entry of the directory it is joined to and nothing else.\<close>

definition plain_name :: "string \<Rightarrow> bool" where
  "plain_name f \<longleftrightarrow> f \<noteq> '''' \<and> f \<noteq> ''.'' \<and> f \<noteq> ''..'' \<and> CHR ''/'' \<notin> set f \<and> bsl \<notin> set f \<and> hd f \<noteq> CHR ''.''"

lemma hd_concat_take:
  assumes "s \<noteq> []" and "0 < n"
  shows "concat (take n (utf8_chars s)) \<noteq> []" and "hd (concat (take n (utf8_chars s))) = hd s"
  using assms by (cases s; cases n; simp)+

lemma set_concat_take: "set (concat (take n (utf8_chars s))) \<subseteq> set s"
  by (metis append_take_drop_id concat_append concat_utf8_chars set_append sup_ge1)

lemma safe_filename_ok:
  "plain_name (safe_filename url) \<and> length (utf8_chars (safe_filename url)) \<le> 128"
proof (cases "\<exists>segs. path_segments url = Some segs \<and> segs \<noteq> [] \<and> safe_filename url \<noteq> ''index.html''")
  case True
  then obtain segs where segs: "path_segments url = Some segs" "segs \<noteq> []" by blast
  let ?c = "last segs"
  from True segs have f: "safe_filename url = concat (take 128 (utf8_chars ?c))"
    and c: "?c \<noteq> ''''" "CHR ''/'' \<notin> set ?c" "bsl \<notin> set ?c" "hd ?c \<noteq> CHR ''.''"
    by (auto simp: safe_filename_def Let_def split: if_splits)
  have "plain_name (safe_filename url)"
    using c hd_concat_take [of ?c 128] set_concat_take [of 128 ?c] f
    by (auto simp: plain_name_def)
  moreover have "length (utf8_chars (safe_filename url)) \<le> 128"
    by (simp add: f utf8_chars_take_concat)
  ultimately show ?thesis by simp
next
  case False
  then have "safe_filename url = ''index.html''"
    by (cases "path_segments url") (auto simp: safe_filename_def)
  then show ?thesis
    by (simp add: plain_name_def utf8_chars_ascii byte_of_def)
qed

lemma plain_safe_filename: "plain_name (safe_filename url)"
  using safe_filename_ok by simp

lemma ellipsis_chars: "utf8_chars ellipsis = [ellipsis]" "valid_char ellipsis"
  by (simp_all add: ellipsis_def is_cont_def in_range_def byte_of_def)

lemma valid_utf8_ellipsis: "valid_utf8 ellipsis"
  by (simp add: valid_utf8_def ellipsis_chars)

lemma take_char_offset: "take (char_offset s n) s = concat (take n (utf8_chars s))"
proof -
  have "s = concat (take n (utf8_chars s)) @ concat (drop n (utf8_chars s))"
    by (metis append_take_drop_id concat_append concat_utf8_chars)
  then show ?thesis
    unfolding char_offset_def by (metis append_eq_conv_conj)
qed

lemma length_valid_char: "valid_char c \<Longrightarrow> length c \<le> 4"
  by (cases c rule: valid_char.cases) auto

lemma length_concat_bound:
  "(\<And>c. c \<in> set cs \<Longrightarrow> length c \<le> k) \<Longrightarrow> length (concat cs) \<le> k * length cs"
  by (induction cs) (auto simp: add_mono)

lemma truncate_credential_chars:
  "utf8_chars (truncate_credential s) =
     (if MAX_CREDENTIAL_LEN < length (utf8_chars s)
      then take MAX_CREDENTIAL_LEN (utf8_chars s) @ [ellipsis] else utf8_chars s)"
proof -
  have "\<not> is_cont (hd ellipsis)" by (simp add: ellipsis_def is_cont_def byte_of_def)
  then show ?thesis
    by (simp add: truncate_credential_def take_char_offset utf8_chars_append utf8_chars_take_concat
        ellipsis_chars)
qed

lemma truncate_credential_valid:
  assumes "valid_utf8 s"
  shows "valid_utf8 (truncate_credential s)"
    and "length (truncate_credential s) \<le> 4 * MAX_CREDENTIAL_LEN + 3"
proof -
  show v: "valid_utf8 (truncate_credential s)"
    using assms valid_utf8_take [OF assms] valid_utf8_ellipsis
    by (auto simp: truncate_credential_def take_char_offset intro: valid_utf8_append)
  have le4: "length c \<le> 4" if "c \<in> set (utf8_chars s)" for c
    using assms that by (auto simp: valid_utf8_def list_all_iff dest: length_valid_char)
  have "length (concat (take MAX_CREDENTIAL_LEN (utf8_chars s))) \<le>
      4 * length (take MAX_CREDENTIAL_LEN (utf8_chars s))"
    by (rule length_concat_bound) (auto dest: in_set_takeD le4)
  moreover have "length (concat (utf8_chars s)) \<le> 4 * length (utf8_chars s)"
    by (rule length_concat_bound) (rule le4)
  ultimately show "length (truncate_credential s) \<le> 4 * MAX_CREDENTIAL_LEN + 3"
    by (auto simp: truncate_credential_def take_char_offset ellipsis_def)
qed

section \<open>Main properties\<close>

text \<open>
  Claim C18: the payload fetcher's address test is exactly membership in the listed special-use
  CIDR blocks: thirteen IPv4 blocks, five IPv6 blocks, and an IPv4-mapped IPv6 address is judged
  by the IPv4 address it embeds. So no spelling of a blocked address passes and no other address
  is refused.
\<close>
theorem is_blocked_eq_cidr: "is_blocked_ip = blocked_ref"
  by (rule ext) (rule is_blocked_ref)

text \<open>
  The guard accepts a URL with the address it will dial exactly when the scheme is
  HTTP(S), host and port are present, name resolution succeeds with that address first, and no
  answer of the resolver lies in a blocked network (a mixed answer is refused as a whole).
\<close>
theorem vet_target_accepts_iff:
  "vet_target dns url = Inr a \<longleftrightarrow>
     (scheme url = ''http'' \<or> scheme url = ''https'') \<and>
     (\<exists>host port rest. host_str url = Some host \<and> port_or_known_default url = Some port \<and>
        dns host port = Inr (a # rest) \<and> list_all (\<lambda>x. \<not> blocked_ref (sa_ip x)) (a # rest))"
  by (simp add: vet_target_Inr_iff is_blocked_ref)

text \<open>
  Whatever the URL, the file name derived from it is one plain path component (not
  empty, not hidden, no separator, never a parent reference) of at most 128 characters.
\<close>
theorem safe_filename_is_plain:
  "plain_name (safe_filename url) \<and> length (utf8_chars (safe_filename url)) \<le> 128"
  by (rule safe_filename_ok)

text \<open>
  A harvested credential is stored unchanged up to 256 characters and otherwise cut
  on a character boundary to its first 256 characters and an ellipsis; valid UTF-8 stays valid
  and takes at most 1027 bytes.
\<close>
theorem truncate_credential_bounded:
  assumes "valid_utf8 s"
  shows "utf8_chars (truncate_credential s) =
      (if 256 < length (utf8_chars s) then take 256 (utf8_chars s) @ [ellipsis] else utf8_chars s)
    \<and> valid_utf8 (truncate_credential s) \<and> length (truncate_credential s) \<le> 1027"
  using truncate_credential_chars [of s] truncate_credential_valid [OF assms]
  by (simp add: MAX_CREDENTIAL_LEN_def)

theorem truncate_credential_bounded_witness:
  "valid_utf8 (replicate 300 (CHR ''a'')) \<and>
   length (utf8_chars (truncate_credential (replicate 300 (CHR ''a'')))) = 257 \<and>
   length (truncate_credential (replicate 300 (CHR ''a''))) \<le> 1027"
proof -
  have v: "valid_utf8 (replicate 300 (CHR ''a''))"
    by (rule valid_utf8_ascii) (simp add: byte_of_def)
  have "length (utf8_chars (replicate 300 (CHR ''a''))) = 300"
    by (simp add: utf8_chars_ascii byte_of_def)
  with truncate_credential_bounded [OF v] v show ?thesis by simp
qed

end
