(* ===== verification/Forensics.thy ===== *)
theory Forensics
  imports Disk
begin

text \<open>
  The forensics engine (\<^verbatim>\<open>crates/aegis-forensics/src/lib.rs\<close>): file magic, printable-string
  extraction, indicators of compromise, quarantine of captured payloads and the walk over a
  torn-down session's upper directory.

  SHA-256 (with its hex encoding) and the regex engine are third-party code and arguments of the
  definitions; a regex is its source text. A \<^verbatim>\<open>HashSet\<close> that is collected into a vector keeps one
  copy of each match, in an order the program does not fix; the model keeps the order of last
  occurrence and no statement depends on it. Events sent to the collector's channel are appended to
  a list; \<open>rx_open\<close> says whether the receiving end is still there.
\<close>

type_synonym sha256_fn = "string \<Rightarrow> string"
type_synonym find_iter_fn = "string \<Rightarrow> string \<Rightarrow> string list"

section \<open>File types\<close>

definition ELF_MAGIC :: string where
  "ELF_MAGIC = [CHR 0x7F] @ ''ELF''"

definition MZ_MAGIC :: string where
  "MZ_MAGIC = ''MZ''"

definition SHEBANG :: string where
  "SHEBANG = ''#!''"

definition detect_file_type :: "string \<Rightarrow> PayloadFileType" where
  "detect_file_type data =
     (if 4 \<le> length data \<and> take 4 data = ELF_MAGIC then Elf
      else if 2 \<le> length data \<and> take 2 data = MZ_MAGIC then Pe
      else if 2 \<le> length data \<and> take 2 data = SHEBANG then Shell
      else Unknown)"

section \<open>Strings\<close>

definition is_printable :: "char \<Rightarrow> bool" where
  "is_printable b \<longleftrightarrow> is_ascii_graphic b \<or> b = CHR '' ''"

text \<open>What is pushed when a run ends.\<close>

definition flush_run :: "nat \<Rightarrow> string \<Rightarrow> string list \<Rightarrow> string list" where
  "flush_run min_len current results =
     (if min_len \<le> length current \<and> valid_utf8 current then results @ [current] else results)"

definition string_step :: "nat \<Rightarrow> string list \<times> string \<Rightarrow> char \<Rightarrow> string list \<times> string" where
  "string_step min_len s byte =
     (case s of (results, current) \<Rightarrow>
        if is_printable byte then (results, current @ [byte])
        else (flush_run min_len current results, []))"

definition extract_strings :: "string \<Rightarrow> nat \<Rightarrow> string list" where
  "extract_strings data min_len =
     (case foldl (string_step min_len) ([], []) data of
        (results, current) \<Rightarrow> flush_run min_len current results)"

section \<open>Indicators of compromise\<close>

definition RE_IPV4 :: string where
  "RE_IPV4 = [bsl] @ ''b(?:'' @ [bsl] @ ''d{1,3}'' @ [bsl] @ ''.){3}'' @ [bsl] @ ''d{1,3}'' @ [bsl] @ ''b''"

definition RE_URL :: string where
  "RE_URL = ''https?://[^'' @ [bsl] @ ''s'' @ [squote] @ ''<>]+''"

definition RE_BASE64 :: string where
  "RE_BASE64 = ''[A-Za-z0-9+/]{32,}={0,2}''"

definition RE_MONERO :: string where
  "RE_MONERO = ''4[0-9AB][1-9A-HJ-NP-Za-km-z]{93}''"

definition extract_iocs :: "find_iter_fn \<Rightarrow> string list \<Rightarrow> IocFindings" where
  "extract_iocs find_iter strings =
     (let haystack = join '' '' strings
      in \<lparr>strings_preview = take 20 strings,
          ip_addresses = remdups (find_iter RE_IPV4 haystack),
          urls = remdups (find_iter RE_URL haystack),
          base64_blobs = take 10 (find_iter RE_BASE64 haystack),
          monero_wallets = find_iter RE_MONERO haystack\<rparr>)"

section \<open>The engine\<close>

definition DEFAULT_MAX_ANALYSIS_BYTES :: nat where
  "DEFAULT_MAX_ANALYSIS_BYTES = 32 * 1024 * 1024"

record ForensicsEngine =
  fe_quarantine_dir :: path
  fe_string_min_len :: nat
  fe_max_analysis_bytes :: nat

definition with_limits :: "path \<Rightarrow> nat \<Rightarrow> nat \<Rightarrow> ForensicsEngine" where
  "with_limits qdir min_len max_bytes =
     \<lparr>fe_quarantine_dir = qdir, fe_string_min_len = min_len, fe_max_analysis_bytes = max_bytes\<rparr>"

definition ForensicsEngine_new :: "path \<Rightarrow> nat \<Rightarrow> ForensicsEngine" where
  "ForensicsEngine_new qdir min_len = with_limits qdir min_len DEFAULT_MAX_ANALYSIS_BYTES"


definition show_path :: "path \<Rightarrow> string" where
  "show_path p = join ''/'' p"

definition captured_event ::
  "sha256_fn \<Rightarrow> find_iter_fn \<Rightarrow> ForensicsEngine \<Rightarrow> DateTime \<Rightarrow> SessionMeta \<Rightarrow> IpAddr \<Rightarrow>
   string option \<Rightarrow> string \<Rightarrow> TelemetryEvent" where
  "captured_event sha256 find_iter eng now meta ip source_url data =
     PayloadCaptured
       \<lparr>pc_timestamp = now, pc_session_id = session_id meta, pc_ip = ip, pc_source_url = source_url,
        pc_sha256 = sha256 data, pc_size_bytes = length data,
        pc_quarantine_path = show_path (fe_quarantine_dir eng @ [sha256 data]),
        pc_file_type = detect_file_type data,
        pc_iocs = extract_iocs find_iter (extract_strings data (fe_string_min_len eng))\<rparr>"

definition is_interesting :: "PayloadFileType \<Rightarrow> bool" where
  "is_interesting t \<longleftrightarrow> t = Elf \<or> t = Shell \<or> t = Pe"

text \<open>The quarantine copy gets the permission bits octal 600, which is 384.\<close>

type_synonym capture_state = "disk \<times> TelemetryEvent list"

definition analyze_file ::
  "sha256_fn \<Rightarrow> find_iter_fn \<Rightarrow> bool \<Rightarrow> ForensicsEngine \<Rightarrow> DateTime \<Rightarrow> SessionMeta \<Rightarrow>
   capture_state \<Rightarrow> path \<Rightarrow> (AegisError + bool) \<times> capture_state" where
  "analyze_file sha256 find_iter rx_open eng now meta s path =
     (case s of (d, evs) \<Rightarrow>
        let declared_size = (case fs_len d path of Some n \<Rightarrow> n | None \<Rightarrow> 0)
        in if fe_max_analysis_bytes eng < declared_size then (Inr False, s)
           else case fs_read d path of
             None \<Rightarrow> (Inl Io, s)
           | Some data \<Rightarrow>
               if data = [] then (Inr False, s)
               else if \<not> is_interesting (detect_file_type data) then (Inr False, s)
               else
                 let qpath = fe_quarantine_dir eng @ [sha256 data]
                 in case fs_write data d qpath of
                      None \<Rightarrow> (Inl Io, s)
                    | Some d1 \<Rightarrow>
                        (case fs_set_permissions 384 d1 qpath of
                           None \<Rightarrow> (Inl Io, (d1, evs))
                         | Some d2 \<Rightarrow>
                             if rx_open
                             then (Inr True, (d2, evs @ [captured_event sha256 find_iter eng now meta
                                                           (client_ip meta) None data]))
                             else (Inl ChannelClosed, (d2, evs))))"

text \<open>\<^verbatim>\<open>WalkDir\<close> over a directory: the regular files at or below it.\<close>

definition walk_files :: "disk \<Rightarrow> path \<Rightarrow> path list" where
  "walk_files d dir =
     map fst (filter (\<lambda>(q, e). prefix dir q \<and> (case e of DFile _ _ \<Rightarrow> True | DDir _ \<Rightarrow> False)) (dentries d))"

definition analyze_upperdir ::
  "sha256_fn \<Rightarrow> find_iter_fn \<Rightarrow> bool \<Rightarrow> ForensicsEngine \<Rightarrow> DateTime \<Rightarrow> SessionMeta \<Rightarrow>
   capture_state \<Rightarrow> path \<Rightarrow> (AegisError + unit) \<times> capture_state" where
  "analyze_upperdir sha256 find_iter rx_open eng now meta s upper_dir =
     (case s of (d, evs) \<Rightarrow>
        case fs_create_dir_all d (fe_quarantine_dir eng) of
          None \<Rightarrow> (Inl Io, s)
        | Some d0 \<Rightarrow>
            (Inr (), foldl (\<lambda>s p. snd (analyze_file sha256 find_iter rx_open eng now meta s p)) (d0, evs)
                       (walk_files d0 upper_dir)))"

definition analyze_payload ::
  "sha256_fn \<Rightarrow> find_iter_fn \<Rightarrow> bool \<Rightarrow> ForensicsEngine \<Rightarrow> DateTime \<Rightarrow> SessionMeta \<Rightarrow>
   capture_state \<Rightarrow> string \<Rightarrow> string option \<Rightarrow> IpAddr \<Rightarrow> (AegisError + string option) \<times> capture_state" where
  "analyze_payload sha256 find_iter rx_open eng now meta s data source_url ip =
     (case s of (d, evs) \<Rightarrow>
        if data = [] then (Inr None, s)
        else case fs_create_dir_all d (fe_quarantine_dir eng) of
          None \<Rightarrow> (Inl Io, s)
        | Some d0 \<Rightarrow>
            (let qpath = fe_quarantine_dir eng @ [sha256 data]
             in case fs_write data d0 qpath of
                  None \<Rightarrow> (Inl Io, (d0, evs))
                | Some d1 \<Rightarrow>
                    (case fs_set_permissions 384 d1 qpath of
                       None \<Rightarrow> (Inl Io, (d1, evs))
                     | Some d2 \<Rightarrow>
                         if rx_open
                         then (Inr (Some (sha256 data)),
                               (d2, evs @ [captured_event sha256 find_iter eng now meta ip source_url data]))
                         else (Inl ChannelClosed, (d2, evs)))))"

section \<open>String extraction\<close>

text \<open>Reference: split at the bytes that are not printable, keep the long pieces.\<close>

fun split_when :: "('a \<Rightarrow> bool) \<Rightarrow> 'a list \<Rightarrow> 'a list list" where
  "split_when P [] = [[]]"
| "split_when P (x # xs) =
     (case split_when P xs of
        [] \<Rightarrow> [[x]]
      | y # ys \<Rightarrow> if P x then [] # y # ys else (x # y) # ys)"

lemma split_when_neq [simp]: "split_when P xs \<noteq> []"
  by (cases xs) (auto split: list.splits)

lemma printable_ascii: "is_printable b \<Longrightarrow> byte_of b < 0x80"
  by (auto simp: is_printable_def is_ascii_graphic_def byte_of_def)

lemma printable_valid: "list_all is_printable s \<Longrightarrow> valid_utf8 s"
  by (rule valid_utf8_ascii) (auto simp: list_all_iff printable_ascii)

lemma string_fold:
  assumes "list_all is_printable cur"
  shows "(case foldl (string_step n) (res, cur) data of (r, c) \<Rightarrow> flush_run n c r) =
    res @ filter (\<lambda>r. n \<le> length r)
      (case split_when (\<lambda>b. \<not> is_printable b) data of [] \<Rightarrow> [cur] | y # ys \<Rightarrow> (cur @ y) # ys)"
  using assms
proof (induction data arbitrary: res cur)
  case Nil
  then show ?case by (auto simp: flush_run_def printable_valid)
next
  case (Cons b data)
  obtain y ys where y: "split_when (\<lambda>b. \<not> is_printable b) data = y # ys"
    by (cases "split_when (\<lambda>b. \<not> is_printable b) data") auto
  show ?case
  proof (cases "is_printable b")
    case True
    then show ?thesis using Cons.IH [of "cur @ [b]" res] Cons.prems y by (simp add: string_step_def)
  next
    case False
    then show ?thesis
      using Cons.IH [of "[]" "flush_run n cur res"] Cons.prems y
      by (auto simp: string_step_def flush_run_def printable_valid)
  qed
qed

text \<open>
  String extraction returns exactly the maximal printable runs of the data that are at
  least as long as asked, in order: the one-pass scanner agrees with splitting at the
  non-printable bytes.
\<close>

theorem extract_strings_eq:
  "extract_strings data n = filter (\<lambda>r. n \<le> length r) (split_when (\<lambda>b. \<not> is_printable b) data)"
  using string_fold [of "[]" n "[]" data]
  by (cases "split_when (\<lambda>b. \<not> is_printable b) data") (auto simp: extract_strings_def)

lemma file_type_magic:
  "(detect_file_type data = Elf \<longleftrightarrow> prefix ELF_MAGIC data) \<and>
   (detect_file_type data = Pe \<longleftrightarrow> prefix MZ_MAGIC data) \<and>
   (detect_file_type data = Shell \<longleftrightarrow> prefix SHEBANG data)"
proof -
  have p: "length m \<le> length data \<and> take (length m) data = m \<longleftrightarrow> prefix m data" for m :: string
    using starts_with_prefix [of m data] by (auto simp: starts_with_def dest: prefix_length_le)
  have "4 \<le> length data \<and> take 4 data = ELF_MAGIC \<longleftrightarrow> prefix ELF_MAGIC data"
    "2 \<le> length data \<and> take 2 data = MZ_MAGIC \<longleftrightarrow> prefix MZ_MAGIC data"
    "2 \<le> length data \<and> take 2 data = SHEBANG \<longleftrightarrow> prefix SHEBANG data"
    using p [of ELF_MAGIC] p [of MZ_MAGIC] p [of SHEBANG]
    by (simp_all add: ELF_MAGIC_def MZ_MAGIC_def SHEBANG_def numeral_eq_Suc)
  then show ?thesis
    by (cases data) (auto simp: detect_file_type_def ELF_MAGIC_def MZ_MAGIC_def SHEBANG_def)
qed

text \<open>
  The file type is read off the leading magic bytes, and data shorter than two bytes is
  never taken for a payload.
\<close>

theorem detect_file_type_iff:
  "(detect_file_type data = Elf \<longleftrightarrow> prefix ELF_MAGIC data) \<and>
   (detect_file_type data = Pe \<longleftrightarrow> prefix MZ_MAGIC data) \<and>
   (detect_file_type data = Shell \<longleftrightarrow> prefix SHEBANG data)"
  by (rule file_type_magic)

section \<open>Nothing of interest is lost\<close>

text \<open>Writing a quarantine copy into an existing quarantine directory succeeds.\<close>

lemma quarantine_ok:
  assumes "disk_wf d" and "is_dir d qdir" and "\<not> is_dir d (qdir @ [h])"
  obtains d1 d2 where "fs_write data d (qdir @ [h]) = Some d1"
    and "fs_set_permissions 384 d1 (qdir @ [h]) = Some d2" and "disk_wf d2"
    and "\<And>q. dlookup d2 q = (if q = qdir @ [h] then Some (DFile 384 data) else dlookup d q)"
proof -
  let ?p = "qdir @ [h]"
  obtain m where w: "fs_write data d ?p = Some (put ?p (DFile m data) d)"
    using assms(2,3) by (auto simp: fs_write_def fs_open_with_def is_dir_def split: option.splits dentry.splits)
  have c: "fs_set_permissions 384 (put ?p (DFile m data) d) ?p =
      Some (put ?p (DFile 384 data) (put ?p (DFile m data) d))"
    by (simp add: fs_set_permissions_def dlookup_put)
  show thesis
  proof (rule that [OF w c])
    show "disk_wf (put ?p (DFile 384 data) (put ?p (DFile m data) d))"
      using write_file.upd_wf [OF assms(1) _ w] set_permissions.upd_wf [OF _ _ c] by simp
  qed (simp add: dlookup_put)
qed

definition wanted :: "ForensicsEngine \<Rightarrow> string \<Rightarrow> bool" where
  "wanted eng data \<longleftrightarrow> length data \<le> fe_max_analysis_bytes eng \<and> is_interesting (detect_file_type data)"

lemma wanted_not_empty: "wanted eng data \<Longrightarrow> data \<noteq> []"
  by (auto simp: wanted_def is_interesting_def detect_file_type_def)

definition qdir_ok :: "ForensicsEngine \<Rightarrow> disk \<Rightarrow> bool" where
  "qdir_ok eng d \<longleftrightarrow> disk_wf d \<and> is_dir d (fe_quarantine_dir eng) \<and>
     (\<forall>h. \<not> is_dir d (fe_quarantine_dir eng @ [h]))"

lemma analyze_file_cases:
  assumes ok: "qdir_ok eng d" and f: "dlookup d p = Some (DFile m c)"
  obtains (skip) "\<not> wanted eng c" "snd (analyze_file sha fi True eng now meta (d, evs) p) = (d, evs)"
  | (keep) d2 where "wanted eng c" "qdir_ok eng d2"
      "snd (analyze_file sha fi True eng now meta (d, evs) p) =
         (d2, evs @ [captured_event sha fi eng now meta (client_ip meta) None c])"
      "\<And>q. dlookup d2 q =
         (if q = fe_quarantine_dir eng @ [sha c] then Some (DFile 384 c) else dlookup d q)"
proof (cases "wanted eng c")
  case False
  have "snd (analyze_file sha fi True eng now meta (d, evs) p) = (d, evs)"
    using False f by (auto simp: analyze_file_def fs_len_def fs_read_def wanted_def)
  with False show thesis by (rule skip)
next
  case True
  let ?q = "fe_quarantine_dir eng"
  from ok have "disk_wf d" "is_dir d ?q" "\<not> is_dir d (?q @ [sha c])" by (auto simp: qdir_ok_def)
  then obtain d1 d2 where d: "fs_write c d (?q @ [sha c]) = Some d1"
    "fs_set_permissions 384 d1 (?q @ [sha c]) = Some d2" "disk_wf d2"
    and look: "\<And>q. dlookup d2 q = (if q = ?q @ [sha c] then Some (DFile 384 c) else dlookup d q)"
    by (rule quarantine_ok [of d ?q "sha c" c]) blast
  have "snd (analyze_file sha fi True eng now meta (d, evs) p) =
      (d2, evs @ [captured_event sha fi eng now meta (client_ip meta) None c])"
    using f d wanted_not_empty [OF True] True
    by (simp add: analyze_file_def fs_len_def fs_read_def wanted_def)
  moreover have "qdir_ok eng d2"
    using ok d(3) look by (auto simp: qdir_ok_def is_dir_def)
  ultimately show thesis using True look by (intro keep)
qed

definition captured :: "sha256_fn \<Rightarrow> find_iter_fn \<Rightarrow> ForensicsEngine \<Rightarrow> DateTime \<Rightarrow> SessionMeta \<Rightarrow> capture_state \<Rightarrow> string \<Rightarrow> bool" where
  "captured sha fi eng now meta s c \<longleftrightarrow>
     dlookup (fst s) (fe_quarantine_dir eng @ [sha c]) = Some (DFile 384 c) \<and>
     captured_event sha fi eng now meta (client_ip meta) None c \<in> set (snd s)"

definition quarantined :: "sha256_fn \<Rightarrow> ForensicsEngine \<Rightarrow> disk \<Rightarrow> string \<Rightarrow> bool" where
  "quarantined sha eng d c \<longleftrightarrow> dlookup d (fe_quarantine_dir eng @ [sha c]) = Some (DFile 384 c)"

lemma captured_iff:
  "captured sha fi eng now meta (d, evs) c \<longleftrightarrow>
     quarantined sha eng d c \<and> captured_event sha fi eng now meta (client_ip meta) None c \<in> set evs"
  by (simp add: captured_def quarantined_def)

lemma analyze_files_capture:
  assumes "qdir_ok eng d"
    and files: "\<And>p. p \<in> set ps \<Longrightarrow> \<exists>m c. dlookup d p = Some (DFile m c)"
    and out: "\<And>p. p \<in> set ps \<Longrightarrow> \<not> prefix (fe_quarantine_dir eng) p"
    and inj: "inj_on sha C" and C: "\<And>p m c. p \<in> set ps \<Longrightarrow> dlookup d p = Some (DFile m c) \<Longrightarrow> c \<in> C"
  shows "\<exists>d' evs'. foldl (\<lambda>s p. snd (analyze_file sha fi True eng now meta s p)) (d, evs) ps = (d', evs') \<and>
    qdir_ok eng d' \<and> set evs \<subseteq> set evs' \<and>
    (\<forall>c \<in> C. quarantined sha eng d c \<longrightarrow> quarantined sha eng d' c) \<and>
    (\<forall>p \<in> set ps. \<forall>m c. dlookup d p = Some (DFile m c) \<longrightarrow> wanted eng c \<longrightarrow>
       captured sha fi eng now meta (d', evs') c)"
  using assms(1-3) C
proof (induction ps arbitrary: d evs)
  case Nil
  then show ?case by simp
next
  case (Cons p ps)
  obtain m c where f: "dlookup d p = Some (DFile m c)" using Cons.prems(2) by fastforce
  have cC: "c \<in> C" using Cons.prems(4) [OF _ f] by simp
  let ?s = "snd (analyze_file sha fi True eng now meta (d, evs) p)"
  obtain d1 evs1 where s1: "?s = (d1, evs1)" by fastforce
  have step: "qdir_ok eng d1 \<and> (\<forall>q. \<not> prefix (fe_quarantine_dir eng) q \<longrightarrow> dlookup d1 q = dlookup d q) \<and>
      set evs \<subseteq> set evs1 \<and> (\<forall>c' \<in> C. quarantined sha eng d c' \<longrightarrow> quarantined sha eng d1 c') \<and>
      (wanted eng c \<longrightarrow> captured sha fi eng now meta (d1, evs1) c)"
    using Cons.prems(1) f
  proof (cases rule: analyze_file_cases [where sha = sha and fi = fi and now = now and meta = meta and evs = evs])
    case skip
    then show ?thesis using s1 Cons.prems(1) by simp
  next
    case (keep d2)
    then have "d1 = d2" "evs1 = evs @ [captured_event sha fi eng now meta (client_ip meta) None c]"
      using s1 by simp_all
    moreover have "sha c' = sha c \<Longrightarrow> c' \<in> C \<Longrightarrow> c' = c" for c'
      using inj cC by (auto dest: inj_onD)
    ultimately show ?thesis
      using keep by (auto simp: captured_def quarantined_def)
  qed
  have files': "\<exists>m c. dlookup d1 q = Some (DFile m c)" "\<not> prefix (fe_quarantine_dir eng) q"
    "dlookup d1 q = dlookup d q" if "q \<in> set ps" for q
    using step Cons.prems(2,3) [of q] that by auto
  have C': "c' \<in> C" if "q \<in> set ps" "dlookup d1 q = Some (DFile m' c')" for q m' c'
    using Cons.prems(4) [of q m' c'] files'(3) [OF that(1)] that by simp
  from step have q1: "qdir_ok eng d1" by blast
  obtain d' evs' where
    F: "foldl (\<lambda>s p. snd (analyze_file sha fi True eng now meta s p)) (d1, evs1) ps = (d', evs')"
    and Q: "qdir_ok eng d'" "set evs1 \<subseteq> set evs'"
    and K: "\<forall>c \<in> C. quarantined sha eng d1 c \<longrightarrow> quarantined sha eng d' c"
    and P: "\<forall>p \<in> set ps. \<forall>m c. dlookup d1 p = Some (DFile m c) \<longrightarrow> wanted eng c \<longrightarrow>
       captured sha fi eng now meta (d', evs') c"
    using Cons.IH [of d1 evs1] q1 files'(1,2) C' by blast
  have "captured sha fi eng now meta (d', evs') c'"
    if "q \<in> set (p # ps)" "dlookup d q = Some (DFile m' c')" "wanted eng c'" for q m' c'
  proof (cases "q = p")
    case True
    then show ?thesis using step K Q(2) f cC that by (auto simp: captured_iff)
  next
    case False
    then show ?thesis using P files'(3) that by simp
  qed
  then show ?case using F Q s1 step K by (auto dest: subsetD)
qed

lemma walk_files_iff:
  assumes "disk_wf d"
  shows "p \<in> set (walk_files d dir) \<longleftrightarrow> prefix dir p \<and> is_file d p"
proof -
  have e: "(p, e) \<in> set (dentries d) \<longleftrightarrow> dlookup d p = Some e \<and> p \<noteq> []" for e
    using assms by (auto simp: disk_wf_def list_all_iff dlookup_def)
  have "p \<in> set (walk_files d dir) \<longleftrightarrow> prefix dir p \<and>
      (\<exists>x. (p, x) \<in> set (dentries d) \<and> (case x of DFile _ _ \<Rightarrow> True | DDir _ \<Rightarrow> False))"
    by (auto simp: walk_files_def image_iff)
  then show ?thesis
    by (auto simp: e is_file_def split: option.splits) (auto simp: dlookup_def)
qed

lemma upperdir_walk:
  assumes wf: "disk_wf d" and mk: "fs_create_dir_all d (fe_quarantine_dir eng) = Some d0"
    and nodir: "\<And>h. \<not> is_dir d (fe_quarantine_dir eng @ [h])"
    and sep: "\<And>q. prefix upper q \<Longrightarrow> is_file d q \<Longrightarrow> \<not> prefix (fe_quarantine_dir eng) q"
    and inj: "inj_on sha C" and C: "\<And>q m c. prefix upper q \<Longrightarrow> dlookup d q = Some (DFile m c) \<Longrightarrow> c \<in> C"
    and run: "analyze_upperdir sha fi True eng now meta (d, evs) upper = (r, d', evs')"
  shows "r = Inr ()" and "qdir_ok eng d'" and "set evs \<subseteq> set evs'"
    and "\<And>c. c \<in> C \<Longrightarrow> quarantined sha eng d c \<Longrightarrow> quarantined sha eng d' c"
    and "\<And>q m c. prefix upper q \<Longrightarrow> dlookup d q = Some (DFile m c) \<Longrightarrow> wanted eng c \<Longrightarrow>
      captured sha fi eng now meta (d', evs') c"
proof -
  let ?q = "fe_quarantine_dir eng"
  note mkspec = create_dir_all_lookup [OF wf mk]
  have dirs: "is_dir d0 p \<Longrightarrow> is_dir d p \<or> prefix p ?q" for p
    using mkspec(2) [of p] by (auto simp: is_dir_def split: if_splits option.splits)
  have qd: "is_dir d0 ?q"
    using create_below_no_file [OF mk [unfolded fs_create_dir_all_def] is_dir_root wf, of ?q] mkspec(2) [of ?q]
    by (auto simp: is_dir_def is_file_def split: option.splits dentry.splits)
  have same: "dlookup d0 p = dlookup d p" if "is_file d p \<or> is_file d0 p" for p
    using mkspec(2) [of p] that by (auto simp: is_file_def split: if_splits option.splits)
  have ok: "qdir_ok eng d0"
    using mkspec(1) qd dirs [of "?q @ [_]"] nodir by (auto simp: qdir_ok_def)
  have files: "prefix upper p \<and> is_file d p" if "p \<in> set (walk_files d0 upper)" for p
    using that same [of p] by (auto simp: walk_files_iff [OF mkspec(1)] is_file_def)
  have files0: "\<exists>m c. dlookup d0 p = Some (DFile m c)" "\<not> prefix ?q p" if "p \<in> set (walk_files d0 upper)" for p
    using files [OF that] sep same [of p] by (auto simp: is_file_def split: option.splits dentry.splits)
  have C0: "c' \<in> C" if "p \<in> set (walk_files d0 upper)" "dlookup d0 p = Some (DFile m' c')" for p m' c'
    using files [OF that(1)] same [of p] that(2) C by metis
  obtain d2 evs2 where
    F: "foldl (\<lambda>s p. snd (analyze_file sha fi True eng now meta s p)) (d0, evs) (walk_files d0 upper) = (d2, evs2)"
    and R: "qdir_ok eng d2" "set evs \<subseteq> set evs2" "\<forall>c \<in> C. quarantined sha eng d0 c \<longrightarrow> quarantined sha eng d2 c"
    and P: "\<forall>p \<in> set (walk_files d0 upper). \<forall>m c. dlookup d0 p = Some (DFile m c) \<longrightarrow> wanted eng c \<longrightarrow>
       captured sha fi eng now meta (d2, evs2) c"
    using analyze_files_capture [of eng d0 "walk_files d0 upper" sha C fi now meta evs] ok files0 inj C0 by blast
  have r: "r = Inr ()" "d' = d2" "evs' = evs2"
    using run F by (simp_all add: analyze_upperdir_def mk)
  show "r = Inr ()" "qdir_ok eng d'" "set evs \<subseteq> set evs'" using r R by simp_all
  show "quarantined sha eng d' c" if "c \<in> C" "quarantined sha eng d c" for c
    using R(3) that same [of "?q @ [sha c]"] by (simp add: r quarantined_def is_file_def)
  show "captured sha fi eng now meta (d', evs') c"
    if "prefix upper q" "dlookup d q = Some (DFile m c)" "wanted eng c" for q m c
  proof -
    have "is_file d q" using that(2) by (simp add: is_file_def)
    then have "q \<in> set (walk_files d0 upper)" "dlookup d0 q = Some (DFile m c)"
      using same [of q] that by (auto simp: walk_files_iff [OF mkspec(1)] is_file_def)
    then show ?thesis using P that(3) by (simp add: r)
  qed
qed

lemma wanted_magic:
  "length c \<le> fe_max_analysis_bytes eng \<Longrightarrow> prefix ELF_MAGIC c \<or> prefix MZ_MAGIC c \<or> prefix SHEBANG c \<Longrightarrow> wanted eng c"
  using file_type_magic [of c] by (auto simp: wanted_def is_interesting_def)

lemma upperdir_capture:
  assumes wf: "disk_wf d" and mk: "fs_create_dir_all d (fe_quarantine_dir eng) = Some d0"
    and nodir: "\<And>h. \<not> is_dir d (fe_quarantine_dir eng @ [h])"
    and sep: "\<And>q. prefix upper q \<Longrightarrow> is_file d q \<Longrightarrow> \<not> prefix (fe_quarantine_dir eng) q"
    and inj: "inj_on sha {c. \<exists>q m. prefix upper q \<and> dlookup d q = Some (DFile m c)}"
    and run: "analyze_upperdir sha fi True eng now meta (d, evs) upper = (r, d', evs')"
    and src: "prefix upper q" "dlookup d q = Some (DFile m c)"
    and size: "length c \<le> fe_max_analysis_bytes eng"
    and magic: "prefix ELF_MAGIC c \<or> prefix MZ_MAGIC c \<or> prefix SHEBANG c"
  shows "r = Inr () \<and> dlookup d' (fe_quarantine_dir eng @ [sha c]) = Some (DFile 384 c) \<and>
    captured_event sha fi eng now meta (client_ip meta) None c \<in> set evs'"
proof -
  have "captured sha fi eng now meta (d', evs') c"
    by (rule upperdir_walk(5) [OF wf mk nodir _ inj _ run src wanted_magic [OF size magic]]) (use sep in blast)+
  moreover have "r = Inr ()"
    by (rule upperdir_walk(1) [OF wf mk nodir _ inj _ run]) (use sep in blast)+
  ultimately show ?thesis by (simp add: captured_def)
qed

text \<open>
  Analysing a torn-down session loses nothing of interest. If the quarantine directory can
  be created, holds no directories and does not contain the session's files, the collector is still
  listening and SHA-256 does not collide on the session's files, then after the walk every file of the
  upper directory that starts with an ELF, MZ or shebang magic and is within the size cap is in
  quarantine under its hash with exactly its contents and mode 600, and its event was emitted.
\<close>
theorem upperdir_capture_complete:
  assumes wf: "disk_wf d" and mk: "fs_create_dir_all d (fe_quarantine_dir eng) = Some d0"
    and nodir: "\<And>h. \<not> is_dir d (fe_quarantine_dir eng @ [h])"
    and sep: "\<And>q. prefix upper q \<Longrightarrow> is_file d q \<Longrightarrow> \<not> prefix (fe_quarantine_dir eng) q"
    and inj: "inj_on sha {c. \<exists>q m. prefix upper q \<and> dlookup d q = Some (DFile m c)}"
    and run: "analyze_upperdir sha fi True eng now meta (d, evs) upper = (r, d', evs')"
    and src: "prefix upper q" "dlookup d q = Some (DFile m c)"
    and size: "length c \<le> fe_max_analysis_bytes eng"
    and magic: "prefix ELF_MAGIC c \<or> prefix MZ_MAGIC c \<or> prefix SHEBANG c"
  shows "r = Inr () \<and> dlookup d' (fe_quarantine_dir eng @ [sha c]) = Some (DFile 384 c) \<and>
    captured_event sha fi eng now meta (client_ip meta) None c \<in> set evs'"
  using assms by (rule upperdir_capture)

definition evidence_disk :: disk where
  "evidence_disk =
     \<lparr>dentries = [([''up''], DDir 493), ([''up'', ''a''], DFile 420 ''#!/bin/sh'')],
      new_file_mode = 420, new_dir_mode = 493\<rparr>"

lemma evidence_lookup:
  "dlookup evidence_disk q =
     (if q = [] \<or> q = [''up''] then Some (DDir 493)
      else if q = [''up'', ''a''] then Some (DFile 420 ''#!/bin/sh'') else None)"
  by (simp add: evidence_disk_def dlookup_def)

theorem upperdir_capture_complete_witness:
  "let r = analyze_upperdir (\<lambda>c. ''h'' @ c) (\<lambda>re s. []) True (with_limits [''quarantine''] 6 4096) 0
       \<lparr>session_id = ''s1'', client_ip = V4 192 0 2 1, client_port = 22, start_ts = 0\<rparr>
       (evidence_disk, []) [''up'']
   in dlookup (fst (snd r)) [''quarantine'', ''h#!/bin/sh''] = Some (DFile 384 ''#!/bin/sh'')"
proof -
  let ?eng = "with_limits [''quarantine''] 6 4096"
  let ?meta = "\<lparr>session_id = ''s1'', client_ip = V4 192 0 2 1, client_port = 22, start_ts = 0\<rparr>"
  let ?sha = "\<lambda>c. ''h'' @ c"
  let ?r = "analyze_upperdir ?sha (\<lambda>re s. []) True ?eng 0 ?meta (evidence_disk, []) [''up'']"
  have q: "fe_quarantine_dir ?eng = [''quarantine'']" "fe_max_analysis_bytes ?eng = 4096"
    by (simp_all add: with_limits_def)
  have wf: "disk_wf evidence_disk"
    by (simp add: disk_wf_def is_dir_def evidence_lookup) (simp add: evidence_disk_def)
  have mk: "fs_create_dir_all evidence_disk (fe_quarantine_dir ?eng) =
      Some (put [''quarantine''] (DDir (new_dir_mode evidence_disk)) evidence_disk)"
    by (simp add: q fs_create_dir_all_def is_dir_def path_exists_def evidence_lookup dlookup_put)
  have "fst ?r = Inr () \<and> dlookup (fst (snd ?r)) (fe_quarantine_dir ?eng @ [?sha ''#!/bin/sh'']) =
      Some (DFile 384 ''#!/bin/sh'') \<and>
      captured_event ?sha (\<lambda>re s. []) ?eng 0 ?meta (client_ip ?meta) None ''#!/bin/sh'' \<in> set (snd (snd ?r))"
    by (rule upperdir_capture_complete [OF wf mk, where upper = "[''up'']" and q = "[''up'', ''a'']" and m = 420 and evs = "[]"])
       (auto simp: q is_dir_def is_file_def evidence_lookup inj_on_def SHEBANG_def split: if_splits)
  then show ?thesis by (simp add: q Let_def)
qed

end
