(* ===== verification/Payload_Fetch.thy ===== *)
theory Payload_Fetch
  imports Ssrf_Guard Forensics
begin

text \<open>
  The payload fetcher (\<^verbatim>\<open>fetch_payload_blocking\<close> and \<^verbatim>\<open>extract_iocs_from_bytes\<close> in
  \<^verbatim>\<open>crates/aegis-gateway/src/handler.rs\<close>): what the gateway downloads when an attacker types
  \<^verbatim>\<open>wget\<close> or \<^verbatim>\<open>curl\<close>, and where it puts it.

  URL parsing, name resolution and the HTTP client are third-party code and arguments. The client is
  built with redirects switched off and pinned to one address, so a request is a function of that
  address, the host and the URL: it fails, or gives the advertised length and what the successive
  reads of the body return.
\<close>

section \<open>Definitions\<close>

datatype read_result = ReadOk string | ReadErr

record http_response =
  content_length :: "nat option"
  reads :: "read_result list"

type_synonym http_client = "SocketAddr \<Rightarrow> string \<Rightarrow> Url \<Rightarrow> http_response option"

text \<open>The read loop; an exhausted list is the end of the stream.\<close>

fun read_body :: "nat \<Rightarrow> string \<Rightarrow> read_result list \<Rightarrow> string" where
  "read_body cap body [] = body"
| "read_body cap body (ReadErr # rs) = body"
| "read_body cap body (ReadOk bs # rs) =
     (if bs = [] then body
      else let remaining = cap - length body
           in if remaining \<le> length bs then body @ take remaining bs
              else read_body cap (body @ bs) rs)"

definition extract_iocs_from_bytes :: "find_iter_fn \<Rightarrow> string \<Rightarrow> IocFindings" where
  "extract_iocs_from_bytes find_iter data =
     (let haystack = map (\<lambda>b. if is_ascii_graphic b \<or> b = CHR '' '' then b else CHR '' '') data
      in \<lparr>strings_preview = [],
          ip_addresses = remdups (find_iter RE_IPV4 haystack),
          urls = remdups (find_iter RE_URL haystack),
          base64_blobs = [], monero_wallets = []\<rparr>)"

type_synonym payload_info = "string \<times> nat \<times> string \<times> IocFindings"

text \<open>What is done with a response that was received.\<close>

definition store_payload ::
  "sha256_fn \<Rightarrow> find_iter_fn \<Rightarrow> disk \<Rightarrow> string \<Rightarrow> Url \<Rightarrow> path \<Rightarrow> path option \<Rightarrow> string \<Rightarrow>
   string \<times> payload_info option \<times> disk" where
  "store_payload sha256 find_iter d url parsed qdir mount_root body =
     (let size_bytes = length body;
          size_kb = size_bytes div 1024;
          h = sha256 body;
          qpath = qdir @ [h];
          d1 = (case fs_write body d qpath of
                  Some d' \<Rightarrow> ignore (fs_set_permissions 384) d' qpath
                | None \<Rightarrow> d);
          d2 = (case mount_root of
                  Some mount \<Rightarrow> ignore (fs_write body) d1 (mount @ [''root'', safe_filename parsed])
                | None \<Rightarrow> d1)
      in (fake_wget_progress url size_kb,
          Some (h, size_bytes, show_path qpath, extract_iocs_from_bytes find_iter body), d2))"

definition fetch_payload_blocking ::
  "(string \<Rightarrow> Url option) \<Rightarrow> resolver \<Rightarrow> http_client \<Rightarrow> sha256_fn \<Rightarrow> find_iter_fn \<Rightarrow> disk \<Rightarrow> string \<Rightarrow>
   path \<Rightarrow> path option \<Rightarrow> nat \<Rightarrow> string \<times> payload_info option \<times> disk" where
  "fetch_payload_blocking url_parse dns http sha256 find_iter d url qdir mount_root max_bytes =
     (let decoy = (fake_wget_progress url 64, None, d)
      in case url_parse url of
           None \<Rightarrow> decoy
         | Some parsed \<Rightarrow>
             (case vet_target dns parsed of
                Inl reason \<Rightarrow> decoy
              | Inr target \<Rightarrow>
                  (case host_str parsed of
                     None \<Rightarrow> decoy
                   | Some host \<Rightarrow>
                       (case http target host parsed of
                          None \<Rightarrow> decoy
                        | Some resp \<Rightarrow>
                            if (case content_length resp of Some len \<Rightarrow> max_bytes < len | None \<Rightarrow> False)
                            then decoy
                            else store_payload sha256 find_iter d url parsed qdir mount_root
                                   (read_body max_bytes [] (reads resp))))))"

section \<open>The interface of the vetting step\<close>

locale vetting =
  fixes vet :: "Url \<Rightarrow> 'e + SocketAddr"
  assumes vet_not_blocked: "vet u = Inr a \<Longrightarrow> \<not> is_blocked_ip (sa_ip a)"
begin

text \<open>Whatever is done with the vetted address does not depend on what happens at blocked ones.\<close>

lemma vetted_cong:
  assumes "\<And>a. \<not> is_blocked_ip (sa_ip a) \<Longrightarrow> f a = g a"
  shows "(case vet u of Inl e \<Rightarrow> k e | Inr a \<Rightarrow> f a) = (case vet u of Inl e \<Rightarrow> k e | Inr a \<Rightarrow> g a)"
  using assms vet_not_blocked by (cases "vet u") auto

end

interpretation ssrf_guard: vetting "vet_target dns" for dns
  by unfold_locales (rule vet_target_not_blocked)

section \<open>Properties\<close>

text \<open>Reference: the bytes up to the first end or error of the stream.\<close>

fun stream_bytes :: "read_result list \<Rightarrow> string" where
  "stream_bytes [] = []"
| "stream_bytes (ReadErr # rs) = []"
| "stream_bytes (ReadOk bs # rs) = (if bs = [] then [] else bs @ stream_bytes rs)"

lemma read_body_take:
  "length body \<le> cap \<Longrightarrow> read_body cap body rs = take cap (body @ stream_bytes rs)"
proof (induction cap body rs rule: read_body.induct)
  case (3 cap body bs rs)
  then show ?case by (cases "cap - length body \<le> length bs") (auto simp: Let_def)
qed simp_all

text \<open>
  The download loop keeps exactly the first \<open>cap\<close> bytes of what the server sends before it
  ends or fails, however the reads are split: never more than the cap, and never less than what fits.
\<close>

theorem read_body_is_prefix: "read_body cap [] rs = take cap (stream_bytes rs)"
  using read_body_take [of "[]" cap rs] by simp

text \<open>
  Claim C19: the fetcher never contacts a blocked address: two networks that behave alike at every
  address outside the blocked blocks give the same transcript, the same capture and the same disk,
  whatever the URL, the resolver's answers and the behaviour of the blocked hosts are.
\<close>

theorem fetch_ignores_blocked_hosts:
  assumes "\<And>a h u. \<not> blocked_ref (sa_ip a) \<Longrightarrow> http1 a h u = http2 a h u"
  shows "fetch_payload_blocking url_parse dns http1 sha fi d url qdir mount max_bytes =
    fetch_payload_blocking url_parse dns http2 sha fi d url qdir mount max_bytes"
proof -
  have "http1 a h u = http2 a h u" if "\<not> is_blocked_ip (sa_ip a)" for a h u
    using assms that by (simp add: is_blocked_ref del: blocked_ref.simps is_blocked_ip.simps)
  then show ?thesis
    unfolding fetch_payload_blocking_def Let_def
    by (intro option.case_cong refl ssrf_guard.vetted_cong) simp
qed

definition metadata_url :: Url where
  "metadata_url = \<lparr>scheme = ''http'', host_str = Some ''m'', port_or_known_default = Some 80, path_segments = None\<rparr>"

definition metadata_host :: http_client where
  "metadata_host a h u =
     (if sa_ip a = V4 169 254 169 254
      then Some \<lparr>content_length = None, reads = [ReadOk ''secret'']\<rparr> else None)"

theorem fetch_ignores_blocked_hosts_witness:
  "fetch_payload_blocking (\<lambda>s. Some metadata_url)
     (\<lambda>h p. Inr [\<lparr>sa_ip = V4 169 254 169 254, sa_port = 80\<rparr>]) metadata_host
     (\<lambda>c. c) (\<lambda>re s. []) evidence_disk ''http://m/'' [''q''] None 100 =
   fetch_payload_blocking (\<lambda>s. Some metadata_url)
     (\<lambda>h p. Inr [\<lparr>sa_ip = V4 169 254 169 254, sa_port = 80\<rparr>]) (\<lambda>a h u. None)
     (\<lambda>c. c) (\<lambda>re s. []) evidence_disk ''http://m/'' [''q''] None 100"
proof (rule fetch_ignores_blocked_hosts)
  fix a :: SocketAddr and h u
  assume "\<not> blocked_ref (sa_ip a)"
  moreover have "blocked_ref (V4 169 254 169 254)"
    by (simp add: blocked_nets4_def horner4_def)
  ultimately have "sa_ip a \<noteq> V4 169 254 169 254" by metis
  then show "metadata_host a h u = None" by (simp add: metadata_host_def)
qed

lemma write_other:
  "fs_write b d1 p = Some d2 \<Longrightarrow> p \<noteq> [] \<Longrightarrow> q \<noteq> p \<Longrightarrow> dlookup d2 q = dlookup d1 q"
  by (auto simp: fs_write_def fs_open_with_def dlookup_put split: option.splits dentry.splits if_splits)

lemma ignore_write_other: "p \<noteq> [] \<Longrightarrow> q \<noteq> p \<Longrightarrow> dlookup (ignore (fs_write b) d1 p) q = dlookup d1 q"
  by (auto simp: ignore_def split: option.splits dest: write_other)

lemma store_payload_frame:
  assumes "store_payload sha fi d url parsed qdir mount body = (out, info, d')"
    and "q \<noteq> qdir @ [sha body]" and "\<And>m. mount = Some m \<Longrightarrow> q \<noteq> m @ [''root'', safe_filename parsed]"
  shows "dlookup d' q = dlookup d q"
proof -
  have perm: "dlookup (ignore (fs_set_permissions 384) d1 p) q = dlookup d1 q" if "q \<noteq> p" for d1 p
    using that by (auto simp: ignore_def fs_set_permissions_def dlookup_put split: option.splits)
  show ?thesis
    using assms perm
    by (auto simp: store_payload_def Let_def ignore_write_other split: option.splits dest: write_other)
qed

text \<open>
  A fetch changes at most two files: the quarantine copy named by the hash of the body, and
  a plainly named entry of \<^verbatim>\<open>/root\<close> in the session's mount. Everything else on the disk stays as it
  was.
\<close>

theorem fetch_writes_two_files:
  assumes "fetch_payload_blocking url_parse dns http sha fi d url qdir mount max_bytes = (out, info, d')"
    and "\<And>h. q \<noteq> qdir @ [h]" and "\<And>m f. mount = Some m \<Longrightarrow> plain_name f \<Longrightarrow> q \<noteq> m @ [''root'', f]"
  shows "dlookup d' q = dlookup d q"
proof -
  have "dlookup d' q = dlookup d q"
    if "store_payload sha fi d url parsed qdir mount body = (out, info, d')" for parsed body
    using store_payload_frame [OF that] assms(2,3) plain_safe_filename [of parsed] by blast
  then show ?thesis
    using assms(1) by (auto simp: fetch_payload_blocking_def Let_def split: option.splits sum.splits if_splits)
qed

theorem fetch_writes_two_files_witness:
  "dlookup (snd (snd (fetch_payload_blocking (\<lambda>s. Some metadata_url)
     (\<lambda>h p. Inr [\<lparr>sa_ip = V4 8 8 8 8, sa_port = 80\<rparr>]) metadata_host
     (\<lambda>c. c) (\<lambda>re s. []) evidence_disk ''http://m/'' [''q''] (Some [''mnt'']) 6))) [''up'', ''a''] =
   Some (DFile 420 ''#!/bin/sh'')"
    (is "dlookup (snd (snd ?r)) _ = _")
proof -
  have "?r = (fst ?r, fst (snd ?r), snd (snd ?r))" by simp
  from fetch_writes_two_files [OF this, of "[''up'', ''a'']"]
  have "dlookup (snd (snd ?r)) [''up'', ''a''] = dlookup evidence_disk [''up'', ''a'']" by simp
  then show ?thesis by (simp add: evidence_lookup)
qed

text \<open>
  Claim C20: what is captured is the beginning of what the server sent, and is described correctly. A capture
  means that the URL parsed, its host was vetted and answered at the vetted address, and did not declare more
  than the cap; with the response's body up to its end, its first error or the cap, the reported size is the
  body's length, the hash the body's, the path the hash's in the quarantine, the indicators those of the
  body, and where the quarantine directory exists the file there holds exactly the body, with mode 0600.
\<close>

theorem fetch_capture_bounded:
  assumes "fetch_payload_blocking url_parse dns http sha fi d url qdir mount max_bytes =
    (out, Some (h, sz, qpath, iocs), d')"
  shows "\<exists>parsed target host resp.
    url_parse url = Some parsed \<and> vet_target dns parsed = Inr target \<and> host_str parsed = Some host \<and>
    http target host parsed = Some resp \<and> (\<forall>n. content_length resp = Some n \<longrightarrow> n \<le> max_bytes) \<and>
    (let body = take max_bytes (stream_bytes (reads resp))
     in sz = length body \<and> h = sha body \<and> qpath = show_path (qdir @ [h]) \<and> iocs = extract_iocs_from_bytes fi body \<and>
        (is_dir d qdir \<and> \<not> is_dir d (qdir @ [h]) \<and> (\<forall>m f. mount = Some m \<longrightarrow> m @ [''root'', f] \<noteq> qdir @ [h]) \<longrightarrow>
           dlookup d' (qdir @ [h]) = Some (DFile 384 body)))"
proof -
  from assms obtain parsed target host resp where
    net: "url_parse url = Some parsed" "vet_target dns parsed = Inr target" "host_str parsed = Some host"
      "http target host parsed = Some resp" "\<forall>n. content_length resp = Some n \<longrightarrow> n \<le> max_bytes"
    and s0: "store_payload sha fi d url parsed qdir mount (read_body max_bytes [] (reads resp)) = (out, Some (h, sz, qpath, iocs), d')"
    by (auto simp: fetch_payload_blocking_def Let_def not_less split: option.splits sum.splits if_splits)
  let ?b = "take max_bytes (stream_bytes (reads resp))"
  have s: "store_payload sha fi d url parsed qdir mount ?b = (out, Some (h, sz, qpath, iocs), d')"
    using s0 read_body_take [of "[]" max_bytes "reads resp"] by simp
  have info: "h = sha ?b" "sz = length ?b" "qpath = show_path (qdir @ [h])" "iocs = extract_iocs_from_bytes fi ?b"
    using s by (auto simp: store_payload_def Let_def)
  have "dlookup d' (qdir @ [h]) = Some (DFile 384 ?b)"
    if q: "is_dir d qdir" "\<not> is_dir d (qdir @ [h])" "\<forall>m f. mount = Some m \<longrightarrow> m @ [''root'', f] \<noteq> qdir @ [h]"
  proof -
    obtain m where "fs_write ?b d (qdir @ [h]) = Some (put (qdir @ [h]) (DFile m ?b) d)"
      using q(1,2) by (auto simp: fs_write_def fs_open_with_def is_dir_def split: option.splits dentry.splits)
    moreover have "dlookup (ignore (fs_write ?b) d1 (m @ [''root'', f])) (qdir @ [h]) = dlookup d1 (qdir @ [h])"
      if "mount = Some m" for m f d1
      by (rule ignore_write_other) (use q(3) that in fastforce)+
    ultimately show ?thesis
      using s unfolding info(1)
      by (auto simp: store_payload_def Let_def ignore_def [of "fs_set_permissions 384"] fs_set_permissions_def
          dlookup_put split: option.splits)
  qed
  then show ?thesis
    using net info
    by (intro exI [of _ parsed] exI [of _ target] exI [of _ host] exI [of _ resp]) (simp add: Let_def)
qed

definition payload_host :: http_client where
  "payload_host a h u = Some \<lparr>content_length = None, reads = [ReadOk ''#!/bin'', ReadOk ''/sh'']\<rparr>"

lemma payload_fetched:
  "\<exists>out iocs d'. fetch_payload_blocking (\<lambda>s. Some metadata_url)
     (\<lambda>h p. Inr [\<lparr>sa_ip = V4 8 8 8 8, sa_port = 80\<rparr>]) payload_host
     (\<lambda>c. c) (\<lambda>re s. []) evidence_disk ''http://m/'' [''up''] None 6 =
     (out, Some (''#!/bin'', 6, ''up/#!/bin'', iocs), d')"
  by (simp add: fetch_payload_blocking_def vet_target_def metadata_url_def payload_host_def store_payload_def
      show_path_def Let_def)

theorem fetch_capture_bounded_witness:
  "\<exists>out iocs d'. fetch_payload_blocking (\<lambda>s. Some metadata_url)
     (\<lambda>h p. Inr [\<lparr>sa_ip = V4 8 8 8 8, sa_port = 80\<rparr>]) payload_host
     (\<lambda>c. c) (\<lambda>re s. []) evidence_disk ''http://m/'' [''up''] None 6 =
     (out, Some (''#!/bin'', 6, ''up/#!/bin'', iocs), d') \<and>
     dlookup d' [''up'', ''#!/bin''] = Some (DFile 384 ''#!/bin'')"
proof -
  from payload_fetched obtain out iocs d' where
    f: "fetch_payload_blocking (\<lambda>s. Some metadata_url)
     (\<lambda>h p. Inr [\<lparr>sa_ip = V4 8 8 8 8, sa_port = 80\<rparr>]) payload_host
     (\<lambda>c. c) (\<lambda>re s. []) evidence_disk ''http://m/'' [''up''] None 6 =
     (out, Some (''#!/bin'', 6, ''up/#!/bin'', iocs), d')" by blast
  have "is_dir evidence_disk [''up'']" "\<not> is_dir evidence_disk [''up'', ''#!/bin'']"
    by (simp_all add: is_dir_def evidence_lookup)
  then show ?thesis using fetch_capture_bounded [OF f] f by (auto simp: payload_host_def Let_def)
qed

text \<open>
  A refused fetch (unparsable URL, forbidden scheme, unresolvable or blocked host) is
  indistinguishable for the attacker from a download of 64 KiB, captures nothing and leaves the disk
  alone.
\<close>

theorem fetch_refusal_is_silent:
  assumes "\<And>u. url_parse url = Some u \<Longrightarrow> \<exists>e. vet_target dns u = Inl e"
  shows "fetch_payload_blocking url_parse dns http sha fi d url qdir mount max_bytes =
    (fake_wget_progress url 64, None, d)"
  using assms by (auto simp: fetch_payload_blocking_def Let_def split: option.splits)

theorem fetch_refusal_is_silent_witness:
  "fetch_payload_blocking (\<lambda>s. Some metadata_url)
     (\<lambda>h p. Inr [\<lparr>sa_ip = V4 169 254 169 254, sa_port = 80\<rparr>]) metadata_host
     (\<lambda>c. c) (\<lambda>re s. []) evidence_disk ''http://m/'' [''q''] None 100 =
   (fake_wget_progress ''http://m/'' 64, None, evidence_disk)"
  by (rule fetch_refusal_is_silent) (auto simp: vet_target_def metadata_url_def)

end
