(* ===== verification/Collector.thy ===== *)
theory Collector
  imports Disk
begin

text \<open>
  The event pipeline (\<^verbatim>\<open>crates/aegis-collector/src/lib.rs\<close>): the console sanitizer, the event log
  \<^verbatim>\<open>attacks.json\<close> with its rotation, and the per-session recorder of Asciinema cast files.

  \<^verbatim>\<open>serde_json\<close> is third-party code: serialisation is an argument. The collector flushes its writer
  after every event, so a line is appended to the file at once. The recorder keeps what it has
  accepted since the last flush in a buffer; \<^verbatim>\<open>BufWriter\<close> may write a prefix of it out earlier, which
  no statement below depends on: they speak of the file after a flush. An operation reads the clock
  once, as an argument in nanoseconds; seconds are rational numbers.
\<close>

section \<open>Limits\<close>

definition MAX_LOG_BYTES :: nat where
  "MAX_LOG_BYTES = 256 * 1024 * 1024"

definition LOG_GENERATIONS :: nat where
  "LOG_GENERATIONS = 4"

definition MAX_CAST_BYTES :: nat where
  "MAX_CAST_BYTES = 32 * 1024 * 1024"

text \<open>Octal 600.\<close>

definition SENSITIVE_MODE :: nat where
  "SENSITIVE_MODE = 384"

section \<open>Console output\<close>

text \<open>\<^verbatim>\<open>{b:02x}\<close> of a byte.\<close>

definition hex_byte :: "char \<Rightarrow> string" where
  "hex_byte b = [hex_digit (byte_of b div 16), hex_digit (byte_of b mod 16)]"

definition sanitize_char :: "string \<Rightarrow> string" where
  "sanitize_char c =
     (if c = [bsl] then [bsl, bsl]
      else if is_control c then concat (map (\<lambda>b. [bsl] @ ''x'' @ hex_byte b) c)
      else c)"

definition sanitize :: "string \<Rightarrow> string" where
  "sanitize s = concat (map sanitize_char (utf8_chars s))"

text \<open>\<^verbatim>\<open>{:.1}\<close> of a non-negative number: the exact value rounded half to even.\<close>

definition round_half_even :: "rat \<Rightarrow> int" where
  "round_half_even x =
     (let f = \<lfloor>x\<rfloor>; r = x - of_int f
      in if r < 1 / 2 then f else if 1 / 2 < r then f + 1 else if even f then f else f + 1)"

definition show_fixed1 :: "rat \<Rightarrow> string" where
  "show_fixed1 x = (let n = nat (round_half_even (x * 10)) in show_nat (n div 10) @ ''.'' @ show_nat (n mod 10))"

definition coloured :: "string \<Rightarrow> string \<Rightarrow> string" where
  "coloured code body = [esc] @ ''['' @ code @ ''m'' @ body @ [esc] @ ''[0m'' @ nl"

fun print_event :: "TelemetryEvent \<Rightarrow> string" where
  "print_event (CredentialHarvest e) =
     coloured ''93''
       (''[!] CRED: '' @ show_ip (ch_ip e) @ '' | '' @ sanitize (ch_username e) @ '':''
        @ sanitize (case ch_password e of Some pw \<Rightarrow> pw | None \<Rightarrow> ''<none>''))"
| "print_event (CommandRun e) =
     coloured ''96''
       (''[CMD] ['' @ show_ip (cr_ip e) @ ''|'' @ cr_session_id e @ '']: '' @ sanitize (cr_command e))"
| "print_event (PayloadCaptured e) =
     coloured ''91''
       (''[PAYLOAD] '' @ show_ip (pc_ip e) @ '' -> '' @ concat (take 16 (utf8_chars (pc_sha256 e)))
        @ '' ('' @ show_nat (pc_size_bytes e) @ '' bytes) -> '' @ sanitize (pc_quarantine_path e))"
| "print_event (SessionStart e) =
     coloured ''92'' (''[SESSION START] '' @ show_ip (ss_ip e) @ '' -> '' @ ss_session_id e)"
| "print_event (SessionEnd e) =
     coloured ''90'' (''[SESSION END] '' @ se_session_id e @ '' ('' @ show_fixed1 (se_duration_secs e) @ ''s)'')"
| "print_event (SyscallExecve e) =
     coloured ''35''
       (''[EXECVE] pid='' @ show_nat (unat (sx_pid e)) @ '' '' @ sanitize (sx_filename e) @ '' ''
        @ sanitize (join '' '' (sx_argv e)))"
| "print_event (SyscallConnect e) =
     coloured ''35''
       (''[CONNECT] pid='' @ show_nat (unat (sc_pid e)) @ '' -> '' @ show_ip (sc_dest_ip e) @ '':''
        @ show_nat (unat (sc_dest_port e)))"
| "print_event (SyscallMemfdCreate e) =
     coloured ''31''
       (''[MEMFD] pid='' @ show_nat (unat (sm_pid e)) @ '' name='' @ [squote] @ sanitize (sm_name e) @ [squote]
        @ '' -- fileless ELF!'')"

section \<open>The event channel\<close>

text \<open>Sending after the collector is gone drops the event.\<close>

definition event_send :: "bool \<Rightarrow> TelemetryEvent list \<Rightarrow> TelemetryEvent \<Rightarrow> TelemetryEvent list" where
  "event_send rx_open evs e = (if rx_open then evs @ [e] else evs)"

section \<open>The event log\<close>

text \<open>The directory of the recordings is accepted and not used; the channel is given by its capacity.\<close>

record EventCollector =
  ec_capacity :: nat
  ec_log_path :: path

definition EventCollector_new :: "path \<Rightarrow> path \<Rightarrow> nat \<Rightarrow> EventCollector" where
  "EventCollector_new log_path sessions_path channel_capacity =
     \<lparr>ec_capacity = channel_capacity, ec_log_path = log_path\<rparr>"

definition open_log :: "disk \<Rightarrow> path \<Rightarrow> (nat \<times> disk) option" where
  "open_log d p =
     (case fs_open_with SENSITIVE_MODE (\<lambda>c. c) d p of
        None \<Rightarrow> None
      | Some d1 \<Rightarrow>
          (let d2 = ignore (fs_set_permissions SENSITIVE_MODE) d1 p
           in Some (case fs_len d2 p of Some n \<Rightarrow> n | None \<Rightarrow> 0, d2)))"

definition gen_path :: "path \<Rightarrow> nat \<Rightarrow> path" where
  "gen_path p n = butlast p @ [last p @ ''.'' @ show_nat n]"

definition shift_gen :: "disk \<Rightarrow> path \<Rightarrow> path \<Rightarrow> disk" where
  "shift_gen d from to =
     (if path_exists d from then (case fs_rename d from to of Some d' \<Rightarrow> d' | None \<Rightarrow> d) else d)"

definition rotate_log :: "disk \<Rightarrow> path \<Rightarrow> (AegisError + unit) \<times> disk" where
  "rotate_log d p =
     (let d1 = ignore fs_remove_file d (gen_path p LOG_GENERATIONS);
          d2 = foldl (\<lambda>d n. shift_gen d (gen_path p n) (gen_path p (n + 1))) d1 (rev [1..<LOG_GENERATIONS])
      in case fs_rename d2 p (gen_path p 1) of
           None \<Rightarrow> (Inl Io, d2)
         | Some d3 \<Rightarrow> (Inr (), d3))"

type_synonym json_fn = "TelemetryEvent \<Rightarrow> string option"

record collector_state =
  log_written :: nat
  cdisk :: disk
  console :: string

definition collect_event ::
  "json_fn \<Rightarrow> path \<Rightarrow> collector_state \<Rightarrow> TelemetryEvent \<Rightarrow> (AegisError + unit) \<times> collector_state" where
  "collect_event to_json p s0 event =
     (let s = s0\<lparr>console := console s0 @ print_event event\<rparr>
      in case to_json event of
           None \<Rightarrow> (Inr (), s)
         | Some line \<Rightarrow>
             (let s1 = s\<lparr>cdisk := ignore (fs_append (line @ nl)) (cdisk s) p,
                         log_written := log_written s + length line + 1\<rparr>
              in if log_written s1 < MAX_LOG_BYTES then (Inr (), s1)
                 else let d2 = snd (rotate_log (cdisk s1) p)
                      in case open_log d2 p of
                           None \<Rightarrow> (Inl Io, s1\<lparr>cdisk := d2\<rparr>)
                         | Some (n, d3) \<Rightarrow> (Inr (), s1\<lparr>cdisk := d3, log_written := n\<rparr>)))"

text \<open>The receive loop, over the events received until the channel closes.\<close>

fun collect ::
  "json_fn \<Rightarrow> path \<Rightarrow> collector_state \<Rightarrow> TelemetryEvent list \<Rightarrow> (AegisError + unit) \<times> collector_state" where
  "collect to_json p s [] = (Inr (), s)"
| "collect to_json p s (e # es) =
     (case collect_event to_json p s e of
        (Inl err, s') \<Rightarrow> (Inl err, s')
      | (Inr _, s') \<Rightarrow> collect to_json p s' es)"

definition run_collector ::
  "json_fn \<Rightarrow> path \<Rightarrow> disk \<Rightarrow> TelemetryEvent list \<Rightarrow> (AegisError + unit) \<times> collector_state" where
  "run_collector to_json p d events =
     (let fail = (\<lambda>d. (Inl Io, \<lparr>log_written = 0, cdisk = d, console = ''''\<rparr>))
      in case (case path_parent p of Some parent \<Rightarrow> fs_create_dir_all d parent | None \<Rightarrow> Some d) of
           None \<Rightarrow> fail d
         | Some d0 \<Rightarrow>
             (case open_log d0 p of
                None \<Rightarrow> fail d0
              | Some (n, d1) \<Rightarrow> collect to_json p \<lparr>log_written = n, cdisk = d1, console = ''''\<rparr> events))"

section \<open>The session recorder\<close>

type_synonym record_json_fn = "rat \<Rightarrow> string \<Rightarrow> string \<Rightarrow> string"

record SessionRecorder =
  rec_session_id :: SessionId
  rec_path :: path
  rec_buffer :: string
  rec_start_ts :: nat
  rec_written :: nat
  rec_truncated :: bool

text \<open>Pushing the buffered bytes to the file.\<close>

definition rec_flush :: "SessionRecorder \<Rightarrow> disk \<Rightarrow> SessionRecorder \<times> disk" where
  "rec_flush r d = (r\<lparr>rec_buffer := []\<rparr>, ignore (fs_append (rec_buffer r)) d (rec_path r))"

text \<open>The header line is the JSON object of the fixed geometry, the time and the title.\<close>

definition recorder_title :: "SessionId \<Rightarrow> string" where
  "recorder_title sid = ''aegis-honeypot session '' @ sid"

definition recorder_open ::
  "(nat \<Rightarrow> string \<Rightarrow> string) \<Rightarrow> nat \<Rightarrow> nat \<Rightarrow> disk \<Rightarrow> path \<Rightarrow> SessionId \<Rightarrow>
   (AegisError + SessionRecorder) \<times> disk" where
  "recorder_open header_json unix_ts now d p sid =
     (case (case path_parent p of Some parent \<Rightarrow> fs_create_dir_all d parent | None \<Rightarrow> Some d) of
        None \<Rightarrow> (Inl Io, d)
      | Some d0 \<Rightarrow>
          (case fs_open_with SENSITIVE_MODE (\<lambda>_. []) d0 p of
             None \<Rightarrow> (Inl Io, d0)
           | Some d1 \<Rightarrow>
               (let d2 = ignore (fs_set_permissions SENSITIVE_MODE) d1 p;
                    header_str = header_json unix_ts (recorder_title sid) @ nl;
                    d3 = ignore (fs_append header_str) d2 p
                in (Inr \<lparr>rec_session_id = sid, rec_path = p, rec_buffer = [], rec_start_ts = now,
                         rec_written = length header_str, rec_truncated = False\<rparr>, d3))))"

definition rec_elapsed :: "SessionRecorder \<Rightarrow> nat \<Rightarrow> rat" where
  "rec_elapsed r now =
     (let d = now - rec_start_ts r
      in of_nat (d div 1000000000) + of_nat (d mod 1000000000 div 1000) / 1000000)"

definition truncation_text :: string where
  "truncation_text =
     crlf @ ''[aegis: recording truncated at '' @ show_nat MAX_CAST_BYTES @ '' bytes]'' @ crlf"

definition write_record ::
  "record_json_fn \<Rightarrow> nat \<Rightarrow> string \<Rightarrow> string \<Rightarrow> SessionRecorder \<times> disk \<Rightarrow> SessionRecorder \<times> disk" where
  "write_record rj now kind data rd =
     (case rd of (r, d) \<Rightarrow>
        if rec_truncated r then (r, d)
        else let s = rj (rec_elapsed r now) kind data @ nl
             in if MAX_CAST_BYTES < rec_written r + length s
                then let marker = rj (rec_elapsed r now) ''o'' truncation_text @ nl
                     in rec_flush (r\<lparr>rec_truncated := True, rec_buffer := rec_buffer r @ marker\<rparr>) d
                else (r\<lparr>rec_buffer := rec_buffer r @ s, rec_written := rec_written r + length s\<rparr>, d))"

definition record_output ::
  "record_json_fn \<Rightarrow> nat \<Rightarrow> string \<Rightarrow> SessionRecorder \<times> disk \<Rightarrow> SessionRecorder \<times> disk" where
  "record_output rj now data rd = write_record rj now ''o'' data rd"

definition record_input ::
  "record_json_fn \<Rightarrow> nat \<Rightarrow> string \<Rightarrow> SessionRecorder \<times> disk \<Rightarrow> SessionRecorder \<times> disk" where
  "record_input rj now data rd = write_record rj now ''i'' data rd"

definition recorder_close :: "SessionRecorder \<Rightarrow> disk \<Rightarrow> SessionRecorder \<times> disk" where
  "recorder_close r d = rec_flush r d"

section \<open>The console\<close>

text \<open>Text that a terminal shows as it is: valid UTF-8 without control characters.\<close>

definition clean :: "string \<Rightarrow> bool" where
  "clean s \<longleftrightarrow> list_all (\<lambda>c. valid_char c \<and> \<not> is_control c) (utf8_chars s)"

definition printable :: "char \<Rightarrow> bool" where
  "printable c \<longleftrightarrow> 0x20 \<le> byte_of c \<and> byte_of c < 0x7F"

lemma clean_valid: "clean s \<Longrightarrow> valid_utf8 s"
  by (auto simp: clean_def valid_utf8_def list_all_iff)

lemma valid_hd_not_cont: "valid_utf8 b \<Longrightarrow> b = [] \<or> \<not> is_cont (hd b)"
  by (cases b) (auto simp: valid_utf8_def dest: valid_char_not_cont_hd)

lemma clean_Nil [simp]: "clean []"
  by (simp add: clean_def)

lemma clean_append [simp]: "clean a \<Longrightarrow> clean b \<Longrightarrow> clean (a @ b)"
  using valid_hd_not_cont [OF clean_valid, of b] by (simp add: clean_def utf8_chars_append)

lemma clean_concat: "(\<And>x. x \<in> set xs \<Longrightarrow> clean x) \<Longrightarrow> clean (concat xs)"
  by (induction xs) auto

lemma clean_printable [simp]: "\<forall>c\<in>set s. printable c \<Longrightarrow> clean s"
proof -
  assume "\<forall>c\<in>set s. printable c"
  moreover then have "utf8_chars s = map (\<lambda>c. [c]) s"
    by (intro utf8_chars_ascii) (auto simp: printable_def)
  ultimately show ?thesis
    by (auto simp: clean_def list_all_iff printable_def in_range_def)
qed

lemma valid_char_single: "valid_char c \<Longrightarrow> utf8_chars c = [c]"
  by (cases c rule: valid_char.cases) (auto simp: in_range_def is_cont_def)

lemma hex_digit_printable: "n < 16 \<Longrightarrow> printable (hex_digit n)"
proof -
  assume "n < 16"
  then have "n \<in> {0..<16}" by simp
  moreover have "\<forall>n\<in>{0..<16}. printable (hex_digit n)" by code_simp
  ultimately show ?thesis by blast
qed

lemma byte_of_less: "byte_of b < 256"
  by (simp add: byte_of_def)

lemma clean_sanitize_char:
  assumes "valid_char c"
  shows "clean (sanitize_char c)"
proof -
  have p: "printable bsl" "printable (CHR ''x'')" by (simp_all add: printable_def byte_of_def)
  have "printable (hex_digit (byte_of b div 16))" "printable (hex_digit (byte_of b mod 16))" for b
    using byte_of_less [of b] by (auto intro!: hex_digit_printable)
  then have "clean (concat (map (\<lambda>b. [bsl] @ ''x'' @ hex_byte b) c))"
    by (intro clean_concat) (auto simp: hex_byte_def p)
  moreover have "clean c" if "\<not> is_control c"
    using assms that by (simp add: clean_def valid_char_single)
  ultimately show ?thesis using p by (simp add: sanitize_char_def)
qed

lemma clean_sanitize: "valid_utf8 s \<Longrightarrow> clean (sanitize s)"
  unfolding sanitize_def valid_utf8_def list_all_iff
  by (rule clean_concat) (auto intro: clean_sanitize_char)

subsection \<open>The sanitizer loses nothing\<close>

definition hex_val :: "char \<Rightarrow> nat" where
  "hex_val c = (if byte_of c < 0x3A then byte_of c - 0x30 else byte_of c - 0x57)"

fun unsanitize :: "string \<Rightarrow> string" where
  "unsanitize [] = []"
| "unsanitize (x # xs) =
     (if x \<noteq> bsl then x # unsanitize xs
      else case xs of
        [] \<Rightarrow> [x]
      | y # ys \<Rightarrow>
          if y = bsl then bsl # unsanitize ys
          else (case ys of
                  a # b # zs \<Rightarrow> char_of (16 * hex_val a + hex_val b) # unsanitize zs
                | _ \<Rightarrow> ys))"

lemma hex_val_digit: "n < 16 \<Longrightarrow> hex_val (hex_digit n) = n"
proof -
  assume "n < 16"
  then have "n \<in> {0..<16}" by simp
  moreover have "\<forall>n\<in>{0..<16}. hex_val (hex_digit n) = n" by code_simp
  ultimately show ?thesis by blast
qed

lemma unsanitize_hex: "unsanitize (concat (map (\<lambda>b. [bsl] @ ''x'' @ hex_byte b) c) @ r) = c @ unsanitize r"
proof (induction c)
  case (Cons b c)
  have "char_of (16 * hex_val (hex_digit (byte_of b div 16)) + hex_val (hex_digit (byte_of b mod 16))) = b"
    using byte_of_less [of b] by (simp add: hex_val_digit) (simp add: byte_of_def)
  then show ?case using Cons by (simp add: hex_byte_def)
qed simp

lemma unsanitize_plain: "bsl \<notin> set c \<Longrightarrow> unsanitize (c @ r) = c @ unsanitize r"
  by (induction c) auto

lemma valid_char_bsl: "valid_char c \<Longrightarrow> c \<noteq> [bsl] \<Longrightarrow> bsl \<notin> set c"
  by (cases c rule: valid_char.cases) (auto simp: in_range_def is_cont_def byte_of_def)

lemma unsanitize_char: "valid_char c \<Longrightarrow> unsanitize (sanitize_char c @ r) = c @ unsanitize r"
  using unsanitize_hex [of c r] valid_char_bsl [of c]
  by (auto simp: sanitize_char_def unsanitize_plain)

lemma unsanitize_chars:
  "list_all valid_char cs \<Longrightarrow> unsanitize (concat (map sanitize_char cs)) = concat cs"
  by (induction cs) (simp_all add: unsanitize_char)

subsection \<open>What reaches the operator's terminal\<close>

text \<open>The attacker-supplied texts of an event, and the identifiers the program makes itself.\<close>

fun event_texts :: "TelemetryEvent \<Rightarrow> string list" where
  "event_texts (CredentialHarvest e) = ch_username e # (case ch_password e of Some pw \<Rightarrow> [pw] | None \<Rightarrow> [])"
| "event_texts (CommandRun e) = [cr_command e]"
| "event_texts (PayloadCaptured e) = [pc_quarantine_path e]"
| "event_texts (SyscallExecve e) = sx_filename e # sx_argv e"
| "event_texts (SyscallMemfdCreate e) = [sm_name e]"
| "event_texts _ = []"

fun event_ids :: "TelemetryEvent \<Rightarrow> string" where
  "event_ids (PayloadCaptured e) = pc_sha256 e"
| "event_ids (CommandRun e) = cr_session_id e"
| "event_ids (SessionStart e) = ss_session_id e"
| "event_ids (SessionEnd e) = se_session_id e"
| "event_ids _ = []"

lemma show_nat_printable: "c \<in> set (show_nat n) \<Longrightarrow> printable c"
proof (induction n rule: show_nat.induct)
  case (1 n)
  have d: "printable (digit_char k)" if "k < 10" for k
  proof -
    have "k \<in> {0..<10}" using that by simp
    moreover have "\<forall>k\<in>{0..<10}. printable (digit_char k)" by code_simp
    ultimately show ?thesis by blast
  qed
  from 1 show ?case
    by (subst (asm) (2) show_nat.simps) (auto split: if_splits intro: d)
qed

lemma show_hex_printable: "c \<in> set (show_hex n) \<Longrightarrow> printable c"
proof (induction n rule: show_hex.induct)
  case (1 n)
  then show ?case
    by (subst (asm) (2) show_hex.simps) (auto split: if_splits intro: hex_digit_printable)
qed

lemma set_join: "set (join sep xs) \<subseteq> set sep \<union> (\<Union>x\<in>set xs. set x)"
  by (induction sep xs rule: join.induct) auto

lemma show_segments_printable: "c \<in> set (show_segments s) \<Longrightarrow> printable c"
proof -
  assume "c \<in> set (show_segments s)"
  then have "c = CHR '':'' \<or> (\<exists>w. c \<in> set (show_hex w))"
    using set_join [of "'':''" "map (\<lambda>w. show_hex (unat w)) s"] by (auto simp: show_segments_def)
  then show ?thesis
    by (auto simp: printable_def [of "CHR '':''"] byte_of_def dest: show_hex_printable)
qed

lemma show_v4_printable: "c' \<in> set (show_v4 a b c d) \<Longrightarrow> printable c'"
  by (auto simp: show_v4_def show_byte_def show_nat_printable printable_def byte_of_def
      dest: show_nat_printable)

lemma show_ip_printable: "c \<in> set (show_ip ip) \<Longrightarrow> printable c"
proof (cases ip)
  case (V4 x1 x2 x3 x4)
  then show "c \<in> set (show_ip ip) \<Longrightarrow> printable c" by (simp add: show_v4_printable)
next
  case (V6 s0 s1 s2 s3 s4 s5 s6 s7)
  have colon: "printable (CHR '':'')" "printable (CHR ''f'')" by (simp_all add: printable_def byte_of_def)
  show "c \<in> set (show_ip ip) \<Longrightarrow> printable c"
    unfolding V6 show_ip.simps(2) Let_def
    by (auto simp: colon split: option.splits prod.splits if_splits
        dest: show_v4_printable show_segments_printable)
qed

lemma valid_utf8_join:
  "valid_utf8 sep \<Longrightarrow> \<forall>x\<in>set xs. valid_utf8 x \<Longrightarrow> valid_utf8 (join sep xs)"
  by (induction sep xs rule: join.induct)
     (auto intro!: valid_utf8_append simp: valid_utf8_def [of "[]"])

lemma sha_prefix_printable:
  "c \<in> set (concat (take n (utf8_chars s))) \<Longrightarrow> c \<in> set s"
  by (metis UnCI append_take_drop_id concat_append concat_utf8_chars set_append)

lemma show_fixed1_printable: "c \<in> set (show_fixed1 x) \<Longrightarrow> printable c"
  by (auto simp: show_fixed1_def Let_def printable_def [of "CHR ''.''"] byte_of_def
      dest: show_nat_printable)

fun event_colour :: "TelemetryEvent \<Rightarrow> string" where
  "event_colour (CredentialHarvest _) = ''93''"
| "event_colour (CommandRun _) = ''96''"
| "event_colour (PayloadCaptured _) = ''91''"
| "event_colour (SessionStart _) = ''92''"
| "event_colour (SessionEnd _) = ''90''"
| "event_colour (SyscallExecve _) = ''35''"
| "event_colour (SyscallConnect _) = ''35''"
| "event_colour (SyscallMemfdCreate _) = ''31''"

lemma clean_Cons: "printable c \<Longrightarrow> clean s \<Longrightarrow> clean (c # s)"
  using clean_append [of "[c]" s] by simp

lemma clean_numbers:
  "clean (show_nat n)" "clean (show_ip ip)" "clean (show_fixed1 x)"
  by (auto intro!: clean_printable dest: show_nat_printable show_ip_printable show_fixed1_printable)

lemma clean_sha: "\<forall>c\<in>set s. printable c \<Longrightarrow> clean (concat (take n (utf8_chars s)))"
  by (rule clean_printable) (blast dest: sha_prefix_printable)

lemma clean_join: "\<forall>x\<in>set xs. valid_utf8 x \<Longrightarrow> clean (sanitize (join '' '' xs))"
  by (intro clean_sanitize valid_utf8_join) (auto intro: valid_utf8_ascii simp: byte_of_def)

lemma clean_none: "clean (sanitize ''<none>'')"
  by (intro clean_sanitize valid_utf8_ascii) (simp add: byte_of_def)

lemmas clean_parts =
  clean_Cons clean_numbers clean_sha clean_join clean_none clean_sanitize

text \<open>
  Claim C26: one event prints one line that is a fixed colour code, a body without any control
  character and the colour reset: whatever bytes an attacker sends as user name, password, command,
  file or process name, no escape sequence of theirs reaches the operator's terminal, and no line
  break either.
\<close>
theorem console_line_is_clean:
  assumes "\<forall>s\<in>set (event_texts e). valid_utf8 s" and "\<forall>c\<in>set (event_ids e). printable c"
  shows "\<exists>code body. print_event e = coloured code body \<and> clean body \<and>
    code \<in> {''90'', ''91'', ''92'', ''93'', ''96'', ''31'', ''35''}"
proof -
  have "\<exists>body. print_event e = coloured (event_colour e) body \<and> clean body"
    using assms
    by (cases e; simp only: print_event.simps event_colour.simps)
       (rule exI, rule conjI, rule refl,
        simp add: clean_parts printable_def [of "Char _ _ _ _ _ _ _ _"] byte_of_def split: option.splits)+
  moreover have "event_colour e \<in> {''90'', ''91'', ''92'', ''93'', ''96'', ''31'', ''35''}"
    by (cases e) simp_all
  ultimately show ?thesis by blast
qed

definition hostile_login :: TelemetryEvent where
  "hostile_login =
     CredentialHarvest
       \<lparr>ch_timestamp = 0, ch_session_id = ''0a1b2c3d4e5f'', ch_ip = V4 203 0 113 9,
        ch_username = [esc] @ ''[2J'', ch_password = Some [lf], ch_auth_method = Password\<rparr>"

theorem console_line_is_clean_witness:
  "\<exists>code body. print_event hostile_login = coloured code body \<and> clean body \<and>
     code \<in> {''90'', ''91'', ''92'', ''93'', ''96'', ''31'', ''35''}"
proof -
  have texts: "\<forall>s\<in>set (event_texts hostile_login). valid_utf8 s"
    by (simp add: hostile_login_def valid_utf8_ascii byte_of_def)
  moreover have "event_ids hostile_login = []"
    by (simp add: hostile_login_def)
  ultimately show ?thesis
    using console_line_is_clean [of hostile_login] by simp
qed

text \<open>
  Sanitising valid text is reversible: the reader of the console can recover the exact
  bytes from the escaped form, so distinct inputs stay distinct, and text without backslashes and
  control characters is shown as it is.
\<close>
theorem sanitize_roundtrip:
  assumes "valid_utf8 s"
  shows "unsanitize (sanitize s) = s \<and> clean (sanitize s) \<and> (clean s \<and> bsl \<notin> set s \<longrightarrow> sanitize s = s)"
proof -
  have chars: "list_all valid_char (utf8_chars s)" using assms by (simp add: valid_utf8_def)
  have "sanitize s = s" if "clean s" and "bsl \<notin> set s"
  proof -
    have "sanitize_char c = c" if "c \<in> set (utf8_chars s)" for c
    proof -
      have "set c \<subseteq> set (concat (utf8_chars s))" using that unfolding set_concat by blast
      then have "c \<noteq> [bsl]" using \<open>bsl \<notin> set s\<close> by auto
      then show ?thesis using that \<open>clean s\<close> by (auto simp: sanitize_char_def clean_def list_all_iff)
    qed
    then have "map sanitize_char (utf8_chars s) = utf8_chars s" by (intro map_idI)
    then show ?thesis by (simp add: sanitize_def)
  qed
  then show ?thesis
    using unsanitize_chars [OF chars] clean_sanitize [OF assms] by (simp add: sanitize_def)
qed

theorem sanitize_roundtrip_witness:
  "sanitize ([esc] @ ''[2J'' @ [bsl] @ ''x'') = [bsl] @ ''x1b[2J'' @ [bsl, bsl] @ ''x'' \<and>
   unsanitize ([bsl] @ ''x1b[2J'' @ [bsl, bsl] @ ''x'') = [esc] @ ''[2J'' @ [bsl] @ ''x''"
proof -
  have "valid_utf8 ([esc] @ ''[2J'' @ [bsl] @ ''x'')"
    by (rule valid_utf8_ascii) (simp add: byte_of_def)
  from sanitize_roundtrip [OF this]
  have "unsanitize (sanitize ([esc] @ ''[2J'' @ [bsl] @ ''x'')) = [esc] @ ''[2J'' @ [bsl] @ ''x''"
    by (rule conjunct1)
  moreover have "sanitize ([esc] @ ''[2J'' @ [bsl] @ ''x'') = [bsl] @ ''x1b[2J'' @ [bsl, bsl] @ ''x''"
    by (simp add: sanitize_def utf8_chars_ascii sanitize_char_def hex_byte_def hex_digit_def byte_of_def
        is_cont_def)
  ultimately show ?thesis by simp
qed

section \<open>The event log\<close>

subsection \<open>Renaming files\<close>

lemma dlookup_delete:
  "p \<noteq> [] \<Longrightarrow> dlookup (d\<lparr>dentries := AList.delete p (dentries d)\<rparr>) q = (if q = p then None else dlookup d q)"
  by (simp add: dlookup_def)

lemma rename_lookup:
  assumes "dlookup d a = Some (DFile m c)" and "\<not> is_dir d b" and "is_dir d (butlast b)"
    and "a \<noteq> b" and "a \<noteq> []" and "b \<noteq> []"
  obtains d' where "fs_rename d a b = Some d'"
    and "\<And>q. dlookup d' q = (if q = b then Some (DFile m c) else if q = a then None else dlookup d q)"
  using assms by (fastforce simp: fs_rename_def dlookup_put dlookup_delete)

text \<open>Shifting a file onto a free name moves it if it is there.\<close>

lemma shift_gen_lookup:
  assumes "\<not> is_dir d a" and "dlookup d b = None" and "is_dir d (butlast b)"
    and "a \<noteq> b" and "a \<noteq> []" and "b \<noteq> []"
  shows "dlookup (shift_gen d a b) q = (if q = b then dlookup d a else if q = a then None else dlookup d q)"
proof (cases "dlookup d a")
  case None
  then show ?thesis using assms by (simp add: shift_gen_def path_exists_def)
next
  case (Some e)
  with assms(1) obtain m c where e: "dlookup d a = Some (DFile m c)"
    by (cases e) (auto simp: is_dir_def)
  from rename_lookup [OF this _ assms(3-6)] assms(2)
  obtain d' where "fs_rename d a b = Some d'"
    "\<And>q. dlookup d' q = (if q = b then Some (DFile m c) else if q = a then None else dlookup d q)"
    by (auto simp: is_dir_def)
  with e show ?thesis by (simp add: shift_gen_def path_exists_def)
qed

subsection \<open>One rotation\<close>

text \<open>The log and its generations are files or absent, in an existing directory.\<close>

definition log_ok :: "path \<Rightarrow> disk \<Rightarrow> bool" where
  "log_ok p d \<longleftrightarrow> p \<noteq> [] \<and> is_dir d (butlast p) \<and> is_file d p \<and> list_all (\<lambda>n. \<not> is_dir d (gen_path p n)) [1, 2, 3, 4]"

lemma gen_path_simps:
  "gen_path p n \<noteq> []" "butlast (gen_path p n) = butlast p" "p \<noteq> gen_path p n"
  "gen_path p n \<noteq> butlast p"
proof -
  show "p \<noteq> gen_path p n"
  proof
    assume "p = gen_path p n"
    then have "last p = last (gen_path p n)" by simp
    then show False by (simp add: gen_path_def)
  qed
  show "gen_path p n \<noteq> butlast p"
    by (metis append_self_conv gen_path_def list.distinct(1))
qed (simp_all add: gen_path_def)

lemma gen_path_eq: "m < 10 \<Longrightarrow> n < 10 \<Longrightarrow> gen_path p m = gen_path p n \<longleftrightarrow> m = n"
proof -
  assume "m < 10" "n < 10"
  moreover have "\<forall>m\<in>{0..<10}. \<forall>n\<in>{0..<10}. digit_char m = digit_char n \<longrightarrow> m = n" by code_simp
  ultimately show ?thesis by (auto simp: gen_path_def show_nat.simps)
qed

text \<open>
  Rotation shifts the log and its generations by one and drops the oldest; every other path keeps
  its entry.
\<close>

definition rotated :: "path \<Rightarrow> disk \<Rightarrow> path \<Rightarrow> dentry option" where
  "rotated p d q =
     (if q = p then None
      else if q = gen_path p 1 then dlookup d p
      else if q = gen_path p 2 then dlookup d (gen_path p 1)
      else if q = gen_path p 3 then dlookup d (gen_path p 2)
      else if q = gen_path p 4 then dlookup d (gen_path p 3)
      else dlookup d q)"

lemma butlast_neq: "p \<noteq> [] \<Longrightarrow> butlast p \<noteq> p"
  by (metis append_butlast_last_id not_Cons_self2 self_append_conv)

lemma rotate_log_shifts:
  assumes "log_ok p d"
  obtains d' where "rotate_log d p = (Inr (), d')" and "\<And>q. dlookup d' q = rotated p d q"
proof -
  let ?g = "gen_path p"
  note gs = gen_path_simps [of p] gen_path_simps(3) [of p, symmetric] gen_path_simps(4) [of p, symmetric]
  have par: "is_dir d (butlast p)" and p: "p \<noteq> []" and isf: "is_file d p"
    and nd: "\<not> is_dir d (?g 1)" "\<not> is_dir d (?g 2)" "\<not> is_dir d (?g 3)" "\<not> is_dir d (?g 4)"
    using assms by (simp_all add: log_ok_def)
  define d1 where "d1 = ignore fs_remove_file d (?g 4)"
  have l1: "dlookup d1 q = (if q = ?g 4 then None else dlookup d q)" for q
    using nd(4) gs(1)
    by (auto simp: d1_def ignore_def fs_remove_file_def dlookup_delete is_file_def is_dir_def
        split: option.splits dentry.splits)
  define d2 where "d2 = shift_gen d1 (?g 3) (?g 4)"
  have l2: "dlookup d2 q = (if q = ?g 4 then dlookup d (?g 3) else if q = ?g 3 then None else dlookup d q)" for q
    unfolding d2_def using nd par gs
    by (subst shift_gen_lookup) (simp_all add: l1 is_dir_def gen_path_eq)
  define d3 where "d3 = shift_gen d2 (?g 2) (?g 3)"
  have l3: "dlookup d3 q = (if q = ?g 4 then dlookup d (?g 3) else if q = ?g 3 then dlookup d (?g 2)
      else if q = ?g 2 then None else dlookup d q)" for q
    unfolding d3_def using nd par gs
    by (subst shift_gen_lookup) (simp_all add: l2 is_dir_def gen_path_eq)
  define d4 where "d4 = shift_gen d3 (?g 1) (?g 2)"
  have l4: "dlookup d4 q = (if q = ?g 4 then dlookup d (?g 3) else if q = ?g 3 then dlookup d (?g 2)
      else if q = ?g 2 then dlookup d (?g 1) else if q = ?g 1 then None else dlookup d q)" for q
    unfolding d4_def using nd par gs
    by (subst shift_gen_lookup) (simp_all add: l3 is_dir_def gen_path_eq)
  obtain m c where pc: "dlookup d p = Some (DFile m c)"
    using isf by (auto simp: is_file_def split: option.splits dentry.splits)
  obtain d5 where d5: "fs_rename d4 p (?g 1) = Some d5"
    and l5: "\<And>q. dlookup d5 q = (if q = ?g 1 then Some (DFile m c) else if q = p then None else dlookup d4 q)"
    by (rule rename_lookup [of d4 p m c "?g 1"]) (use par p pc gs in \<open>simp_all add: l4 is_dir_def gen_path_eq\<close>)
  have "rotate_log d p = (Inr (), d5)"
    using d5 by (simp add: rotate_log_def LOG_GENERATIONS_def d1_def d2_def d3_def d4_def upt_rec eval_nat_numeral Let_def)
  moreover have "dlookup d5 q = rotated p d q" for q
    using gs(3) by (simp add: l5 l4 rotated_def pc gen_path_eq)
  ultimately show ?thesis by (rule that)
qed

subsection \<open>One event\<close>

definition contents :: "disk \<Rightarrow> path \<Rightarrow> string" where
  "contents d p = (case dlookup d p of Some (DFile _ c) \<Rightarrow> c | _ \<Rightarrow> [])"

text \<open>
  The contents of the log and of its generations, newest first, everything they hold in the order in which it was
  written, and what one more line does to them: a log that reaches the limit becomes the first generation, every
  generation moves up by one, and the last one is dropped.
\<close>

definition log_gens :: "path \<Rightarrow> disk \<Rightarrow> string list" where
  "log_gens p d = contents d p # map (\<lambda>n. contents d (gen_path p n)) [1, 2, 3, 4]"

definition log_history :: "path \<Rightarrow> disk \<Rightarrow> string" where
  "log_history p d = concat (rev (log_gens p d))"

definition ring_append :: "string list \<Rightarrow> string \<Rightarrow> string list" where
  "ring_append fs line =
     (let cur = hd fs @ line @ nl
      in if length cur < MAX_LOG_BYTES then cur # tl fs else [] # cur # butlast (tl fs))"

lemma ring_append_5:
  "ring_append [c, g1, g2, g3, g4] line =
     (if length c + length line + 1 < MAX_LOG_BYTES then [c @ line @ nl, g1, g2, g3, g4]
      else [[], c @ line @ nl, g1, g2, g3])"
  by (simp add: ring_append_def nl_def Let_def)

text \<open>A ring that starts without older generations loses nothing until four full ones are kept.\<close>

definition ring_ok :: "string \<Rightarrow> string list \<Rightarrow> bool" where
  "ring_ok hist fs \<longleftrightarrow>
     (\<exists>c g1 g2 g3 g4. fs = [c, g1, g2, g3, g4] \<and> list_all (\<lambda>g. g = [] \<or> MAX_LOG_BYTES \<le> length g) [g1, g2, g3, g4] \<and>
        (g1 = [] \<longrightarrow> g2 = []) \<and> (g2 = [] \<longrightarrow> g3 = []) \<and> (g3 = [] \<longrightarrow> g4 = []) \<and>
        (concat (rev fs) = hist \<or> g4 \<noteq> []))"

lemma ring_ok_step:
  assumes "ring_ok hist fs"
  shows "ring_ok (hist @ line @ nl) (ring_append fs line)"
proof -
  obtain c g1 g2 g3 g4 where fs: "fs = [c, g1, g2, g3, g4]"
    and r: "list_all (\<lambda>g. g = [] \<or> MAX_LOG_BYTES \<le> length g) [g1, g2, g3, g4]"
      "g1 = [] \<longrightarrow> g2 = []" "g2 = [] \<longrightarrow> g3 = []" "g3 = [] \<longrightarrow> g4 = []" "concat (rev fs) = hist \<or> g4 \<noteq> []"
    using assms unfolding ring_ok_def by blast
  show ?thesis
    using r by (cases "length c + length line + 1 < MAX_LOG_BYTES")
      (auto simp: fs ring_append_5 ring_ok_def nl_def)
qed

lemma ring_ok_fold:
  "ring_ok hist fs \<Longrightarrow> ring_ok (hist @ concat (map (\<lambda>l. l @ nl) ls)) (foldl ring_append fs ls)"
proof (induction ls arbitrary: hist fs)
  case (Cons l ls)
  from Cons.IH [OF ring_ok_step [OF Cons.prems, of l]] show ?case by simp
qed simp

lemma ring_ok_kept: "ring_ok hist fs \<Longrightarrow> concat (rev fs) = hist \<or> 4 * MAX_LOG_BYTES \<le> length (concat (rev fs))"
  unfolding ring_ok_def by auto

lemma ring_suffix_step: "length fs = 5 \<Longrightarrow> suffix (concat (rev (ring_append fs line))) (concat (rev fs) @ line @ nl) \<and> length (ring_append fs line) = 5"
  by (auto simp: length_Suc_conv eval_nat_numeral ring_append_5 suffix_def)

lemma ring_suffix:
  "length fs = 5 \<Longrightarrow> suffix (concat (rev (foldl ring_append fs ls))) (concat (rev fs) @ concat (map (\<lambda>l. l @ nl) ls))"
proof (induction ls arbitrary: fs)
  case (Cons l ls)
  note st = ring_suffix_step [OF Cons.prems, of l]
  have "suffix (concat (rev (ring_append fs l)) @ concat (map (\<lambda>l. l @ nl) ls)) ((concat (rev fs) @ l @ nl) @ concat (map (\<lambda>l. l @ nl) ls))"
    using st by (auto simp: suffix_def)
  with Cons.IH [of "ring_append fs l"] st show ?case using suffix_order.order_trans by fastforce
qed simp

text \<open>
  The collector's invariant: the log is an ordinary file of mode 0600 below the rotation limit
  whose size is what the collector believes, and no generation exceeds the limit by more than
  a line of at most \<open>L\<close> bytes.
\<close>

definition collector_inv :: "nat \<Rightarrow> path \<Rightarrow> collector_state \<Rightarrow> bool" where
  "collector_inv L p s \<longleftrightarrow>
     log_ok p (cdisk s) \<and>
     (\<exists>c. dlookup (cdisk s) p = Some (DFile SENSITIVE_MODE c) \<and> length c = log_written s) \<and>
     log_written s < MAX_LOG_BYTES \<and>
     list_all (\<lambda>n. length (contents (cdisk s) (gen_path p n)) < MAX_LOG_BYTES + L) [1, 2, 3, 4]"

lemma append_lookup:
  assumes "dlookup d p = Some (DFile m c)" and "p \<noteq> []"
  shows "dlookup (ignore (fs_append bs) d p) q = (if q = p then Some (DFile m (c @ bs)) else dlookup d q)"
  using assms by (simp add: ignore_def fs_append_def fs_open_with_def dlookup_put)

text \<open>Reopening right after a rotation creates an empty log of mode 0600.\<close>

lemma open_log_new:
  assumes "dlookup d p = None" and "is_dir d (butlast p)" and "p \<noteq> []"
  obtains d' where "open_log d p = Some (0, d')"
    and "\<And>q. dlookup d' q = (if q = p then Some (DFile SENSITIVE_MODE []) else dlookup d q)"
  using assms
  by (auto simp: open_log_def fs_open_with_def ignore_def fs_set_permissions_def dlookup_put fs_len_def Let_def)

lemma rotated_other: "\<forall>n\<in>{1, 2, 3, 4}. q \<noteq> gen_path p n \<Longrightarrow> q \<noteq> p \<Longrightarrow> rotated p d q = dlookup d q"
  by (simp add: rotated_def)

lemma rotated_gens:
  "rotated p d (gen_path p (Suc 0)) = dlookup d p" "rotated p d (gen_path p 2) = dlookup d (gen_path p (Suc 0))"
  "rotated p d (gen_path p 3) = dlookup d (gen_path p 2)" "rotated p d (gen_path p 4) = dlookup d (gen_path p 3)"
  "rotated p d p = None"
  by (simp_all add: rotated_def gen_path_eq gen_path_simps(3) [symmetric])

lemma collect_event_cases:
  assumes inv: "collector_inv L p s" and line: "to_json e = Some line" and "length line < L"
  obtains s' where "collect_event to_json p s e = (Inr (), s')" and "collector_inv L p s'"
    and "log_gens p (cdisk s') = ring_append (log_gens p (cdisk s)) line"
proof -
  let ?d = "cdisk s" and ?g = "gen_path p"
  define d1 where "d1 = ignore (fs_append (line @ nl)) ?d p"
  obtain c where c: "dlookup ?d p = Some (DFile SENSITIVE_MODE c)" "length c = log_written s"
    and ok: "log_ok p ?d" and below: "log_written s < MAX_LOG_BYTES"
    and gens: "list_all (\<lambda>n. length (contents ?d (?g n)) < MAX_LOG_BYTES + L) [1, 2, 3, 4]"
    using inv by (auto simp: collector_inv_def)
  have p: "p \<noteq> []" and par: "is_dir ?d (butlast p)" using ok by (auto simp: log_ok_def)
  have l1: "dlookup d1 q = (if q = p then Some (DFile SENSITIVE_MODE (c @ line @ nl)) else dlookup ?d q)" for q
    using append_lookup [OF c(1) p] by (simp add: d1_def)
  note ne = gen_path_simps(3) [of p, symmetric] butlast_neq [OF p]
  have ok1: "log_ok p d1"
    using ok by (auto simp: log_ok_def is_dir_def is_file_def l1 ne)
  let ?s1 = "s\<lparr>cdisk := d1, log_written := log_written s + length line + 1, console := console s @ print_event e\<rparr>"
  have g: "log_gens p ?d = [c, contents ?d (?g 1), contents ?d (?g 2), contents ?d (?g 3), contents ?d (?g 4)]"
    by (simp add: log_gens_def contents_def c(1))
  show ?thesis
  proof (cases "log_written s + length line + 1 < MAX_LOG_BYTES")
    case True
    have "collector_inv L p ?s1"
      using ok1 gens True by (auto simp: collector_inv_def l1 c(2) nl_def contents_def ne)
    moreover have "collect_event to_json p s e = (Inr (), ?s1)"
      using True by (simp add: collect_event_def line d1_def)
    moreover have "log_gens p d1 = ring_append (log_gens p ?d) line"
      using True c(2) unfolding g ring_append_5 by (simp add: log_gens_def contents_def l1 ne)
    ultimately show ?thesis by (intro that) auto
  next
    case False
    obtain d2 where d2: "rotate_log d1 p = (Inr (), d2)" and l2: "\<And>q. dlookup d2 q = rotated p d1 q"
      using rotate_log_shifts [OF ok1] by blast
    have par2: "is_dir d2 (butlast p)"
      using ok1 by (simp add: log_ok_def is_dir_def l2 rotated_def ne gen_path_simps(4) [symmetric])
    obtain d3 where d3: "open_log d2 p = Some (0, d3)"
      and l3: "\<And>q. dlookup d3 q = (if q = p then Some (DFile SENSITIVE_MODE []) else dlookup d2 q)"
      by (rule open_log_new [of d2 p]) (use par2 p in \<open>simp_all add: l2 rotated_gens\<close>)
    let ?s3 = "?s1\<lparr>cdisk := d3, log_written := 0\<rparr>"
    have "log_ok p d3"
      using ok1 par2 by (simp add: log_ok_def is_dir_def is_file_def l3 l2 rotated_gens ne l1)
    moreover have "length (contents d1 p) < MAX_LOG_BYTES + L"
      using below c(2) assms(3) by (simp add: contents_def l1 nl_def)
    ultimately have "collector_inv L p ?s3"
      using gens by (auto simp: collector_inv_def l3 l2 rotated_gens ne contents_def l1 MAX_LOG_BYTES_def)
    moreover have "collect_event to_json p s e = (Inr (), ?s3)"
      using False d2 d3 by (simp add: collect_event_def line d1_def [symmetric])
    moreover have "log_gens p d3 = ring_append (log_gens p ?d) line"
      using False c(2) unfolding g ring_append_5 by (simp add: log_gens_def contents_def l3 l2 rotated_gens l1 ne)
    ultimately show ?thesis by (intro that) auto
  qed
qed

subsection \<open>A run of the collector\<close>

definition log_lines :: "json_fn \<Rightarrow> TelemetryEvent list \<Rightarrow> string" where
  "log_lines to_json es = concat (map (\<lambda>l. l @ nl) (List.map_filter to_json es))"

lemma collect_run:
  assumes "collector_inv L p s" and "\<forall>e\<in>set es. \<forall>l. to_json e = Some l \<longrightarrow> length l < L"
  shows "\<exists>s'. collect to_json p s es = (Inr (), s') \<and> collector_inv L p s' \<and>
    log_gens p (cdisk s') = foldl ring_append (log_gens p (cdisk s)) (List.map_filter to_json es)"
  using assms
proof (induction es arbitrary: s)
  case Nil
  then show ?case by (simp add: List.map_filter_simps)
next
  case (Cons e es)
  show ?case
  proof (cases "to_json e")
    case None
    let ?s = "s\<lparr>console := console s @ print_event e\<rparr>"
    have "collector_inv L p ?s" using Cons.prems(1) by (simp add: collector_inv_def)
    from Cons.IH [OF this] Cons.prems(2) None show ?thesis
      by (simp add: collect_event_def List.map_filter_simps)
  next
    case (Some line)
    with Cons.prems obtain s1 where s1: "collect_event to_json p s e = (Inr (), s1)" "collector_inv L p s1"
      and h1: "log_gens p (cdisk s1) = ring_append (log_gens p (cdisk s)) line"
      by (metis collect_event_cases list.set_intros(1))
    from Cons.IH [OF s1(2)] Cons.prems(2) s1 h1 Some show ?thesis by (simp add: List.map_filter_simps)
  qed
qed

text \<open>Before the start: the log, if it is there, and its generations are files within the limits.\<close>

definition log_before :: "nat \<Rightarrow> path \<Rightarrow> disk \<Rightarrow> bool" where
  "log_before L p d \<longleftrightarrow>
     disk_wf d \<and> p \<noteq> [] \<and> \<not> is_dir d p \<and> length (contents d p) < MAX_LOG_BYTES \<and>
     list_all (\<lambda>n. \<not> is_dir d (gen_path p n) \<and> length (contents d (gen_path p n)) < MAX_LOG_BYTES + L) [1, 2, 3, 4] \<and>
     (\<forall>q. prefix q (butlast p) \<longrightarrow> \<not> is_file d q)"

lemma open_log_any:
  assumes "\<not> is_dir d p" and "is_dir d (butlast p)" and "p \<noteq> []"
  obtains d' where "open_log d p = Some (length (contents d p), d')"
    and "\<And>q. dlookup d' q = (if q = p then Some (DFile SENSITIVE_MODE (contents d p)) else dlookup d q)"
proof (cases "dlookup d p")
  case None
  from open_log_new [OF None assms(2,3)] obtain d' where d': "open_log d p = Some (0, d')"
    and l: "\<And>q. dlookup d' q = (if q = p then Some (DFile SENSITIVE_MODE []) else dlookup d q)" by blast
  show ?thesis by (rule that [of d']) (simp_all add: contents_def None d' l)
next
  case (Some e)
  with assms obtain m c where "dlookup d p = Some (DFile m c)"
    by (cases e) (auto simp: is_dir_def)
  then show ?thesis
    using assms by (intro that)
      (auto simp: open_log_def fs_open_with_def ignore_def fs_set_permissions_def dlookup_put fs_len_def Let_def
        contents_def)
qed

lemma run_collector_start:
  assumes "log_before L p d"
  obtains s where "run_collector to_json p d es = collect to_json p s es" and "collector_inv L p s"
    and "log_gens p (cdisk s) = log_gens p d"
proof -
  have wf: "disk_wf d" and p: "p \<noteq> []" and nd: "\<not> is_dir d p" and len: "length (contents d p) < MAX_LOG_BYTES"
    and gens: "list_all (\<lambda>n. \<not> is_dir d (gen_path p n) \<and> length (contents d (gen_path p n)) < MAX_LOG_BYTES + L) [1, 2, 3, 4]"
    and par: "\<forall>q. prefix q (butlast p) \<longrightarrow> \<not> is_file d q"
    using assms by (auto simp: log_before_def)
  obtain d0 where d0: "fs_create_dir_all d (butlast p) = Some d0"
    using par create_dir_all_iff [OF wf] by blast
  note l0 = create_dir_all_lookup(2) [OF wf d0]
  have same: "dlookup d0 q = dlookup d q" if "butlast q = butlast p" "q \<noteq> []" for q
  proof -
    have "length (butlast p) < length q" using that by (metis diff_less length_butlast length_greater_0_conv zero_less_one)
    then have "\<not> prefix q (butlast p)" using prefix_length_le [of q "butlast p"] by linarith
    then show ?thesis by (simp add: l0)
  qed
  have pd: "is_dir d0 (butlast p)"
    using par by (auto simp: is_dir_def is_file_def l0 split: option.splits dentry.splits)
  have samep: "dlookup d0 p = dlookup d p" and sameg: "dlookup d0 (gen_path p n) = dlookup d (gen_path p n)" for n
    using same [of p] same [of "gen_path p n"] p gen_path_simps [of p n] by auto
  have cont: "contents d0 p = contents d p" by (simp add: contents_def samep)
  obtain d1 where d1: "open_log d0 p = Some (length (contents d p), d1)"
    and l1: "\<And>q. dlookup d1 q = (if q = p then Some (DFile SENSITIVE_MODE (contents d p)) else dlookup d0 q)"
    using open_log_any [of d0 p, OF _ pd p] nd unfolding cont is_dir_cong [OF samep] by blast
  let ?s = "\<lparr>log_written = length (contents d p), cdisk = d1, console = ''''\<rparr>"
  note ne = gen_path_simps(3) [of p, symmetric] butlast_neq [OF p]
  have "run_collector to_json p d es = collect to_json p ?s es"
    by (simp add: run_collector_def path_parent_def p d0 d1 Let_def)
  moreover have "collector_inv L p ?s"
    using gens len p pd
    by (auto simp: collector_inv_def log_ok_def is_dir_def is_file_def l1 ne sameg contents_def)
  moreover have "log_gens p d1 = log_gens p d"
    by (simp add: log_gens_def contents_def l1 ne sameg)
  ultimately show ?thesis by (intro that) auto
qed

text \<open>
  Claim C24: every run of the collector leaves the log and its four generations exactly as the ring of files they
  are meant to be: starting from what they held, each serialised event is appended to the log, and a log
  that reaches the limit becomes generation one, each generation the next, and only the fourth is dropped. So
  what they hold at the end, oldest first, is a suffix of what they held followed by the events in order,
  and when there were no older generations nothing at all is missing until four full generations are kept. The
  run does not fail, the log ends as a file of mode 0600 below the rotation limit whose size the collector
  knows, and every generation is within one line of the limit.
\<close>
theorem event_log_keeps_history:
  assumes "log_before L p d" and "\<forall>e\<in>set es. \<forall>l. to_json e = Some l \<longrightarrow> length l < L"
  shows "\<exists>s. run_collector to_json p d es = (Inr (), s) \<and> collector_inv L p s \<and>
    log_gens p (cdisk s) = foldl ring_append (log_gens p d) (List.map_filter to_json es) \<and>
    suffix (log_history p (cdisk s)) (log_history p d @ log_lines to_json es) \<and>
    ((\<forall>n \<in> {1, 2, 3, 4}. contents d (gen_path p n) = []) \<longrightarrow>
       log_history p (cdisk s) = log_history p d @ log_lines to_json es \<or>
       4 * MAX_LOG_BYTES \<le> length (log_history p (cdisk s)))"
proof -
  obtain s0 where "run_collector to_json p d es = collect to_json p s0 es" and "collector_inv L p s0"
    and g0: "log_gens p (cdisk s0) = log_gens p d"
    using run_collector_start [OF assms(1)] by blast
  then obtain s where s: "run_collector to_json p d es = (Inr (), s)" "collector_inv L p s"
    and g: "log_gens p (cdisk s) = foldl ring_append (log_gens p d) (List.map_filter to_json es)"
    using collect_run [of L p s0 es to_json] assms(2) by auto
  have "suffix (log_history p (cdisk s)) (log_history p d @ log_lines to_json es)"
    using ring_suffix [of "log_gens p d" "List.map_filter to_json es"]
    by (simp add: log_history_def log_lines_def g) (simp add: log_gens_def)
  moreover have "log_history p (cdisk s) = log_history p d @ log_lines to_json es \<or>
      4 * MAX_LOG_BYTES \<le> length (log_history p (cdisk s))"
    if "\<forall>n \<in> {1, 2, 3, 4}. contents d (gen_path p n) = []"
  proof -
    have "ring_ok (log_history p d) (log_gens p d)" using that by (simp add: ring_ok_def log_history_def log_gens_def)
    from ring_ok_kept [OF ring_ok_fold [OF this, of "List.map_filter to_json es"]] show ?thesis
      by (simp add: log_history_def log_lines_def g)
  qed
  ultimately show ?thesis using s g by blast
qed

definition one_line_json :: json_fn where
  "one_line_json e = Some ''{}''"

definition log_disk :: disk where
  "log_disk =
     \<lparr>dentries = [([''var''], DDir 493), ([''var'', ''attacks.json''], DFile 420 (''old'' @ nl))],
      new_file_mode = 420, new_dir_mode = 493\<rparr>"

theorem event_log_keeps_history_witness:
  "\<exists>s. run_collector one_line_json [''var'', ''attacks.json''] log_disk [hostile_login] = (Inr (), s) \<and>
     collector_inv 10 [''var'', ''attacks.json''] s \<and>
     log_gens [''var'', ''attacks.json''] (cdisk s) = [''old'' @ nl @ ''{}'' @ nl, [], [], [], []]"
proof -
  let ?p = "[''var'', ''attacks.json'']"
  have "\<not> is_file log_disk q" if "prefix q [''var'']" for q
    using that by (auto simp: prefix_Cons is_file_def dlookup_def log_disk_def)
  then have "log_before 10 ?p log_disk"
    by (simp add: log_before_def log_disk_def disk_wf_def is_dir_def dlookup_def contents_def gen_path_def
        MAX_LOG_BYTES_def nl_def)
  moreover have "\<forall>e\<in>set [hostile_login]. \<forall>l. one_line_json e = Some l \<longrightarrow> length l < 10"
    by (simp add: one_line_json_def)
  moreover have "foldl ring_append (log_gens ?p log_disk) (List.map_filter one_line_json [hostile_login]) =
      [''old'' @ nl @ ''{}'' @ nl, [], [], [], []]"
    by (simp add: log_gens_def log_disk_def contents_def dlookup_def gen_path_def
        one_line_json_def List.map_filter_simps ring_append_5 MAX_LOG_BYTES_def nl_def)
  ultimately show ?thesis
    using event_log_keeps_history [of 10 ?p log_disk "[hostile_login]" one_line_json] by metis
qed

section \<open>The session recorder\<close>

type_synonym cast_record = "nat \<times> string \<times> string"

definition record_line :: "record_json_fn \<Rightarrow> SessionRecorder \<Rightarrow> cast_record \<Rightarrow> string" where
  "record_line rj r x = (case x of (now, kind, data) \<Rightarrow> rj (rec_elapsed r now) kind data @ nl)"

definition marker_line :: "record_json_fn \<Rightarrow> SessionRecorder \<Rightarrow> cast_record \<Rightarrow> string" where
  "marker_line rj r x = rj (rec_elapsed r (fst x)) ''o'' truncation_text @ nl"

definition record_all ::
  "record_json_fn \<Rightarrow> SessionRecorder \<times> disk \<Rightarrow> cast_record list \<Rightarrow> SessionRecorder \<times> disk" where
  "record_all rj = foldl (\<lambda>rd (now, kind, data). write_record rj now kind data rd)"

text \<open>What a recorder that has written \<open>w\<close> bytes adds for a sequence of records.\<close>

fun cast_tail :: "(cast_record \<Rightarrow> string) \<Rightarrow> (cast_record \<Rightarrow> string) \<Rightarrow> nat \<Rightarrow> cast_record list \<Rightarrow> string" where
  "cast_tail line marker w [] = []"
| "cast_tail line marker w (x # xs) =
     (if MAX_CAST_BYTES < w + length (line x) then marker x
      else line x @ cast_tail line marker (w + length (line x)) xs)"

lemma record_all_Cons:
  "record_all rj rd ((now, kind, data) # xs) = record_all rj (write_record rj now kind data rd) xs"
  by (simp add: record_all_def)

lemma record_all_truncated: "rec_truncated r \<Longrightarrow> record_all rj (r, d) xs = (r, d)"
proof (induction xs)
  case (Cons x xs)
  then show ?case by (cases x) (simp add: record_all_Cons write_record_def)
qed (simp add: record_all_def)

text \<open>The recorder owns its file: a flush appends to it and touches nothing else.\<close>

definition recording :: "SessionRecorder \<Rightarrow> nat \<Rightarrow> disk \<Rightarrow> string \<Rightarrow> bool" where
  "recording r m d all \<longleftrightarrow>
     rec_path r \<noteq> [] \<and> (\<exists>c. dlookup d (rec_path r) = Some (DFile m c) \<and> all = c @ rec_buffer r)"

definition only_changes :: "path \<Rightarrow> disk \<Rightarrow> disk \<Rightarrow> bool" where
  "only_changes p d d' \<longleftrightarrow> (\<forall>q. q \<noteq> p \<longrightarrow> dlookup d' q = dlookup d q)"

lemma rec_flush_recording:
  assumes "recording r m d all" and "rec_flush r d = (r', d')"
  shows "recording r' m d' all" and "rec_buffer r' = []" and "only_changes (rec_path r) d d'"
    and "r' = r\<lparr>rec_buffer := []\<rparr>"
  using assms append_lookup [of d "rec_path r" m _ "rec_buffer r"]
  by (auto simp: rec_flush_def recording_def only_changes_def)

lemma write_record_recording:
  assumes rec: "recording r m d all" and "\<not> rec_truncated r"
    and "write_record rj now kind data (r, d) = (r', d')"
  shows "recording r' m d' (all @ (if MAX_CAST_BYTES < rec_written r + length (record_line rj r (now, kind, data))
           then marker_line rj r (now, kind, data) else record_line rj r (now, kind, data)))
    \<and> only_changes (rec_path r) d d' \<and> rec_path r' = rec_path r \<and> rec_start_ts r' = rec_start_ts r
    \<and> (if MAX_CAST_BYTES < rec_written r + length (record_line rj r (now, kind, data)) then rec_truncated r'
       else \<not> rec_truncated r' \<and> rec_written r' = rec_written r + length (record_line rj r (now, kind, data)))"
proof (cases "MAX_CAST_BYTES < rec_written r + length (record_line rj r (now, kind, data))")
  case True
  let ?r = "r\<lparr>rec_truncated := True, rec_buffer := rec_buffer r @ marker_line rj r (now, kind, data)\<rparr>"
  have "recording ?r m d (all @ marker_line rj r (now, kind, data))"
    using rec by (auto simp: recording_def)
  moreover have "rec_flush ?r d = (r', d')"
    using assms(2,3) True by (simp add: write_record_def record_line_def marker_line_def Let_def)
  ultimately show ?thesis using rec_flush_recording [of ?r m d _ r' d'] True by simp
next
  case False
  then have "(r', d') = (r\<lparr>rec_buffer := rec_buffer r @ record_line rj r (now, kind, data),
      rec_written := rec_written r + length (record_line rj r (now, kind, data))\<rparr>, d)"
    using assms(2,3) by (simp add: write_record_def record_line_def Let_def)
  then show ?thesis using rec False assms(2) by (auto simp: recording_def only_changes_def)
qed

lemma line_cong:
  "rec_start_ts r' = rec_start_ts r \<Longrightarrow> record_line rj r' = record_line rj r"
  "rec_start_ts r' = rec_start_ts r \<Longrightarrow> marker_line rj r' = marker_line rj r"
  by (auto simp: record_line_def marker_line_def rec_elapsed_def fun_eq_iff)

lemma record_all_recording:
  assumes "recording r m d all" and "\<not> rec_truncated r"
  shows "\<exists>r' d'. record_all rj (r, d) xs = (r', d') \<and> rec_path r' = rec_path r \<and>
    only_changes (rec_path r) d d' \<and>
    recording r' m d' (all @ cast_tail (record_line rj r) (marker_line rj r) (rec_written r) xs)"
  using assms
proof (induction xs arbitrary: r d all)
  case Nil
  then show ?case by (simp add: record_all_def only_changes_def)
next
  case (Cons x xs)
  obtain now kind data where x: "x = (now, kind, data)" by (cases x)
  obtain r1 d1 where w: "write_record rj now kind data (r, d) = (r1, d1)" by fastforce
  note step = write_record_recording [OF Cons.prems w, folded x]
  show ?case
  proof (cases "MAX_CAST_BYTES < rec_written r + length (record_line rj r x)")
    case True
    then have "record_all rj (r, d) (x # xs) = (r1, d1)"
      using step by (simp add: x record_all_Cons w record_all_truncated)
    with True step show ?thesis by simp
  next
    case False
    let ?all = "all @ record_line rj r x"
    from False step have r1: "recording r1 m d1 ?all" "\<not> rec_truncated r1" by auto
    from Cons.IH [OF this] obtain r' d' where "record_all rj (r1, d1) xs = (r', d')" "rec_path r' = rec_path r1"
      "only_changes (rec_path r1) d1 d'"
      "recording r' m d' (?all @ cast_tail (record_line rj r1) (marker_line rj r1) (rec_written r1) xs)"
      by blast
    with False step show ?thesis
      by (simp add: x record_all_Cons w only_changes_def line_cong [of r1 r])
  qed
qed

text \<open>The shape of the tail: whole records, and one marker at the first that does not fit.\<close>

lemma cast_tail_shape:
  "\<exists>k \<le> length xs. cast_tail line marker w xs =
      concat (map line (take k xs)) @ (if k < length xs then marker (xs ! k) else []) \<and>
    (0 < k \<longrightarrow> w + length (concat (map line (take k xs))) \<le> MAX_CAST_BYTES) \<and>
    (k < length xs \<longrightarrow> MAX_CAST_BYTES < w + length (concat (map line (take (Suc k) xs))))"
proof (induction xs arbitrary: w)
  case (Cons x xs)
  show ?case
  proof (cases "MAX_CAST_BYTES < w + length (line x)")
    case True
    then show ?thesis by (intro exI [of _ 0]) simp
  next
    case False
    from Cons [of "w + length (line x)"] obtain k where "k \<le> length xs"
      "cast_tail line marker (w + length (line x)) xs =
         concat (map line (take k xs)) @ (if k < length xs then marker (xs ! k) else [])"
      "0 < k \<longrightarrow> w + length (line x) + length (concat (map line (take k xs))) \<le> MAX_CAST_BYTES"
      "k < length xs \<longrightarrow> MAX_CAST_BYTES < w + length (line x) + length (concat (map line (take (Suc k) xs)))"
      by blast
    with False show ?thesis
      by (intro exI [of _ "Suc k"]) (auto simp: add.assoc split: if_splits)
  qed
qed simp

lemma recorder_open_recording:
  assumes "recorder_open hj ts now d p sid = (Inr r, d')"
  shows "recording r SENSITIVE_MODE d' (hj ts (recorder_title sid) @ nl)" and "\<not> rec_truncated r"
    and "rec_written r = length (hj ts (recorder_title sid) @ nl)" and "rec_path r = p" and "rec_buffer r = []"
proof -
  obtain d0 d1 where d1: "fs_open_with SENSITIVE_MODE (\<lambda>_. []) d0 p = Some d1"
    and r: "r = \<lparr>rec_session_id = sid, rec_path = p, rec_buffer = [], rec_start_ts = now,
              rec_written = length (hj ts (recorder_title sid) @ nl), rec_truncated = False\<rparr>"
    and d': "d' = ignore (fs_append (hj ts (recorder_title sid) @ nl)) (ignore (fs_set_permissions SENSITIVE_MODE) d1 p) p"
    using assms by (auto simp: recorder_open_def Let_def split: option.splits)
  have p: "p \<noteq> []" using d1 by (auto simp: fs_open_with_def dlookup_def)
  then obtain m where "dlookup d1 p = Some (DFile m [])"
    using d1 by (auto simp: fs_open_with_def dlookup_put split: option.splits dentry.splits if_splits)
  then have "dlookup (ignore (fs_set_permissions SENSITIVE_MODE) d1 p) p = Some (DFile SENSITIVE_MODE [])"
    using p by (simp add: ignore_def fs_set_permissions_def dlookup_put)
  from append_lookup [OF this p] show "recording r SENSITIVE_MODE d' (hj ts (recorder_title sid) @ nl)"
    by (simp add: recording_def r d' p)
qed (use assms in \<open>auto simp: recorder_open_def Let_def split: option.splits\<close>)

text \<open>
  Claim C25: a session recording that was opened, fed any sequence of records and closed is a file of
  mode 0600 that holds the header, then whole records in order up to the 32 MiB cap, then exactly one
  truncation marker if and only if some record did not fit; nothing after the first record that
  does not fit is written, and no other file is touched.
\<close>
theorem recording_is_capped:
  assumes "recorder_open hj ts now d p sid = (Inr r, d0)"
    and "length (hj ts (recorder_title sid) @ nl) \<le> MAX_CAST_BYTES"
    and "record_all rj (r, d0) xs = (r1, d1)" and "recorder_close r1 d1 = (r2, d2)"
  shows "\<exists>k body. dlookup d2 p = Some (DFile SENSITIVE_MODE
        (body @ (if k < length xs then marker_line rj r (xs ! k) else []))) \<and>
      body = hj ts (recorder_title sid) @ nl @ concat (map (record_line rj r) (take k xs)) \<and>
      k \<le> length xs \<and> length body \<le> MAX_CAST_BYTES \<and>
      (k < length xs \<longrightarrow> MAX_CAST_BYTES < length body + length (record_line rj r (xs ! k))) \<and>
      (\<forall>q. q \<noteq> p \<longrightarrow> dlookup d2 q = dlookup d0 q)"
proof -
  note opened = recorder_open_recording [OF assms(1)]
  let ?h = "hj ts (recorder_title sid) @ nl"
  from record_all_recording [OF opened(1,2), of rj xs] assms(3) opened(4)
  have all: "recording r1 SENSITIVE_MODE d1 (?h @ cast_tail (record_line rj r) (marker_line rj r) (rec_written r) xs)"
    and path: "rec_path r1 = p" and only: "only_changes p d0 d1"
    by auto
  have flush: "rec_flush r1 d1 = (r2, d2)" using assms(4) by (simp add: recorder_close_def)
  note closed = rec_flush_recording [OF all flush]
  from cast_tail_shape [of xs "record_line rj r" "marker_line rj r" "rec_written r"] opened(3)
  obtain k where k: "k \<le> length xs"
    "cast_tail (record_line rj r) (marker_line rj r) (rec_written r) xs =
       concat (map (record_line rj r) (take k xs)) @ (if k < length xs then marker_line rj r (xs ! k) else [])"
    "0 < k \<longrightarrow> length ?h + length (concat (map (record_line rj r) (take k xs))) \<le> MAX_CAST_BYTES"
    "k < length xs \<longrightarrow> MAX_CAST_BYTES < length ?h + length (concat (map (record_line rj r) (take (Suc k) xs)))"
    by auto
  have "dlookup d2 p = Some (DFile SENSITIVE_MODE
      (?h @ cast_tail (record_line rj r) (marker_line rj r) (rec_written r) xs))"
    using closed path by (auto simp: recording_def)
  moreover have "\<forall>q. q \<noteq> p \<longrightarrow> dlookup d2 q = dlookup d0 q"
    using only closed(3) path by (simp add: only_changes_def)
  moreover have "length (?h @ concat (map (record_line rj r) (take k xs))) \<le> MAX_CAST_BYTES"
    using k(3) assms(2) by (cases "k = 0") auto
  ultimately show ?thesis
    using k by (intro exI [of _ k] exI [of _ "?h @ concat (map (record_line rj r) (take k xs))"])
      (simp add: take_Suc_conv_app_nth add.assoc)
qed

definition plain_json :: record_json_fn where
  "plain_json t kind data = kind @ '' '' @ data"

definition demo_recorder :: SessionRecorder where
  "demo_recorder =
     \<lparr>rec_session_id = ''ab'', rec_path = [''var'', ''ab.cast''], rec_buffer = [], rec_start_ts = 0,
      rec_written = 3, rec_truncated = False\<rparr>"

definition demo_cast_disk :: disk where
  "demo_cast_disk =
     \<lparr>dentries = [([''var''], DDir 493), ([''var'', ''attacks.json''], DFile 420 (''old'' @ nl)),
                  ([''var'', ''ab.cast''], DFile 384 (''{}'' @ nl))],
      new_file_mode = 420, new_dir_mode = 493\<rparr>"

theorem recording_is_capped_witness:
  "\<exists>k body. dlookup (snd (recorder_close (fst (record_all plain_json (demo_recorder, demo_cast_disk) [(0, ''o'', ''hi'')]))
                (snd (record_all plain_json (demo_recorder, demo_cast_disk) [(0, ''o'', ''hi'')]))))
        [''var'', ''ab.cast''] =
      Some (DFile SENSITIVE_MODE
        (body @ (if k < 1 then marker_line plain_json demo_recorder ([(0, ''o'', ''hi'')] ! k) else []))) \<and>
      body = ''{}'' @ nl @ concat (map (record_line plain_json demo_recorder) (take k [(0, ''o'', ''hi'')])) \<and>
      length body \<le> MAX_CAST_BYTES"
proof -
  have opened: "recorder_open (\<lambda>_ _. ''{}'') 0 0 log_disk [''var'', ''ab.cast''] ''ab'' =
      (Inr demo_recorder, demo_cast_disk)"
    by (simp add: recorder_open_def path_parent_def fs_create_dir_all_def log_disk_def is_dir_def dlookup_def
        fs_open_with_def put_def ignore_def fs_set_permissions_def fs_append_def demo_recorder_def
        demo_cast_disk_def SENSITIVE_MODE_def nl_def Let_def)
  show ?thesis
    using recording_is_capped [OF opened, of plain_json "[(0, ''o'', ''hi'')]",
        OF _ prod.collapse [symmetric] prod.collapse [symmetric]]
    by (auto simp: nl_def MAX_CAST_BYTES_def)
qed

end
