(* ===== verification/Rootfs.thy ===== *)
theory Rootfs
  imports Disk
begin

text \<open>
  The golden root file system (\<^verbatim>\<open>crates/aegis-vmm/src/rootfs.rs\<close>): the directory hierarchy and the
  files that every sandbox sees below its own layer, and the provisioning that writes them.

  A \<^verbatim>\<open>?\<close> that returns early is the left value of the result, with the disk as it was left. Permission
  bits are decimal: octal 1777 is 1023, 644 is 420, 755 is 493.
\<close>

section \<open>Contents\<close>

definition golden_dirs :: "path list" where
  "golden_dirs =
     [
      [''bin''], [''boot''], [''boot'', ''grub''], [''dev''], [''dev'', ''pts''],
      [''dev'', ''shm''], [''etc''], [''etc'', ''ssh''], [''etc'', ''network''],
      [''etc'', ''cron.d''], [''etc'', ''cron.daily''], [''etc'', ''cron.hourly''],
      [''etc'', ''cron.weekly''], [''etc'', ''cron.monthly''], [''etc'', ''systemd''],
      [''etc'', ''systemd'', ''system''], [''etc'', ''pam.d''], [''etc'', ''security''],
      [''etc'', ''default''], [''etc'', ''apt''], [''etc'', ''apt'', ''sources.list.d''],
      [''home''], [''home'', ''ubuntu''], [''home'', ''ubuntu'', ''.ssh''],
      [''home'', ''ubuntu'', ''projects''], [''lib''], [''lib64''], [''media''], [''mnt''],
      [''opt''], [''proc''], [''proc'', ''net''], [''proc'', ''sys'', ''kernel''], [''root''],
      [''root'', ''.ssh''], [''run''], [''run'', ''sshd''], [''run'', ''systemd''],
      [''run'', ''user''], [''sbin''], [''srv''], [''sys''], [''sys'', ''class''],
      [''sys'', ''devices''], [''sys'', ''fs'', ''cgroup''], [''tmp''], [''usr''],
      [''usr'', ''bin''], [''usr'', ''sbin''], [''usr'', ''lib''], [''usr'', ''lib64''],
      [''usr'', ''local''], [''usr'', ''local'', ''bin''], [''usr'', ''local'', ''sbin''],
      [''usr'', ''share''], [''usr'', ''include''], [''var''], [''var'', ''backups''],
      [''var'', ''cache''], [''var'', ''cache'', ''apt''],
      [''var'', ''cache'', ''apt'', ''archives''], [''var'', ''lib''],
      [''var'', ''lib'', ''dpkg''], [''var'', ''lib'', ''systemd''], [''var'', ''local''],
      [''var'', ''lock''], [''var'', ''log''], [''var'', ''log'', ''nginx''],
      [''var'', ''log'', ''journal''], [''var'', ''mail''], [''var'', ''opt''], [''var'', ''run''],
      [''var'', ''spool''], [''var'', ''spool'', ''cron''],
      [''var'', ''spool'', ''cron'', ''crontabs''], [''var'', ''tmp''], [''var'', ''www''],
      [''var'', ''www'', ''html'']]"

definition GOLDEN_ETC_PASSWD :: string where
  "GOLDEN_ETC_PASSWD =
     ''root:x:0:0:root:/root:/bin/bash'' @ nl
     @ ''daemon:x:1:1:daemon:/usr/sbin:/usr/sbin/nologin'' @ nl
     @ ''bin:x:2:2:bin:/bin:/usr/sbin/nologin'' @ nl
     @ ''sys:x:3:3:sys:/dev:/usr/sbin/nologin'' @ nl
     @ ''sync:x:4:65534:sync:/bin:/bin/sync'' @ nl
     @ ''games:x:5:60:games:/usr/games:/usr/sbin/nologin'' @ nl
     @ ''man:x:6:12:man:/var/cache/man:/usr/sbin/nologin'' @ nl
     @ ''lp:x:7:7:lp:/var/spool/lpd:/usr/sbin/nologin'' @ nl
     @ ''mail:x:8:8:mail:/var/mail:/usr/sbin/nologin'' @ nl
     @ ''news:x:9:9:news:/var/spool/news:/usr/sbin/nologin'' @ nl
     @ ''uucp:x:10:10:uucp:/var/spool/uucp:/usr/sbin/nologin'' @ nl
     @ ''proxy:x:13:13:proxy:/bin:/usr/sbin/nologin'' @ nl
     @ ''www-data:x:33:33:www-data:/var/www:/usr/sbin/nologin'' @ nl
     @ ''backup:x:34:34:backup:/var/backups:/usr/sbin/nologin'' @ nl
     @ ''list:x:38:38:Mailing List Manager:/var/list:/usr/sbin/nologin'' @ nl
     @ ''nobody:x:65534:65534:nobody:/nonexistent:/usr/sbin/nologin'' @ nl
     @ ''systemd-network:x:100:102:systemd Network Management,,,:/run/systemd:/usr/sbin/nologin'' @ nl
     @ ''systemd-resolve:x:101:103:systemd Resolver,,,:/run/systemd:/usr/sbin/nologin'' @ nl
     @ ''messagebus:x:102:105::/nonexistent:/usr/sbin/nologin'' @ nl
     @ ''systemd-timesync:x:103:106:systemd Time Synchronization,,,:/run/systemd:/usr/sbin/nologin'' @ nl
     @ ''syslog:x:104:110::/home/syslog:/usr/sbin/nologin'' @ nl
     @ ''_apt:x:105:65534::/nonexistent:/usr/sbin/nologin'' @ nl
     @ ''sshd:x:106:65534::/run/sshd:/usr/sbin/nologin'' @ nl
     @ ''ubuntu:x:1000:1000:Ubuntu:/home/ubuntu:/bin/bash'' @ nl"

definition GOLDEN_ETC_SHADOW :: string where
  "GOLDEN_ETC_SHADOW =
     ''root:$6$rounds=4096$Fk9mS...$rO2u.F88z1Ff9a2b8...:19400:0:99999:7:::'' @ nl
     @ ''daemon:*:19400:0:99999:7:::'' @ nl
     @ ''bin:*:19400:0:99999:7:::'' @ nl
     @ ''sys:*:19400:0:99999:7:::'' @ nl
     @ ''sync:*:19400:0:99999:7:::'' @ nl
     @ ''games:*:19400:0:99999:7:::'' @ nl
     @ ''man:*:19400:0:99999:7:::'' @ nl
     @ ''lp:*:19400:0:99999:7:::'' @ nl
     @ ''mail:*:19400:0:99999:7:::'' @ nl
     @ ''news:*:19400:0:99999:7:::'' @ nl
     @ ''uucp:*:19400:0:99999:7:::'' @ nl
     @ ''proxy:*:19400:0:99999:7:::'' @ nl
     @ ''www-data:*:19400:0:99999:7:::'' @ nl
     @ ''backup:*:19400:0:99999:7:::'' @ nl
     @ ''list:*:19400:0:99999:7:::'' @ nl
     @ ''nobody:*:19400:0:99999:7:::'' @ nl
     @ ''systemd-network:*:19400:0:99999:7:::'' @ nl
     @ ''systemd-resolve:*:19400:0:99999:7:::'' @ nl
     @ ''messagebus:*:19400:0:99999:7:::'' @ nl
     @ ''systemd-timesync:*:19400:0:99999:7:::'' @ nl
     @ ''syslog:*:19400:0:99999:7:::'' @ nl
     @ ''_apt:*:19400:0:99999:7:::'' @ nl
     @ ''sshd:*:19400:0:99999:7:::'' @ nl
     @ ''ubuntu:$6$v8L9Pq1...$Xn8kL0...:19400:0:99999:7:::'' @ nl"

definition GOLDEN_ETC_GROUP :: string where
  "GOLDEN_ETC_GROUP =
     ''root:x:0:'' @ nl
     @ ''daemon:x:1:'' @ nl
     @ ''bin:x:2:'' @ nl
     @ ''sys:x:3:'' @ nl
     @ ''adm:x:4:syslog,ubuntu'' @ nl
     @ ''tty:x:5:'' @ nl
     @ ''disk:x:6:'' @ nl
     @ ''lp:x:7:'' @ nl
     @ ''mail:x:8:'' @ nl
     @ ''news:x:9:'' @ nl
     @ ''uucp:x:10:'' @ nl
     @ ''man:x:12:'' @ nl
     @ ''proxy:x:13:'' @ nl
     @ ''kmem:x:15:'' @ nl
     @ ''dialout:x:20:ubuntu'' @ nl
     @ ''fax:x:21:'' @ nl
     @ ''voice:x:22:'' @ nl
     @ ''cdrom:x:24:ubuntu'' @ nl
     @ ''floppy:x:25:'' @ nl
     @ ''tape:x:26:'' @ nl
     @ ''sudo:x:27:ubuntu'' @ nl
     @ ''audio:x:29:ubuntu'' @ nl
     @ ''dip:x:30:ubuntu'' @ nl
     @ ''www-data:x:33:'' @ nl
     @ ''backup:x:34:'' @ nl
     @ ''operator:x:37:'' @ nl
     @ ''src:x:40:'' @ nl
     @ ''shadow:x:42:'' @ nl
     @ ''utmp:x:43:'' @ nl
     @ ''video:x:44:ubuntu'' @ nl
     @ ''sasl:x:45:'' @ nl
     @ ''plugdev:x:46:ubuntu'' @ nl
     @ ''staff:x:50:'' @ nl
     @ ''games:x:60:'' @ nl
     @ ''users:x:100:'' @ nl
     @ ''nogroup:x:65534:'' @ nl
     @ ''ubuntu:x:1000:'' @ nl"

definition GOLDEN_ETC_HOSTS :: string where
  "GOLDEN_ETC_HOSTS =
     ''127.0.0.1 localhost'' @ nl
     @ ''127.0.1.1 ubuntu-server-01'' @ nl
     @ nl
     @ ''# The following lines are desirable for IPv6 capable hosts'' @ nl
     @ ''::1 ip6-localhost ip6-loopback'' @ nl
     @ ''fe00::0 ip6-localnet'' @ nl
     @ ''ff00::0 ip6-mcastprefix'' @ nl
     @ ''ff02::1 ip6-allnodes'' @ nl
     @ ''ff02::2 ip6-allrouters'' @ nl"

definition GOLDEN_ETC_HOSTNAME :: string where
  "GOLDEN_ETC_HOSTNAME =
     ''ubuntu-server-01'' @ nl"

definition GOLDEN_ETC_OS_RELEASE :: string where
  "GOLDEN_ETC_OS_RELEASE =
     ''PRETTY_NAME='' @ [dquote] @ ''Ubuntu 22.04.2 LTS'' @ [dquote] @ nl
     @ ''NAME='' @ [dquote] @ ''Ubuntu'' @ [dquote] @ nl
     @ ''VERSION_ID='' @ [dquote] @ ''22.04'' @ [dquote] @ nl
     @ ''VERSION='' @ [dquote] @ ''22.04.2 LTS (Jammy Jellyfish)'' @ [dquote] @ nl
     @ ''VERSION_CODENAME=jammy'' @ nl
     @ ''ID=ubuntu'' @ nl
     @ ''ID_LIKE=debian'' @ nl
     @ ''HOME_URL='' @ [dquote] @ ''https://www.ubuntu.com/'' @ [dquote] @ nl
     @ ''SUPPORT_URL='' @ [dquote] @ ''https://help.ubuntu.com/'' @ [dquote] @ nl
     @ ''BUG_REPORT_URL='' @ [dquote] @ ''https://bugs.launchpad.net/ubuntu/'' @ [dquote] @ nl
     @ ''PRIVACY_POLICY_URL='' @ [dquote] @ ''https://www.ubuntu.com/legal/terms-and-policies/privacy-policy'' @ [dquote] @ nl
     @ ''UBUNTU_CODENAME=jammy'' @ nl"

definition GOLDEN_ETC_ISSUE :: string where
  "GOLDEN_ETC_ISSUE =
     ''Ubuntu 22.04.2 LTS '' @ [bsl] @ ''n '' @ [bsl] @ ''l'' @ nl
     @ nl"

definition GOLDEN_ETC_RESOLV_CONF :: string where
  "GOLDEN_ETC_RESOLV_CONF =
     ''# This is /run/systemd/resolve/stub-resolv.conf managed by man:systemd-resolved(8).'' @ nl
     @ ''nameserver 127.0.0.53'' @ nl
     @ ''options edns0 trust-ad'' @ nl
     @ ''search localdomain'' @ nl"

definition GOLDEN_ETC_CRONTAB :: string where
  "GOLDEN_ETC_CRONTAB =
     ''# /etc/crontab: system-wide crontab'' @ nl
     @ ''SHELL=/bin/sh'' @ nl
     @ ''PATH=/usr/local/sbin:/usr/local/bin:/sbin:/bin:/usr/sbin:/usr/bin'' @ nl
     @ nl
     @ ''# m h dom mon dow user  command'' @ nl
     @ ''17 *    * * *   root    cd / && run-parts --report /etc/cron.hourly'' @ nl
     @ ''25 6    * * *   root    test -x /usr/sbin/anacron || ( cd / && run-parts --report /etc/cron.daily )'' @ nl
     @ ''47 6    * * 7   root    test -x /usr/sbin/anacron || ( cd / && run-parts --report /etc/cron.weekly )'' @ nl
     @ ''52 6    1 * *   root    test -x /usr/sbin/anacron || ( cd / && run-parts --report /etc/cron.monthly )'' @ nl
     @ ''0 2     * * *   root    /bin/bash /root/backup.sh >> /var/log/backup.log 2>&1'' @ nl"

definition GOLDEN_ETC_FSTAB :: string where
  "GOLDEN_ETC_FSTAB =
     ''# /etc/fstab: static file system information.'' @ nl
     @ ''UUID=3a1b2c3d-4e5f-6a7b-8c9d-0e1f2a3b4c5d /               ext4    errors=remount-ro 0       1'' @ nl
     @ ''/swapfile                                 none            swap    sw              0       0'' @ nl"

definition GOLDEN_ETC_SUDOERS :: string where
  "GOLDEN_ETC_SUDOERS =
     ''Defaults        env_reset'' @ nl
     @ ''Defaults        mail_badpass'' @ nl
     @ ''Defaults        secure_path='' @ [dquote] @ ''/usr/local/sbin:/usr/local/bin:/usr/sbin:/usr/bin:/sbin:/bin'' @ [dquote] @ nl
     @ ''root    ALL=(ALL:ALL) ALL'' @ nl
     @ ''%admin ALL=(ALL) ALL'' @ nl
     @ ''%sudo   ALL=(ALL:ALL) ALL'' @ nl"

definition GOLDEN_ETC_SSH_SSHD_CONFIG :: string where
  "GOLDEN_ETC_SSH_SSHD_CONFIG =
     ''Port 22'' @ nl
     @ ''PermitRootLogin yes'' @ nl
     @ ''PasswordAuthentication yes'' @ nl
     @ ''ChallengeResponseAuthentication no'' @ nl
     @ ''UsePAM yes'' @ nl
     @ ''X11Forwarding yes'' @ nl
     @ ''PrintMotd no'' @ nl
     @ ''AcceptEnv LANG LC_*'' @ nl
     @ ''Subsystem       sftp    /usr/lib/openssh/sftp-server'' @ nl"

definition GOLDEN_ETC_SHELLS :: string where
  "GOLDEN_ETC_SHELLS =
     ''# /etc/shells: valid login shells'' @ nl
     @ ''/bin/sh'' @ nl
     @ ''/bin/bash'' @ nl
     @ ''/usr/bin/sh'' @ nl
     @ ''/usr/bin/bash'' @ nl
     @ ''/bin/rbash'' @ nl
     @ ''/usr/bin/rbash'' @ nl
     @ ''/bin/dash'' @ nl
     @ ''/usr/bin/dash'' @ nl"

definition GOLDEN_ETC_ENVIRONMENT :: string where
  "GOLDEN_ETC_ENVIRONMENT =
     ''PATH='' @ [dquote] @ ''/usr/local/sbin:/usr/local/bin:/usr/sbin:/usr/bin:/sbin:/bin:/usr/games:/usr/local/games:/snap/bin'' @ [dquote] @ nl"

definition GOLDEN_ETC_APT_SOURCES_LIST :: string where
  "GOLDEN_ETC_APT_SOURCES_LIST =
     ''deb http://archive.ubuntu.com/ubuntu jammy main restricted'' @ nl
     @ ''deb http://archive.ubuntu.com/ubuntu jammy-updates main restricted'' @ nl
     @ ''deb http://archive.ubuntu.com/ubuntu jammy universe'' @ nl
     @ ''deb http://archive.ubuntu.com/ubuntu jammy-updates universe'' @ nl
     @ ''deb http://security.ubuntu.com/ubuntu jammy-security main restricted'' @ nl
     @ ''deb http://security.ubuntu.com/ubuntu jammy-security universe'' @ nl"

definition GOLDEN_PROC_CPUINFO :: string where
  "GOLDEN_PROC_CPUINFO =
     ''processor'' @ [tab] @ '': 0'' @ nl
     @ ''vendor_id'' @ [tab] @ '': GenuineIntel'' @ nl
     @ ''cpu family'' @ [tab] @ '': 6'' @ nl
     @ ''model'' @ [tab] @ [tab] @ '': 142'' @ nl
     @ ''model name'' @ [tab] @ '': Intel(R) Xeon(R) CPU E5-2676 v3 @ 2.40GHz'' @ nl
     @ ''stepping'' @ [tab] @ '': 2'' @ nl
     @ ''cpu MHz'' @ [tab] @ [tab] @ '': 2400.046'' @ nl
     @ ''cache size'' @ [tab] @ '': 30720 KB'' @ nl
     @ ''physical id'' @ [tab] @ '': 0'' @ nl
     @ ''siblings'' @ [tab] @ '': 2'' @ nl
     @ ''core id'' @ [tab] @ [tab] @ '': 0'' @ nl
     @ ''cpu cores'' @ [tab] @ '': 2'' @ nl
     @ ''flags'' @ [tab] @ [tab] @ '': fpu vme de pse tsc msr pae mce cx8 apic sep mtrr pge mca cmov pat pse36 clflush mmx fxsr sse sse2 ht syscall nx rdtscp lm constant_tsc rep_good nopl xtopology cpuid tsc_known_freq pni pclmulqdq ssse3 fma cx16 pcid sse4_1 sse4_2 x2apic movbe popcnt tsc_deadline_timer aes xsave avx f16c rdrand hypervisor lahf_lm abm cpuid_fault invpcid_single pti fsgsbase bmi1 avx2 smep bmi2 invpcid xsaveopt arat'' @ nl
     @ ''bugs'' @ [tab] @ [tab] @ '': cpu_meltdown spectre_v1 spectre_v2 spec_store_bypass l1tf mds swapgs itlb_multihit'' @ nl
     @ ''bogomips'' @ [tab] @ '': 4800.09'' @ nl
     @ ''clflush size'' @ [tab] @ '': 64'' @ nl
     @ ''cache_alignment'' @ [tab] @ '': 64'' @ nl
     @ ''address sizes'' @ [tab] @ '': 46 bits physical, 48 bits virtual'' @ nl
     @ nl
     @ ''processor'' @ [tab] @ '': 1'' @ nl
     @ ''vendor_id'' @ [tab] @ '': GenuineIntel'' @ nl
     @ ''cpu family'' @ [tab] @ '': 6'' @ nl
     @ ''model'' @ [tab] @ [tab] @ '': 142'' @ nl
     @ ''model name'' @ [tab] @ '': Intel(R) Xeon(R) CPU E5-2676 v3 @ 2.40GHz'' @ nl
     @ ''stepping'' @ [tab] @ '': 2'' @ nl
     @ ''cpu MHz'' @ [tab] @ [tab] @ '': 2400.046'' @ nl
     @ ''cache size'' @ [tab] @ '': 30720 KB'' @ nl
     @ ''physical id'' @ [tab] @ '': 0'' @ nl
     @ ''siblings'' @ [tab] @ '': 2'' @ nl
     @ ''core id'' @ [tab] @ [tab] @ '': 1'' @ nl
     @ ''cpu cores'' @ [tab] @ '': 2'' @ nl"

definition GOLDEN_PROC_MEMINFO :: string where
  "GOLDEN_PROC_MEMINFO =
     ''MemTotal:        4016148 kB'' @ nl
     @ ''MemFree:         1845120 kB'' @ nl
     @ ''MemAvailable:    2954312 kB'' @ nl
     @ ''Buffers:          124508 kB'' @ nl
     @ ''Cached:          1156824 kB'' @ nl
     @ ''SwapCached:            0 kB'' @ nl
     @ ''Active:          1250140 kB'' @ nl
     @ ''Inactive:         754210 kB'' @ nl
     @ ''SwapTotal:       2097148 kB'' @ nl
     @ ''SwapFree:        2097148 kB'' @ nl"

definition GOLDEN_PROC_VERSION :: string where
  "GOLDEN_PROC_VERSION =
     ''Linux version 5.15.0-72-generic (buildd@lcy02-amd64-019) (gcc (Ubuntu 11.3.0-1ubuntu1~22.04) 11.3.0, GNU ld (GNU Binutils for Ubuntu) 2.38) #79-Ubuntu SMP Wed Apr 19 08:22:18 UTC 2023'' @ nl"

definition GOLDEN_PROC_UPTIME :: string where
  "GOLDEN_PROC_UPTIME =
     ''84321.45 167234.12'' @ nl"

definition GOLDEN_PROC_LOADAVG :: string where
  "GOLDEN_PROC_LOADAVG =
     ''0.08 0.03 0.01 1/148 2841'' @ nl"

definition GOLDEN_ROOT_BASHRC :: string where
  "GOLDEN_ROOT_BASHRC =
     ''# ~/.bashrc: executed by bash(1) for non-login shells.'' @ nl
     @ ''export PS1='' @ [squote] @ [bsl] @ ''['' @ [bsl] @ ''e]0;'' @ [bsl] @ ''u@'' @ [bsl] @ ''h: '' @ [bsl] @ ''w'' @ [bsl] @ ''a'' @ [bsl] @ '']'' @ [bsl] @ ''u@'' @ [bsl] @ ''h:'' @ [bsl] @ ''w'' @ [bsl] @ ''# '' @ [squote] @ nl
     @ ''alias ls='' @ [squote] @ ''ls --color=auto'' @ [squote] @ nl
     @ ''alias ll='' @ [squote] @ ''ls -alF'' @ [squote] @ nl
     @ ''alias la='' @ [squote] @ ''ls -A'' @ [squote] @ nl
     @ ''alias l='' @ [squote] @ ''ls -CF'' @ [squote] @ nl"

definition GOLDEN_ROOT_PROFILE :: string where
  "GOLDEN_ROOT_PROFILE =
     ''# ~/.profile: executed by Bourne-compatible login shells.'' @ nl
     @ ''if [ '' @ [dquote] @ ''$BASH'' @ [dquote] @ '' ]; then'' @ nl
     @ ''if [ -f ~/.bashrc ]; then'' @ nl
     @ ''. ~/.bashrc'' @ nl
     @ ''fi'' @ nl
     @ ''fi'' @ nl
     @ ''mesg n 2> /dev/null || true'' @ nl"

definition GOLDEN_ROOT_BASH_HISTORY :: string where
  "GOLDEN_ROOT_BASH_HISTORY =
     ''apt-get update'' @ nl
     @ ''systemctl status nginx'' @ nl
     @ ''docker ps'' @ nl
     @ ''cat /etc/hosts'' @ nl
     @ ''ufw status'' @ nl
     @ ''ls -la /root'' @ nl"

definition GOLDEN_ROOT_BACKUP_SH :: string where
  "GOLDEN_ROOT_BACKUP_SH =
     ''#!/bin/bash'' @ nl
     @ ''# Daily automated system backup'' @ nl
     @ ''tar -czf /var/backups/system_$(date +%Y%m%d).tar.gz /etc /var/www 2>/dev/null'' @ nl"

definition GOLDEN_HOME_UBUNTU_BASHRC :: string where
  "GOLDEN_HOME_UBUNTU_BASHRC =
     ''export PS1='' @ [squote] @ [bsl] @ ''['' @ [bsl] @ ''e]0;'' @ [bsl] @ ''u@'' @ [bsl] @ ''h: '' @ [bsl] @ ''w'' @ [bsl] @ ''a'' @ [bsl] @ '']'' @ [bsl] @ ''u@'' @ [bsl] @ ''h:'' @ [bsl] @ ''w'' @ [bsl] @ ''$ '' @ [squote] @ nl
     @ ''alias ls='' @ [squote] @ ''ls --color=auto'' @ [squote] @ nl"

definition GOLDEN_HOME_UBUNTU_PROJECTS_README_TXT :: string where
  "GOLDEN_HOME_UBUNTU_PROJECTS_README_TXT =
     ''Internal development projects directory.'' @ nl"

definition GOLDEN_VAR_WWW_HTML_INDEX_HTML :: string where
  "GOLDEN_VAR_WWW_HTML_INDEX_HTML =
     ''<!DOCTYPE html>'' @ nl
     @ ''<html>'' @ nl
     @ ''<head><title>Welcome to nginx!</title></head>'' @ nl
     @ ''<body><h1>Welcome to nginx!</h1><p>If you see this page, the nginx web server is successfully installed.</p></body>'' @ nl
     @ ''</html>'' @ nl"

definition GOLDEN_VAR_LOG_AUTH_LOG :: string where
  "GOLDEN_VAR_LOG_AUTH_LOG =
     ''Aug 27 18:00:01 ubuntu-server-01 CRON[1402]: pam_unix(cron:session): session opened for user root by (uid=0)'' @ nl
     @ ''Aug 27 18:00:01 ubuntu-server-01 CRON[1402]: pam_unix(cron:session): session closed for user root'' @ nl
     @ ''Aug 27 18:25:01 ubuntu-server-01 sshd[1842]: Accepted password for root from 192.0.2.100 port 52341 ssh2'' @ nl"

definition GOLDEN_VAR_LOG_SYSLOG :: string where
  "GOLDEN_VAR_LOG_SYSLOG =
     ''Aug 27 18:00:01 ubuntu-server-01 systemd[1]: Starting Daily apt download activities...'' @ nl
     @ ''Aug 27 18:00:02 ubuntu-server-01 systemd[1]: Finished Daily apt download activities.'' @ nl"

definition golden_files :: "(path \<times> string \<times> nat) list" where
  "golden_files =
     [([''etc'', ''passwd''], GOLDEN_ETC_PASSWD, 420),
      ([''etc'', ''shadow''], GOLDEN_ETC_SHADOW, 416),
      ([''etc'', ''group''], GOLDEN_ETC_GROUP, 420),
      ([''etc'', ''hosts''], GOLDEN_ETC_HOSTS, 420),
      ([''etc'', ''hostname''], GOLDEN_ETC_HOSTNAME, 420),
      ([''etc'', ''os-release''], GOLDEN_ETC_OS_RELEASE, 420),
      ([''etc'', ''issue''], GOLDEN_ETC_ISSUE, 420),
      ([''etc'', ''resolv.conf''], GOLDEN_ETC_RESOLV_CONF, 420),
      ([''etc'', ''crontab''], GOLDEN_ETC_CRONTAB, 420),
      ([''etc'', ''fstab''], GOLDEN_ETC_FSTAB, 420),
      ([''etc'', ''sudoers''], GOLDEN_ETC_SUDOERS, 288),
      ([''etc'', ''ssh'', ''sshd_config''], GOLDEN_ETC_SSH_SSHD_CONFIG, 420),
      ([''etc'', ''shells''], GOLDEN_ETC_SHELLS, 420),
      ([''etc'', ''environment''], GOLDEN_ETC_ENVIRONMENT, 420),
      ([''etc'', ''apt'', ''sources.list''], GOLDEN_ETC_APT_SOURCES_LIST, 420),
      ([''proc'', ''cpuinfo''], GOLDEN_PROC_CPUINFO, 292),
      ([''proc'', ''meminfo''], GOLDEN_PROC_MEMINFO, 292),
      ([''proc'', ''version''], GOLDEN_PROC_VERSION, 292),
      ([''proc'', ''uptime''], GOLDEN_PROC_UPTIME, 292),
      ([''proc'', ''loadavg''], GOLDEN_PROC_LOADAVG, 292),
      ([''root'', ''.bashrc''], GOLDEN_ROOT_BASHRC, 420),
      ([''root'', ''.profile''], GOLDEN_ROOT_PROFILE, 420),
      ([''root'', ''.bash_history''], GOLDEN_ROOT_BASH_HISTORY, 384),
      ([''root'', ''backup.sh''], GOLDEN_ROOT_BACKUP_SH, 488),
      ([''home'', ''ubuntu'', ''.bashrc''], GOLDEN_HOME_UBUNTU_BASHRC, 420),
      ([''home'', ''ubuntu'', ''projects'', ''README.txt''], GOLDEN_HOME_UBUNTU_PROJECTS_README_TXT, 420),
      ([''var'', ''www'', ''html'', ''index.html''], GOLDEN_VAR_WWW_HTML_INDEX_HTML, 420),
      ([''var'', ''log'', ''auth.log''], GOLDEN_VAR_LOG_AUTH_LOG, 416),
      ([''var'', ''log'', ''syslog''], GOLDEN_VAR_LOG_SYSLOG, 416)]"

definition bin_names :: "string list" where
  "bin_names =
     [
      ''bash'', ''sh'', ''dash'', ''ls'', ''cat'', ''cp'', ''mv'', ''rm'', ''mkdir'', ''rmdir'',
      ''touch'', ''chmod'', ''chown'', ''uname'', ''id'', ''whoami'', ''hostname'', ''ps'',
      ''kill'', ''pkill'', ''grep'', ''find'', ''sed'', ''awk'', ''cut'', ''head'', ''tail'',
      ''wc'', ''sort'', ''uniq'', ''echo'', ''date'', ''sleep'', ''which'', ''curl'', ''wget'',
      ''python3'', ''python'', ''perl'', ''sudo'', ''su'', ''passwd'', ''crontab'', ''tar'',
      ''gzip'', ''base64'', ''xxd'', ''nc'', ''netcat'', ''ping'', ''netstat'', ''ss'',
      ''ifconfig'', ''ip'', ''df'', ''free'', ''uptime'', ''dmesg'', ''systemctl'', ''service'',
      ''journalctl'', ''apt'', ''apt-get'', ''dpkg'', ''nmap'']"

definition stub_text :: "string \<Rightarrow> string" where
  "stub_text name = ''#!/bin/sh'' @ nl @ ''# Aegis sandbox stub: '' @ name @ nl @ ''exit 0'' @ nl"

definition golden_stubs :: "(path \<times> string \<times> nat) list" where
  "golden_stubs =
     concat (map (\<lambda>name. [([''bin'', name], stub_text name, 493), ([''usr'', ''bin'', name], stub_text name, 493)])
       bin_names)"

definition golden_all :: "(path \<times> string \<times> nat) list" where
  "golden_all = golden_files @ golden_stubs"

section \<open>Provisioning\<close>

definition rootfs_write_file :: "disk \<Rightarrow> path \<Rightarrow> string \<Rightarrow> nat \<Rightarrow> (AegisError + unit) \<times> disk" where
  "rootfs_write_file d p content mode =
     (case (case path_parent p of Some parent \<Rightarrow> fs_create_dir_all d parent | None \<Rightarrow> Some d) of
        None \<Rightarrow> (Inl Io, d)
      | Some d0 \<Rightarrow>
          (let d1 = (if path_exists d0 p then ignore (fs_set_permissions 420) d0 p else d0)
           in case fs_write content d1 p of
                None \<Rightarrow> (Inl Io, d1)
              | Some d2 \<Rightarrow> (Inr (), ignore (fs_set_permissions mode) d2 p)))"

text \<open>A loop whose body may return early.\<close>

fun try_each :: "(disk \<Rightarrow> 'a \<Rightarrow> (AegisError + unit) \<times> disk) \<Rightarrow> disk \<Rightarrow> 'a list \<Rightarrow> (AegisError + unit) \<times> disk" where
  "try_each f d [] = (Inr (), d)"
| "try_each f d (x # xs) =
     (case f d x of (Inl e, d') \<Rightarrow> (Inl e, d') | (Inr _, d') \<Rightarrow> try_each f d' xs)"

definition make_dir :: "disk \<Rightarrow> path \<Rightarrow> (AegisError + unit) \<times> disk" where
  "make_dir d p = (case fs_create_dir_all d p of Some d' \<Rightarrow> (Inr (), d') | None \<Rightarrow> (Inl Io, d))"

definition ensure_golden_rootfs :: "disk \<Rightarrow> path \<Rightarrow> (AegisError + unit) \<times> disk" where
  "ensure_golden_rootfs d base =
     (case try_each (\<lambda>d p. make_dir d (base @ p)) d golden_dirs of
        (Inl e, d1) \<Rightarrow> (Inl e, d1)
      | (Inr _, d1) \<Rightarrow>
          (let d2 = ignore (fs_set_permissions 1023) d1 (base @ [''tmp'']);
               d3 = ignore (fs_set_permissions 1023) d2 (base @ [''var'', ''tmp''])
           in try_each (\<lambda>d (p, content, mode). rootfs_write_file d (base @ p) content mode) d3
                golden_all))"

section \<open>The loop\<close>

lemma try_each_ok:
  assumes "I d"
    and step: "\<And>x d. x \<in> set xs \<Longrightarrow> I d \<Longrightarrow>
      \<exists>d'. f d x = (Inr (), d') \<and> I d' \<and> R x d' \<and> (\<forall>y\<in>Y. y \<noteq> x \<longrightarrow> R y d \<longrightarrow> R y d')"
    and "set xs \<subseteq> Y"
  shows "\<exists>d'. try_each f d xs = (Inr (), d') \<and> I d' \<and> (\<forall>x\<in>set xs. R x d') \<and> (\<forall>y\<in>Y. R y d \<longrightarrow> R y d')"
  using assms
proof (induction xs arbitrary: d)
  case (Cons x xs)
  from Cons.prems(1,2) obtain d1 where d1: "f d x = (Inr (), d1)" "I d1" "R x d1"
    and keep: "\<forall>y\<in>Y. y \<noteq> x \<longrightarrow> R y d \<longrightarrow> R y d1"
    by (meson list.set_intros(1))
  from Cons.IH [OF d1(2)] Cons.prems(2,3) obtain d' where "try_each f d1 xs = (Inr (), d')" "I d'"
    "\<forall>x\<in>set xs. R x d'" "\<forall>y\<in>Y. R y d1 \<longrightarrow> R y d'"
    by (metis insert_subset list.set(2) list.set_intros(2))
  moreover have "x \<in> Y" using Cons.prems(3) by simp
  ultimately have "try_each f d (x # xs) = (Inr (), d')" "I d'" "\<forall>y\<in>set (x # xs). R y d'"
    "\<forall>y\<in>Y. R y d \<longrightarrow> R y d'"
    using d1 keep by auto
  then show ?case by blast
qed auto

section \<open>The table of files is consistent\<close>

lemma stub_paths: "(F, c, m) \<in> set golden_stubs \<Longrightarrow> \<exists>n\<in>set bin_names. F = [''bin'', n] \<or> F = [''usr'', ''bin'', n]"
  by (auto simp: golden_stubs_def)

lemma golden_parent:
  assumes "(F, c, m) \<in> set golden_all"
  shows "butlast F \<in> set golden_dirs" and "F \<noteq> []"
proof -
  have "list_all (\<lambda>F. butlast F \<in> set golden_dirs \<and> F \<noteq> []) (map fst golden_files)"
    unfolding golden_files_def golden_dirs_def by simp
  moreover have "[''bin''] \<in> set golden_dirs" "[''usr'', ''bin''] \<in> set golden_dirs"
    by (simp_all add: golden_dirs_def)
  ultimately have "butlast F \<in> set golden_dirs \<and> F \<noteq> []"
    using assms stub_paths [of F c m] by (auto simp: list_all_iff golden_all_def)
  then show "butlast F \<in> set golden_dirs" and "F \<noteq> []" by simp_all
qed

lemma golden_no_clash:
  assumes "(F, c, m) \<in> set golden_all" and "D \<in> set golden_dirs"
  shows "\<not> prefix F D"
proof -
  have "list_all (\<lambda>F. list_all (\<lambda>D. \<not> prefix F D) golden_dirs) (map fst golden_files)"
    unfolding golden_files_def golden_dirs_def by simp
  moreover have "list_all (\<lambda>D. \<not> prefix [''bin'', n] D \<and> \<not> prefix [''usr'', ''bin'', n] D) golden_dirs" for n
    unfolding golden_dirs_def by simp
  ultimately show ?thesis
    using assms stub_paths [of F c m] by (fastforce simp: list_all_iff golden_all_def)
qed

lemma distinct_stubs:
  "distinct ns \<Longrightarrow> distinct (map fst (concat (map (\<lambda>n. [([''bin'', n], t n, m), ([''usr'', ''bin'', n], t n, m)]) ns)))"
  by (induction ns) auto

lemma golden_distinct: "distinct (map fst golden_all)"
proof -
  have "distinct (map fst golden_files)"
    unfolding golden_files_def by simp
  moreover have "list_all (\<lambda>F. hd F \<noteq> ''bin'' \<and> hd F \<noteq> ''usr'') (map fst golden_files)"
    unfolding golden_files_def by simp
  moreover have "distinct bin_names" unfolding bin_names_def by simp
  then have "distinct (map fst golden_stubs)"
    unfolding golden_stubs_def by (rule distinct_stubs)
  ultimately show ?thesis
    using stub_paths by (fastforce simp: list_all_iff golden_all_def)
qed

section \<open>Writing one file\<close>

lemma create_existing_lookup:
  assumes "disk_wf d" and "is_dir d p"
  obtains d' where "fs_create_dir_all d p = Some d'" and "disk_wf d'" and "\<And>q. dlookup d' q = dlookup d q"
proof -
  have dirs: "is_dir d q" if "prefix q p" for q
    using disk_wf_ancestor [OF assms(1), of q] that is_dir_exists [OF assms(2)] assms(2)
    by (cases "q = p") (auto simp: prefix_def)
  then obtain d' where d': "fs_create_dir_all d p = Some d'"
    using create_dir_all_iff [OF assms(1)] is_dir_not_file by blast
  have "dlookup d' q = dlookup d q" for q
    using create_dir_all_lookup(2) [OF assms(1) d', of q] dirs [of q]
    by (auto simp: is_dir_def split: if_splits)
  with d' create_dir_all_lookup(1) [OF assms(1) d'] show ?thesis by (rule that)
qed

lemma chmod_lookup:
  "p \<noteq> [] \<Longrightarrow> dlookup (ignore (fs_set_permissions m) d p) q =
     (if q = p then map_option (chmod_entry m) (dlookup d p) else dlookup d q)"
  by (auto simp: ignore_def fs_set_permissions_def dlookup_put split: option.splits)

lemma chmod_kind:
  assumes "p \<noteq> []"
  shows "is_dir (ignore (fs_set_permissions m) d p) q = is_dir d q"
    and "is_file (ignore (fs_set_permissions m) d p) q = is_file d q"
  using chmod_lookup [OF assms, of m d q]
  by (auto simp: is_dir_def is_file_def split: option.splits dentry.splits if_splits elim: chmod_entry.elims)

lemma fs_write_lookup:
  assumes "\<not> is_dir d p" and "is_dir d (butlast p)" and "p \<noteq> []"
  obtains d' m where "fs_write c d p = Some d'"
    and "\<And>q. dlookup d' q = (if q = p then Some (DFile m c) else dlookup d q)"
proof (cases "dlookup d p")
  case None
  then show ?thesis
    using assms by (intro that) (auto simp: fs_write_def fs_open_with_def dlookup_put)
next
  case (Some e)
  with assms obtain m c' where "dlookup d p = Some (DFile m c')" by (cases e) (auto simp: is_dir_def)
  then show ?thesis
    using assms by (intro that) (auto simp: fs_write_def fs_open_with_def dlookup_put)
qed

lemma rootfs_write_lookup:
  assumes wf: "disk_wf d" and par: "is_dir d (butlast p)" and p: "p \<noteq> []" and nd: "\<not> is_dir d p"
  obtains d' where "rootfs_write_file d p c m = (Inr (), d')" and "disk_wf d'"
    and "\<And>q. dlookup d' q = (if q = p then Some (DFile m c) else dlookup d q)"
proof -
  obtain d0 where d0: "fs_create_dir_all d (butlast p) = Some d0" "disk_wf d0"
    and l0: "\<And>q. dlookup d0 q = dlookup d q"
    using create_existing_lookup [OF wf par] by blast
  define d1 where "d1 = (if path_exists d0 p then ignore (fs_set_permissions 420) d0 p else d0)"
  have wf1: "disk_wf d1"
    using d0(2) set_permissions.ignore_wf p by (simp add: d1_def)
  have l1: "dlookup d1 q = dlookup d q" if "q \<noteq> p" for q
    using that p by (simp add: d1_def chmod_lookup l0)
  have k1: "is_dir d1 q = is_dir d q" for q
    using p by (simp add: d1_def chmod_kind) (simp add: is_dir_def l0)
  have "\<not> is_dir d1 p" "is_dir d1 (butlast p)" using nd par by (simp_all add: k1)
  from fs_write_lookup [OF this p] obtain d2 m' where d2: "fs_write c d1 p = Some d2"
    and l2: "\<And>q. dlookup d2 q = (if q = p then Some (DFile m' c) else dlookup d1 q)" by blast
  have wf2: "disk_wf d2" using write_file.upd_wf [OF wf1 p d2] .
  show ?thesis
  proof (rule that [of "ignore (fs_set_permissions m) d2 p"])
    show "rootfs_write_file d p c m = (Inr (), ignore (fs_set_permissions m) d2 p)"
      using d2 by (simp add: rootfs_write_file_def path_parent_def p d0(1) d1_def Let_def)
    show "disk_wf (ignore (fs_set_permissions m) d2 p)"
      by (rule set_permissions.ignore_wf [OF wf2 p])
    show "dlookup (ignore (fs_set_permissions m) d2 p) q = (if q = p then Some (DFile m c) else dlookup d q)" for q
      using p l1 by (simp add: chmod_lookup l2)
  qed
qed

section \<open>Provisioning the whole tree\<close>

text \<open>No file stands where a directory is needed and no directory where a file is.\<close>

definition provisionable :: "path \<Rightarrow> disk \<Rightarrow> bool" where
  "provisionable base d \<longleftrightarrow>
     disk_wf d \<and> (\<forall>D\<in>set golden_dirs. \<forall>q. prefix q (base @ D) \<longrightarrow> \<not> is_file d q) \<and>
     (\<forall>F\<in>fst ` set golden_all. \<not> is_dir d (base @ F))"

text \<open>Neither on the way to \<open>base\<close> nor below it.\<close>

definition unrelated :: "path \<Rightarrow> path \<Rightarrow> bool" where
  "unrelated base q \<longleftrightarrow> \<not> prefix base q \<and> \<not> prefix q base"

definition same_elsewhere :: "path \<Rightarrow> disk \<Rightarrow> disk \<Rightarrow> bool" where
  "same_elsewhere base d d' \<longleftrightarrow> (\<forall>q. unrelated base q \<longrightarrow> dlookup d' q = dlookup d q)"

lemma make_dir_step:
  assumes prov: "provisionable base d" and D: "D \<in> set golden_dirs"
  shows "\<exists>d'. make_dir d (base @ D) = (Inr (), d') \<and> provisionable base d' \<and> same_elsewhere base d d' \<and>
    is_dir d' (base @ D) \<and> (\<forall>q. is_dir d q \<longrightarrow> is_dir d' q)"
proof -
  have wf: "disk_wf d" using prov by (simp add: provisionable_def)
  obtain d' where d': "fs_create_dir_all d (base @ D) = Some d'"
    using create_dir_all_iff [OF wf] prov D by (meson provisionable_def)
  note l = create_dir_all_lookup(2) [OF wf d']
  have files: "is_file d' q \<longleftrightarrow> is_file d q" for q by (auto simp: is_file_def l)
  have dirs: "is_dir d' q \<longleftrightarrow> is_dir d q \<or> dlookup d q = None \<and> prefix q (base @ D)" for q
    by (auto simp: is_dir_def l)
  have "\<not> is_dir d' (base @ F)" if "F \<in> fst ` set golden_all" for F
  proof -
    from that obtain c m where "(F, c, m) \<in> set golden_all" by auto
    then show ?thesis
      using that prov golden_no_clash [OF _ D] by (auto simp: provisionable_def dirs)
  qed
  then have "provisionable base d'"
    using prov create_dir_all_lookup(1) [OF wf d'] by (simp add: provisionable_def files)
  moreover have "same_elsewhere base d d'"
    by (auto simp: same_elsewhere_def unrelated_def l prefix_append)
  moreover have "is_dir d' (base @ D)"
    using prov D exists_cases [of d "base @ D"] by (auto simp: dirs provisionable_def path_exists_def)
  ultimately show ?thesis using d' dirs by (auto simp: make_dir_def)
qed

lemma same_elsewhere_trans [trans]:
  "same_elsewhere base a b \<Longrightarrow> same_elsewhere base b c \<Longrightarrow> same_elsewhere base a c"
  by (simp add: same_elsewhere_def)

lemma chmod_step:
  assumes "provisionable base d" and "p = base @ D" and "D \<noteq> []"
  shows "provisionable base (ignore (fs_set_permissions m) d p)"
    and "same_elsewhere base d (ignore (fs_set_permissions m) d p)"
  using assms
  by (auto simp: provisionable_def same_elsewhere_def unrelated_def chmod_kind chmod_lookup
      intro: set_permissions.ignore_wf)

definition dirs_made :: "path \<Rightarrow> disk \<Rightarrow> bool" where
  "dirs_made base d \<longleftrightarrow> (\<forall>D\<in>set golden_dirs. is_dir d (base @ D))"

lemma write_step:
  assumes prov: "provisionable base d" and made: "dirs_made base d" and F: "(F, c, m) \<in> set golden_all"
  shows "\<exists>d'. rootfs_write_file d (base @ F) c m = (Inr (), d') \<and> provisionable base d' \<and> dirs_made base d' \<and>
    same_elsewhere base d d' \<and> (\<forall>q. dlookup d' q = (if q = base @ F then Some (DFile m c) else dlookup d q))"
proof -
  note par = golden_parent [OF F]
  have "is_dir d (butlast (base @ F))"
    using made par by (simp add: dirs_made_def butlast_append)
  moreover have "\<not> is_dir d (base @ F)" using prov F by (force simp: provisionable_def)
  ultimately obtain d' where d': "rootfs_write_file d (base @ F) c m = (Inr (), d')" "disk_wf d'"
    and l: "\<And>q. dlookup d' q = (if q = base @ F then Some (DFile m c) else dlookup d q)"
    using rootfs_write_lookup [of d "base @ F" c m] prov par(2) by (auto simp: provisionable_def)
  have clash: "\<not> prefix (base @ F) (base @ D)" if "D \<in> set golden_dirs" for D
    using golden_no_clash [OF F that] by simp
  have files: "is_file d' q \<longleftrightarrow> q = base @ F \<or> is_file d q" for q by (simp add: is_file_def l)
  have dirs: "is_dir d' q \<longleftrightarrow> q \<noteq> base @ F \<and> is_dir d q" for q by (simp add: is_dir_def l)
  have "provisionable base d'"
    using prov clash d'(2) by (auto simp: provisionable_def files dirs)
  moreover have "dirs_made base d'"
    using made clash by (force simp: dirs_made_def dirs)
  moreover have "same_elsewhere base d d'"
    by (auto simp: same_elsewhere_def unrelated_def l)
  ultimately show ?thesis using d' l by blast
qed

lemma golden_fst_inj: "x \<in> set golden_all \<Longrightarrow> y \<in> set golden_all \<Longrightarrow> fst x = fst y \<Longrightarrow> x = y"
  by (metis eq_key_imp_eq_value golden_distinct prod.collapse)

text \<open>The two phases: the directories, then the files.\<close>

definition provisioned_from :: "path \<Rightarrow> disk \<Rightarrow> disk \<Rightarrow> bool" where
  "provisioned_from base d x \<longleftrightarrow> provisionable base x \<and> same_elsewhere base d x"

abbreviation holds_file :: "path \<Rightarrow> path \<times> string \<times> nat \<Rightarrow> disk \<Rightarrow> bool" where
  "holds_file base x d \<equiv> (case x of (F, c, m) \<Rightarrow> dlookup d (base @ F) = Some (DFile m c))"

lemma directories_phase:
  assumes "provisionable base d"
  shows "\<exists>d1. try_each (\<lambda>d p. make_dir d (base @ p)) d golden_dirs = (Inr (), d1) \<and>
    provisioned_from base d d1 \<and> dirs_made base d1"
proof -
  have "\<exists>d'. try_each (\<lambda>d p. make_dir d (base @ p)) d golden_dirs = (Inr (), d') \<and> provisioned_from base d d' \<and>
      (\<forall>D\<in>set golden_dirs. is_dir d' (base @ D)) \<and>
      (\<forall>D\<in>set golden_dirs. is_dir d (base @ D) \<longrightarrow> is_dir d' (base @ D))"
  proof (rule try_each_ok)
    show "provisioned_from base d d" using assms by (simp add: provisioned_from_def same_elsewhere_def)
    show "\<exists>d'. make_dir x (base @ D) = (Inr (), d') \<and> provisioned_from base d d' \<and> is_dir d' (base @ D) \<and>
        (\<forall>y\<in>set golden_dirs. y \<noteq> D \<longrightarrow> is_dir x (base @ y) \<longrightarrow> is_dir d' (base @ y))"
      if "D \<in> set golden_dirs" "provisioned_from base d x" for D x
      using make_dir_step [of base x D] that same_elsewhere_trans unfolding provisioned_from_def by meson
  qed simp
  then show ?thesis by (auto simp: dirs_made_def)
qed

lemma chmod_phase:
  assumes "provisioned_from base d d1" and "dirs_made base d1" and "D \<noteq> []"
  shows "provisioned_from base d (ignore (fs_set_permissions m) d1 (base @ D))"
    and "dirs_made base (ignore (fs_set_permissions m) d1 (base @ D))"
  using assms chmod_step [of base d1 "base @ D" D m] same_elsewhere_trans
  by (auto simp: provisioned_from_def dirs_made_def chmod_kind)

lemma write_step_keeps:
  assumes "x \<in> set golden_all" and "provisioned_from base d u" and "dirs_made base u"
  shows "\<exists>d'. (case x of (p, c, m) \<Rightarrow> rootfs_write_file u (base @ p) c m) = (Inr (), d') \<and>
    (provisioned_from base d d' \<and> dirs_made base d') \<and> holds_file base x d' \<and>
    (\<forall>y\<in>set golden_all. y \<noteq> x \<longrightarrow> holds_file base y u \<longrightarrow> holds_file base y d')"
proof -
  obtain F c m where x: "x = (F, c, m)" by (cases x)
  from write_step [of base u F c m] assms obtain d' where
    d': "rootfs_write_file u (base @ F) c m = (Inr (), d')" "provisionable base d'" "dirs_made base d'"
      "same_elsewhere base u d'"
    and l: "\<And>q. dlookup d' q = (if q = base @ F then Some (DFile m c) else dlookup u q)"
    unfolding x provisioned_from_def by blast
  have "holds_file base y d'" if "y \<in> set golden_all" "y \<noteq> x" "holds_file base y u" for y
    using golden_fst_inj [OF assms(1) that(1)] that(2,3) by (auto simp: x l split: prod.splits)
  moreover have "same_elsewhere base d d'"
    using assms(2) d'(4) same_elsewhere_trans by (auto simp: provisioned_from_def)
  ultimately show ?thesis using d' by (intro exI [of _ d']) (simp add: x l provisioned_from_def)
qed

lemma files_phase:
  assumes "provisioned_from base d d3" and "dirs_made base d3"
  shows "\<exists>d'. try_each (\<lambda>d (p, c, m). rootfs_write_file d (base @ p) c m) d3 golden_all = (Inr (), d') \<and>
    (provisioned_from base d d' \<and> dirs_made base d') \<and> (\<forall>x\<in>set golden_all. holds_file base x d')"
proof -
  have "\<exists>d'. try_each (\<lambda>d (p, c, m). rootfs_write_file d (base @ p) c m) d3 golden_all = (Inr (), d') \<and>
      (provisioned_from base d d' \<and> dirs_made base d') \<and> (\<forall>x\<in>set golden_all. holds_file base x d') \<and>
      (\<forall>y\<in>set golden_all. holds_file base y d3 \<longrightarrow> holds_file base y d')"
    by (rule try_each_ok) (use assms write_step_keeps in auto)
  then show ?thesis by blast
qed

lemma golden_rootfs_made:
  assumes "provisionable base d"
  shows "\<exists>d'. ensure_golden_rootfs d base = (Inr (), d') \<and> provisionable base d' \<and>
    (\<forall>D\<in>set golden_dirs. is_dir d' (base @ D)) \<and>
    (\<forall>(F, c, m)\<in>set golden_all. dlookup d' (base @ F) = Some (DFile m c)) \<and>
    (\<forall>q. unrelated base q \<longrightarrow> dlookup d' q = dlookup d q)"
proof -
  obtain d1 where d1: "try_each (\<lambda>d p. make_dir d (base @ p)) d golden_dirs = (Inr (), d1)"
    "provisioned_from base d d1" "dirs_made base d1"
    using directories_phase [OF assms] by blast
  define d2 where "d2 = ignore (fs_set_permissions 1023) d1 (base @ [''tmp''])"
  define d3 where "d3 = ignore (fs_set_permissions 1023) d2 (base @ [''var'', ''tmp''])"
  have d2: "provisioned_from base d d2" "dirs_made base d2"
    unfolding d2_def by (rule chmod_phase [OF d1(2,3)]; simp)+
  have d3: "provisioned_from base d d3" "dirs_made base d3"
    unfolding d3_def by (rule chmod_phase [OF d2]; simp)+
  obtain d' where d': "try_each (\<lambda>d (p, c, m). rootfs_write_file d (base @ p) c m) d3 golden_all = (Inr (), d')"
    "provisioned_from base d d'" "dirs_made base d'" "\<forall>x\<in>set golden_all. holds_file base x d'"
    using files_phase [OF d3] by blast
  have "ensure_golden_rootfs d base = (Inr (), d')"
    using d1(1) d'(1) by (simp add: ensure_golden_rootfs_def d2_def [symmetric] d3_def [symmetric] Let_def)
  then show ?thesis
    using d'(2-4) by (intro exI [of _ d']) (auto simp: dirs_made_def provisioned_from_def same_elsewhere_def)
qed

text \<open>
  Claim C31: provisioning succeeds on every disk where no file stands in the way of a directory or
  the reverse, whatever the golden files contain before: afterwards every directory of the hierarchy
  exists, every golden file and program stub has exactly its content and permission bits, the disk is
  again provisionable (so every new session restores the image), and nothing outside the root and
  the way to it has changed.
\<close>
theorem golden_rootfs_provisioned:
  assumes "provisionable base d"
  shows "\<exists>d'. ensure_golden_rootfs d base = (Inr (), d') \<and> provisionable base d' \<and>
    (\<forall>D\<in>set golden_dirs. is_dir d' (base @ D)) \<and>
    (\<forall>(F, c, m)\<in>set golden_all. dlookup d' (base @ F) = Some (DFile m c)) \<and>
    (\<forall>q. unrelated base q \<longrightarrow> dlookup d' q = dlookup d q)"
  by (rule golden_rootfs_made [OF assms])

definition empty_disk :: disk where
  "empty_disk = \<lparr>dentries = [], new_file_mode = 420, new_dir_mode = 493\<rparr>"

lemma empty_provisionable: "provisionable [''rootfs''] empty_disk"
  by (auto simp: provisionable_def empty_disk_def disk_wf_def is_file_def is_dir_def dlookup_def split: if_splits)

theorem golden_rootfs_provisioned_witness:
  "\<exists>d'. ensure_golden_rootfs empty_disk [''rootfs''] = (Inr (), d') \<and>
     dlookup d' [''rootfs'', ''etc'', ''hostname''] = Some (DFile 420 (''ubuntu-server-01'' @ nl))"
proof -
  have "provisionable [''rootfs''] empty_disk" by (rule empty_provisionable)
  moreover have "([''etc'', ''hostname''], ''ubuntu-server-01'' @ nl, 420) \<in> set golden_all"
    by (simp add: golden_all_def golden_files_def GOLDEN_ETC_HOSTNAME_def)
  ultimately show ?thesis
    using golden_rootfs_provisioned [of "[''rootfs'']" empty_disk] by fastforce
qed

end
