(* ===== verification/Vmm.thy ===== *)
theory Vmm
  imports Rootfs Forensics
begin

text \<open>
  The sandbox manager (\<^verbatim>\<open>crates/aegis-vmm/src/lib.rs\<close>): the per-session overlay directories, the
  sandbox handle, its teardown, and the reconciliation of directories that an earlier run left behind.

  Mounting is the kernel's: \<open>k_mount\<close> and \<open>k_umount\<close> are arguments, \<^const>\<open>None\<close> is a failed system
  call. While an overlay is mounted the disk of the model has what the session wrote below the mount point only, and
  the kernel's copy-up is taken to happen at the unmount; that a write below the mount point ends up in the upper
  directory is a property of a successful unmount, stated as a hypothesis where it is used. The one place
  where the program reads the upper directory of an overlay that is still mounted is behind a failed unmount: it has by then
  removed everything below the mount point, which on a live overlay removes the upper copies too. No sandbox has a child process or a terminal, so \<^verbatim>\<open>master\<close> and \<^verbatim>\<open>child_pid\<close>, always \<^verbatim>\<open>None\<close>, are
  left out.
\<close>

section \<open>Definitions\<close>

record kernel =
  k_mount :: "string \<Rightarrow> path \<Rightarrow> disk \<Rightarrow> disk option"
  k_umount :: "path \<Rightarrow> disk \<Rightarrow> disk option"

record OverlayMount =
  om_session_id :: string
  session_dir :: path
  mount_point :: path
  upper_dir :: path
  work_dir :: path
  is_mounted :: bool

definition overlay_options :: "path \<Rightarrow> path \<Rightarrow> path \<Rightarrow> string" where
  "overlay_options lower upper work =
     ''lowerdir='' @ show_path lower @ '',upperdir='' @ show_path upper @ '',workdir='' @ show_path work
     @ '',redirect_dir=off,metacopy=off''"

definition overlay_setup ::
  "kernel \<Rightarrow> (path \<Rightarrow> path option) \<Rightarrow> disk \<Rightarrow> string \<Rightarrow> path \<Rightarrow> path \<Rightarrow> (AegisError + OverlayMount) \<times> disk" where
  "overlay_setup k canonicalize d sid lower obase =
     (let sdir = obase @ [''session_'' @ sid];
          upper = sdir @ [''upper''];
          work = sdir @ [''work''];
          mount = sdir @ [''mount'']
      in case try_each make_dir d [sdir, upper, work, mount] of
           (Inl e, d1) \<Rightarrow> (Inl e, d1)
         | (Inr _, d1) \<Rightarrow>
             (let lower_canonical = (case canonicalize lower of Some p \<Rightarrow> p | None \<Rightarrow> lower);
                  res = k_mount k (overlay_options lower_canonical upper work) mount d1
              in (Inr \<lparr>om_session_id = sid, session_dir = sdir, mount_point = mount, upper_dir = upper,
                       work_dir = work, is_mounted = (res \<noteq> None)\<rparr>,
                  case res of Some d2 \<Rightarrow> d2 | None \<Rightarrow> d1)))"

definition try_umount :: "kernel \<Rightarrow> path \<Rightarrow> disk \<Rightarrow> disk" where
  "try_umount k p d = (case k_umount k p d of Some d' \<Rightarrow> d' | None \<Rightarrow> d)"

definition overlay_teardown :: "kernel \<Rightarrow> OverlayMount \<Rightarrow> disk \<Rightarrow> path \<times> OverlayMount \<times> disk" where
  "overlay_teardown k om d =
     (let d1 = (if is_mounted om then try_umount k (mount_point om) d else d);
          d2 = ignore fs_remove_dir_all d1 (mount_point om);
          d3 = ignore fs_remove_dir_all d2 (work_dir om)
      in (upper_dir om, om\<lparr>is_mounted := False\<rparr>, d3))"

definition overlay_drop :: "kernel \<Rightarrow> OverlayMount \<Rightarrow> disk \<Rightarrow> OverlayMount \<times> disk" where
  "overlay_drop k om d =
     (if is_mounted om then (om\<lparr>is_mounted := False\<rparr>, try_umount k (mount_point om) d) else (om, d))"

record SandboxHandle =
  sb_session_id :: string
  sb_overlay :: "OverlayMount option"
  root_dir :: path

text \<open>Tearing down drops the overlay, which is no longer mounted by then.\<close>

definition sandbox_teardown :: "kernel \<Rightarrow> SandboxHandle \<Rightarrow> disk \<Rightarrow> path option \<times> disk" where
  "sandbox_teardown k sb d =
     (case sb_overlay sb of
        Some om \<Rightarrow>
          (case overlay_teardown k om d of (upper, om2, d') \<Rightarrow> (Some upper, snd (overlay_drop k om2 d')))
      | None \<Rightarrow> (None, d))"

definition reclaim_entry ::
  "kernel \<Rightarrow> path \<Rightarrow> (string \<times> path) list \<times> disk \<Rightarrow> string \<times> dentry \<Rightarrow> (string \<times> path) list \<times> disk" where
  "reclaim_entry k obase s entry =
     (case s of (orphans, d) \<Rightarrow> case entry of (name, e) \<Rightarrow>
        let p = obase @ [name]
        in if \<not> valid_utf8 name then s
           else case strip_prefix ''session_'' name of
             None \<Rightarrow> s
           | Some sid \<Rightarrow>
               (case e of
                  DFile _ _ \<Rightarrow> s
                | DDir _ \<Rightarrow>
                    (let d1 = (if is_dir d (p @ [''mount'']) then try_umount k (p @ [''mount'']) d else d)
                     in if is_dir d1 (p @ [''upper'']) then (orphans @ [(sid, p @ [''upper''])], d1)
                        else (orphans, ignore fs_remove_dir_all d1 p))))"

definition reclaim_orphaned_sessions :: "kernel \<Rightarrow> disk \<Rightarrow> path \<Rightarrow> (string \<times> path) list \<times> disk" where
  "reclaim_orphaned_sessions k d obase =
     (case fs_read_dir d obase of
        None \<Rightarrow> ([], d)
      | Some entries \<Rightarrow> foldl (reclaim_entry k obase) ([], d) entries)"

definition spawn_sandbox ::
  "kernel \<Rightarrow> (path \<Rightarrow> path option) \<Rightarrow> disk \<Rightarrow> SessionMeta \<Rightarrow> path \<Rightarrow> path \<Rightarrow>
   (AegisError + SandboxHandle) \<times> disk" where
  "spawn_sandbox k canonicalize d meta lower obase =
     (case ensure_golden_rootfs d lower of
        (Inl e, d1) \<Rightarrow> (Inl e, d1)
      | (Inr _, d1) \<Rightarrow>
          (case overlay_setup k canonicalize d1 (session_id meta) lower obase of
             (Inl e, d2) \<Rightarrow>
               (Inr \<lparr>sb_session_id = session_id meta, sb_overlay = None, root_dir = lower\<rparr>, d2)
           | (Inr om, d2) \<Rightarrow>
               (Inr \<lparr>sb_session_id = session_id meta, sb_overlay = Some om,
                     root_dir = (if is_mounted om then mount_point om else upper_dir om)\<rparr>, d2)))"

section \<open>What the gateway does with a finished sandbox\<close>

text \<open>
  The forensics pass over the upper directory and the removal of the session directory, shared by the
  clean teardown, the abrupt one and the start-up reconciliation.
\<close>

definition dispose_upper ::
  "sha256_fn \<Rightarrow> find_iter_fn \<Rightarrow> bool \<Rightarrow> ForensicsEngine \<Rightarrow> DateTime \<Rightarrow> SessionMeta \<Rightarrow>
   capture_state \<Rightarrow> path \<Rightarrow> capture_state" where
  "dispose_upper sha fi rx_open eng now meta s upper =
     (case snd (analyze_upperdir sha fi rx_open eng now meta s upper) of (d1, evs1) \<Rightarrow>
        case path_parent upper of
          Some sdir \<Rightarrow> (ignore fs_remove_dir_all d1 sdir, evs1)
        | None \<Rightarrow> (d1, evs1))"

definition finish_sandbox ::
  "kernel \<Rightarrow> sha256_fn \<Rightarrow> find_iter_fn \<Rightarrow> bool \<Rightarrow> ForensicsEngine \<Rightarrow> DateTime \<Rightarrow> SessionMeta \<Rightarrow>
   SandboxHandle \<Rightarrow> capture_state \<Rightarrow> capture_state" where
  "finish_sandbox k sha fi rx_open eng now meta sb s =
     (case s of (d, evs) \<Rightarrow>
        case sandbox_teardown k sb d of
          (Some upper, d1) \<Rightarrow> dispose_upper sha fi rx_open eng now meta (d1, evs) upper
        | (None, d1) \<Rightarrow> (d1, evs))"

text \<open>At start-up the address of an orphaned session is not known any more.\<close>

definition orphan_meta :: "DateTime \<Rightarrow> string \<Rightarrow> SessionMeta" where
  "orphan_meta now sid =
     \<lparr>session_id = sid, client_ip = UNSPECIFIED, client_port = 0, start_ts = now\<rparr>"

definition reclaim_at_startup ::
  "kernel \<Rightarrow> sha256_fn \<Rightarrow> find_iter_fn \<Rightarrow> bool \<Rightarrow> ForensicsEngine \<Rightarrow> DateTime \<Rightarrow> path \<Rightarrow>
   capture_state \<Rightarrow> capture_state" where
  "reclaim_at_startup k sha fi rx_open eng now obase s =
     (case s of (d, evs) \<Rightarrow>
        case reclaim_orphaned_sessions k d obase of (orphans, d1) \<Rightarrow>
          foldl (\<lambda>s (sid, upper). dispose_upper sha fi rx_open eng now (orphan_meta now sid) s upper)
            (d1, evs) orphans)"

section \<open>Removal and frames\<close>

lemma remove_dir_all_lookup:
  assumes "p \<noteq> []"
  shows "dlookup (ignore fs_remove_dir_all d p) q = (if prefix p q \<and> is_dir d p then None else dlookup d q)"
proof -
  have "map_of (filter (\<lambda>(q, e). \<not> prefix p q) (dentries d)) q = (if prefix p q then None else map_of (dentries d) q)"
    using map_of_filter_fst [of "\<lambda>q. \<not> prefix p q" "dentries d" q] by simp
  then show ?thesis using assms by (auto simp: ignore_def fs_remove_dir_all_def dlookup_def)
qed

lemma open_with_frame: "fs_open_with m f d p = Some d' \<Longrightarrow> q \<noteq> p \<Longrightarrow> dlookup d' q = dlookup d q"
  by (cases "p = []") (auto simp: fs_open_with_def dlookup_put dlookup_def [of d "[]"]
      split: option.splits dentry.splits if_splits)

lemma set_permissions_frame: "fs_set_permissions m d p = Some d' \<Longrightarrow> q \<noteq> p \<Longrightarrow> dlookup d' q = dlookup d q"
  by (auto simp: fs_set_permissions_def dlookup_put split: option.splits if_splits)

text \<open>A capture changes nothing outside the quarantine directory.\<close>

lemma analyze_file_frame:
  assumes "\<not> prefix (fe_quarantine_dir eng) q" and "disk_wf d"
  shows "dlookup (fst (snd (analyze_file sha fi rx eng now meta (d, evs) p))) q = dlookup d q"
    and "disk_wf (fst (snd (analyze_file sha fi rx eng now meta (d, evs) p)))"
proof -
  let ?r = "analyze_file sha fi rx eng now meta (d, evs) p" and ?Q = "fe_quarantine_dir eng"
  have ne: "q \<noteq> ?Q @ [h]" for h using assms(1) by auto
  have w: "dlookup d1 q = dlookup d q \<and> disk_wf d1" if "fs_write c d (?Q @ [h]) = Some d1" for c h d1
    using that open_with_frame [OF _ ne] write_file.upd_wf [OF assms(2) _ that] by (simp add: fs_write_def)
  have s: "dlookup d2 q = dlookup x q \<and> disk_wf d2"
    if "fs_set_permissions 384 x (?Q @ [h]) = Some d2" "disk_wf x" for x h d2
    using set_permissions_frame [OF that(1) ne] set_permissions.upd_wf [OF that(2) _ that(1)] by simp
  have "dlookup (fst (snd ?r)) q = dlookup d q \<and> disk_wf (fst (snd ?r))"
    using assms(2) by (auto simp: analyze_file_def Let_def w s split: option.split)
  then show "dlookup (fst (snd ?r)) q = dlookup d q" and "disk_wf (fst (snd ?r))" by simp_all
qed

lemma analyze_upperdir_frame:
  assumes "unrelated (fe_quarantine_dir eng) q" and "disk_wf d"
  shows "dlookup (fst (snd (analyze_upperdir sha fi rx eng now meta (d, evs) upper))) q = dlookup d q"
    and "disk_wf (fst (snd (analyze_upperdir sha fi rx eng now meta (d, evs) upper)))"
proof -
  have walk: "dlookup (fst (foldl (\<lambda>s p. snd (analyze_file sha fi rx eng now meta s p)) s ps)) q = dlookup (fst s) q
      \<and> disk_wf (fst (foldl (\<lambda>s p. snd (analyze_file sha fi rx eng now meta s p)) s ps))"
    if "disk_wf (fst s)" for s ps
    using that
  proof (induction ps arbitrary: s)
    case (Cons p ps)
    obtain x evs where s: "s = (x, evs)" by (cases s)
    have "\<not> prefix (fe_quarantine_dir eng) q" using assms(1) by (simp add: unrelated_def)
    from analyze_file_frame [OF this, of x sha fi rx now meta evs p] Cons show ?case by (simp add: s)
  qed simp
  have "dlookup (fst (snd (analyze_upperdir sha fi rx eng now meta (d, evs) upper))) q = dlookup d q
      \<and> disk_wf (fst (snd (analyze_upperdir sha fi rx eng now meta (d, evs) upper)))"
  proof (cases "fs_create_dir_all d (fe_quarantine_dir eng)")
    case None
    then show ?thesis using assms by (simp add: analyze_upperdir_def)
  next
    case (Some d0)
    note l = create_dir_all_lookup [OF assms(2) Some]
    have "dlookup d0 q = dlookup d q" using assms(1) l(2) [of q] by (simp add: unrelated_def)
    then show ?thesis using walk [of "(d0, evs)"] l(1) Some by (simp add: analyze_upperdir_def)
  qed
  then show "dlookup (fst (snd (analyze_upperdir sha fi rx eng now meta (d, evs) upper))) q = dlookup d q"
    and "disk_wf (fst (snd (analyze_upperdir sha fi rx eng now meta (d, evs) upper)))" by simp_all
qed

text \<open>
  Where the results of a forensics pass come from: every new event describes, and every new file holds,
  the content of a file that was on the disk, had an interesting type and was within the cap.
\<close>

definition stored :: "disk \<Rightarrow> string \<Rightarrow> bool" where
  "stored d c \<longleftrightarrow> (\<exists>q m. dlookup d q = Some (DFile m c))"

definition capture_origin ::
  "sha256_fn \<Rightarrow> find_iter_fn \<Rightarrow> ForensicsEngine \<Rightarrow> DateTime \<Rightarrow> SessionMeta \<Rightarrow> capture_state \<Rightarrow> capture_state \<Rightarrow> bool" where
  "capture_origin sha fi eng now meta s s' \<longleftrightarrow>
     (\<exists>new. snd s' = snd s @ new \<and>
        (\<forall>e \<in> set new. \<exists>c. wanted eng c \<and> stored (fst s) c \<and>
           e = captured_event sha fi eng now meta (client_ip meta) None c)) \<and>
     (\<forall>q m c. dlookup (fst s') q = Some (DFile m c) \<longrightarrow>
        dlookup (fst s) q = Some (DFile m c) \<or> wanted eng c \<and> stored (fst s) c)"

lemma capture_origin_refl: "capture_origin sha fi eng now meta s s"
  by (simp add: capture_origin_def)

lemma capture_origin_stored:
  "capture_origin sha fi eng now meta s s' \<Longrightarrow> stored (fst s') c \<Longrightarrow> stored (fst s) c"
  unfolding capture_origin_def stored_def by blast

lemma capture_origin_trans:
  assumes 1: "capture_origin sha fi eng now meta s s'" and 2: "capture_origin sha fi eng now meta s' s''"
  shows "capture_origin sha fi eng now meta s s''"
proof -
  note st = capture_origin_stored [OF 1]
  from 1 obtain n1 where n1: "snd s' = snd s @ n1" "\<forall>e \<in> set n1. \<exists>c. wanted eng c \<and> stored (fst s) c \<and>
      e = captured_event sha fi eng now meta (client_ip meta) None c" unfolding capture_origin_def by blast
  from 2 obtain n2 where n2: "snd s'' = snd s' @ n2" "\<forall>e \<in> set n2. \<exists>c. wanted eng c \<and> stored (fst s') c \<and>
      e = captured_event sha fi eng now meta (client_ip meta) None c" unfolding capture_origin_def by blast
  have "snd s'' = snd s @ (n1 @ n2) \<and> (\<forall>e \<in> set (n1 @ n2). \<exists>c. wanted eng c \<and> stored (fst s) c \<and>
      e = captured_event sha fi eng now meta (client_ip meta) None c)"
    using n1 n2 st by (metis Un_iff append_assoc set_append)
  moreover have "dlookup (fst s) q = Some (DFile m c) \<or> wanted eng c \<and> stored (fst s) c"
    if "dlookup (fst s'') q = Some (DFile m c)" for q m c
    using 1 2 that st unfolding capture_origin_def by meson
  ultimately show ?thesis unfolding capture_origin_def by blast
qed

lemma fs_write_contents:
  assumes "fs_write c d p = Some d'" and "p \<noteq> []"
  shows "dlookup d' q = Some (DFile m x) \<Longrightarrow> q \<noteq> p \<and> dlookup d q = Some (DFile m x) \<or> q = p \<and> x = c"
  using assms by (auto simp: fs_write_def fs_open_with_def dlookup_put split: option.splits dentry.splits if_splits)

lemma chmod_contents:
  assumes "fs_set_permissions k d p = Some d'" and "dlookup d' q = Some (DFile m x)"
  shows "q \<noteq> p \<and> dlookup d q = Some (DFile m x) \<or> q = p \<and> (\<exists>m'. dlookup d p = Some (DFile m' x))"
  using assms by (auto simp: fs_set_permissions_def dlookup_put split: option.splits if_splits elim!: chmod_entry.elims)

lemma analyze_file_origin:
  "capture_origin sha fi eng now meta (d, evs) (snd (analyze_file sha fi rx eng now meta (d, evs) p))"
proof (cases "fs_read d p")
  case None
  then show ?thesis by (simp add: analyze_file_def capture_origin_refl)
next
  case (Some c)
  then obtain m where f: "dlookup d p = Some (DFile m c)" by (auto simp: fs_read_def split: option.splits dentry.splits)
  then have len: "fs_len d p = Some (length c)" and st: "stored d c" by (auto simp: fs_len_def stored_def)
  show ?thesis
  proof (cases "wanted eng c")
    case False
    then show ?thesis using Some len by (auto simp: analyze_file_def wanted_def capture_origin_refl)
  next
    case True
    let ?q = "fe_quarantine_dir eng @ [sha c]"
    have w: "dlookup d q = Some (DFile m x) \<or> wanted eng x \<and> stored d x"
      if "fs_write c d ?q = Some d1" "dlookup d1 q = Some (DFile m x)" for d1 q m x
      using fs_write_contents [OF that(1) _ that(2)] True st by auto
    have s: "dlookup d q = Some (DFile m x) \<or> wanted eng x \<and> stored d x"
      if 1: "fs_write c d ?q = Some d1" "fs_set_permissions 384 d1 ?q = Some d2" "dlookup d2 q = Some (DFile m x)" for d1 d2 q m x
      using chmod_contents [OF 1(2,3)] fs_write_contents [OF 1(1), of q m x] fs_write_contents [OF 1(1), of ?q _ x] True st by auto
    show ?thesis
      using Some len True wanted_not_empty [OF True] st w s
      by (auto simp: analyze_file_def wanted_def capture_origin_def Let_def split: option.split)
  qed
qed

lemma analyze_upperdir_origin:
  assumes "disk_wf d"
  shows "capture_origin sha fi eng now meta (d, evs) (snd (analyze_upperdir sha fi rx eng now meta (d, evs) upper))"
proof (cases "fs_create_dir_all d (fe_quarantine_dir eng)")
  case None
  then show ?thesis by (simp add: analyze_upperdir_def capture_origin_refl)
next
  case (Some d0)
  have walk: "capture_origin sha fi eng now meta s (foldl (\<lambda>s p. snd (analyze_file sha fi rx eng now meta s p)) s ps)" for s ps
  proof (induction ps arbitrary: s)
    case (Cons p ps)
    have "capture_origin sha fi eng now meta s (snd (analyze_file sha fi rx eng now meta s p))"
      using analyze_file_origin by (cases s) blast
    from capture_origin_trans [OF this Cons] show ?case by simp
  qed (simp add: capture_origin_refl)
  have "capture_origin sha fi eng now meta (d, evs) (d0, evs)"
    using create_dir_all_lookup(2) [OF assms Some] by (auto simp: capture_origin_def split: if_splits)
  from capture_origin_trans [OF this walk] show ?thesis using Some by (simp add: analyze_upperdir_def)
qed

section \<open>Set-up\<close>

definition overlay_layout :: "path \<Rightarrow> OverlayMount \<Rightarrow> bool" where
  "overlay_layout sdir om \<longleftrightarrow>
     sdir \<noteq> [] \<and> session_dir om = sdir \<and> mount_point om = sdir @ [''mount''] \<and> upper_dir om = sdir @ [''upper''] \<and>
     work_dir om = sdir @ [''work'']"

lemma overlay_setup_layout:
  "overlay_setup k canon d sid lower obase = (Inr om, d') \<Longrightarrow> overlay_layout (obase @ [''session_'' @ sid]) om"
  by (auto simp: overlay_setup_def overlay_layout_def Let_def split: prod.splits sum.splits)

lemma spawn_sandbox_root:
  assumes "spawn_sandbox k canon d meta lower obase = (Inr sb, d')" and "sb_overlay sb = Some om"
  shows "overlay_layout (obase @ [''session_'' @ session_id meta]) om"
    and "root_dir sb = (if is_mounted om then mount_point om else upper_dir om)"
  using assms overlay_setup_layout
  by (auto simp: spawn_sandbox_def split: prod.splits sum.splits)

text \<open>Directories of different sessions, and files in them, are unrelated.\<close>

lemma session_dirs_unrelated:
  "sid \<noteq> sid' \<Longrightarrow> unrelated (obase @ (''session_'' @ sid) # p) (obase @ (''session_'' @ sid') # q)"
  by (simp add: unrelated_def)

section \<open>Evidence survives teardown\<close>

text \<open>
  What the kernel promises about an unmount of an overlay that succeeds: only the session's own directory
  changes, and what was written through the mount point is in the upper directory.
\<close>

definition umount_law :: "kernel \<Rightarrow> OverlayMount \<Rightarrow> path \<Rightarrow> disk \<Rightarrow> bool" where
  "umount_law k om lower d \<longleftrightarrow>
     (\<forall>d'. k_umount k (mount_point om) d = Some d' \<longrightarrow> disk_wf d' \<and>
        (\<forall>q. \<not> strict_prefix (session_dir om) q \<longrightarrow> dlookup d' q = dlookup d q) \<and>
        (\<forall>q m c. dlookup d (mount_point om @ q) = Some (DFile m c) \<longrightarrow> dlookup d (lower @ q) \<noteq> Some (DFile m c) \<longrightarrow>
           dlookup d' (upper_dir om @ q) = Some (DFile m c)))"

text \<open>A file that the session has written: it differs from the golden one.\<close>

definition session_wrote :: "OverlayMount \<Rightarrow> path \<Rightarrow> disk \<Rightarrow> path \<Rightarrow> nat \<Rightarrow> string \<Rightarrow> bool" where
  "session_wrote om lower d q m c \<longleftrightarrow>
     (if is_mounted om
      then dlookup d (mount_point om @ q) = Some (DFile m c) \<and> dlookup d (lower @ q) \<noteq> Some (DFile m c)
      else dlookup d (upper_dir om @ q) = Some (DFile m c))"

text \<open>The two directories that a teardown removes, whatever the unmount did.\<close>

lemma sandbox_teardown_removes:
  assumes lay: "overlay_layout sdir om" and sb: "sb_overlay sb = Some om" and wf: "disk_wf d0"
    and d0: "d0 = (if is_mounted om then try_umount k (mount_point om) d else d)"
    and down: "sandbox_teardown k sb d = (r, d1)"
  shows "r = Some (sdir @ [''upper''])" and "disk_wf d1"
    and "\<And>x. \<not> prefix (sdir @ [''mount'']) x \<Longrightarrow> \<not> prefix (sdir @ [''work'']) x \<Longrightarrow> dlookup d1 x = dlookup d0 x"
    and "\<And>x e. dlookup d1 x = Some e \<Longrightarrow> dlookup d0 x = Some e"
    and "\<And>x. prefix (sdir @ [''mount'']) x \<Longrightarrow> is_dir d0 (sdir @ [''mount'']) \<Longrightarrow> dlookup d1 x = None"
proof -
  have r: "r = Some (sdir @ [''upper''])"
    and d1: "d1 = ignore fs_remove_dir_all (ignore fs_remove_dir_all d0 (sdir @ [''mount''])) (sdir @ [''work''])"
    using lay down by (simp_all add: sandbox_teardown_def sb overlay_teardown_def overlay_drop_def d0 overlay_layout_def Let_def)
  show "r = Some (sdir @ [''upper''])" by (rule r)
  show "disk_wf d1" unfolding d1 by (intro remove_dir_all.ignore_wf wf) simp_all
  show "dlookup d1 x = dlookup d0 x" if "\<not> prefix (sdir @ [''mount'']) x" "\<not> prefix (sdir @ [''work'']) x" for x
    using that by (simp add: d1 remove_dir_all_lookup del: prefix_snoc)
  show "dlookup d0 x = Some e" if "dlookup d1 x = Some e" for x e
    using that by (simp add: d1 remove_dir_all_lookup del: prefix_snoc split: if_splits)
  show "dlookup d1 x = None" if "prefix (sdir @ [''mount'']) x" "is_dir d0 (sdir @ [''mount''])" for x
    using that by (simp add: d1 remove_dir_all_lookup del: prefix_snoc)
qed

lemma sandbox_teardown_evidence:
  assumes wf: "disk_wf d" and lay: "overlay_layout sdir om" and sb: "sb_overlay sb = Some om"
    and ok: "is_mounted om \<Longrightarrow> k_umount k (mount_point om) d \<noteq> None"
    and law: "is_mounted om \<Longrightarrow> umount_law k om lower d"
    and wrote: "session_wrote om lower d q m c"
  obtains d1 where "sandbox_teardown k sb d = (Some (sdir @ [''upper'']), d1)" and "disk_wf d1"
    and "dlookup d1 (sdir @ ''upper'' # q) = Some (DFile m c)"
    and "\<And>x. \<not> strict_prefix sdir x \<Longrightarrow> dlookup d1 x = dlookup d x"
proof -
  define d0 where "d0 = (if is_mounted om then try_umount k (mount_point om) d else d)"
  have d0: "disk_wf d0 \<and> dlookup d0 (sdir @ ''upper'' # q) = Some (DFile m c) \<and>
      (\<forall>x. \<not> strict_prefix sdir x \<longrightarrow> dlookup d0 x = dlookup d x)"
  proof (cases "is_mounted om")
    case True
    then obtain d' where "k_umount k (mount_point om) d = Some d'" using ok by auto
    then show ?thesis
      using True wrote lay law by (auto simp: d0_def try_umount_def session_wrote_def overlay_layout_def umount_law_def)
  next
    case False
    then show ?thesis using wf wrote lay by (simp add: d0_def session_wrote_def overlay_layout_def)
  qed
  then have wf0: "disk_wf d0" by blast
  obtain r d1 where down: "sandbox_teardown k sb d = (r, d1)" by fastforce
  note rem = sandbox_teardown_removes [OF lay sb wf0 d0_def down]
  show ?thesis
  proof (rule that)
    show "sandbox_teardown k sb d = (Some (sdir @ [''upper'']), d1)" and "disk_wf d1" using down rem(1,2) by simp_all
    show "dlookup d1 (sdir @ ''upper'' # q) = Some (DFile m c)" using rem(3) d0 by simp
    show "dlookup d1 x = dlookup d x" if "\<not> strict_prefix sdir x" for x
    proof -
      have "\<not> prefix (sdir @ [n]) x" for n using that by (auto simp: strict_prefix_def prefix_def)
      then show ?thesis using rem(3) d0 that by simp
    qed
  qed
qed

lemma unrelated_child:
  assumes "unrelated a b"
  shows "\<not> prefix a (b @ x)" and "\<not> prefix b (a @ y)" and "\<not> strict_prefix a (b @ x)"
  using assms by (auto simp: unrelated_def prefix_append strict_prefix_def)

lemma dispose_upper_removes:
  assumes "disk_wf d1" and "is_dir d1 sdir" and "sdir \<noteq> []" and "unrelated sdir (fe_quarantine_dir eng)"
    and "dispose_upper sha fi rx eng now meta (d1, evs) (sdir @ [''upper'']) = (d', evs')"
  obtains d2 where "snd (analyze_upperdir sha fi rx eng now meta (d1, evs) (sdir @ [''upper''])) = (d2, evs')"
    and "\<And>x. dlookup d' x = (if prefix sdir x then None else dlookup d2 x)"
proof -
  obtain r d2 evs2 where an: "analyze_upperdir sha fi rx eng now meta (d1, evs) (sdir @ [''upper'']) = (r, d2, evs2)"
    by (metis prod.collapse)
  have "unrelated (fe_quarantine_dir eng) sdir" using assms(4) by (auto simp: unrelated_def)
  then have "is_dir d2 sdir"
    using analyze_upperdir_frame(1) [of eng sdir d1 sha fi rx now meta evs "sdir @ [''upper'']"] assms(1,2) an
    by (simp add: is_dir_def)
  moreover have "d' = ignore fs_remove_dir_all d2 sdir" "evs' = evs2"
    using assms(5) by (simp_all add: dispose_upper_def an path_parent_def)
  ultimately show ?thesis using that an remove_dir_all_lookup [OF assms(3), of d2] by simp
qed

text \<open>What a pass does with a content that is not on the disk, or that is not wanted and only in the session.\<close>

lemma dispose_upper_forgets:
  assumes "disk_wf d1" and "is_dir d1 sdir" and "sdir \<noteq> []" and "unrelated sdir (fe_quarantine_dir eng)"
    and run: "dispose_upper sha fi rx eng now meta (d1, evs) (sdir @ [''upper'']) = (d', evs')"
    and only: "\<forall>x m'. dlookup d1 x = Some (DFile m' c) \<longrightarrow> prefix sdir x"
    and unseen: "\<not> wanted eng c \<or> \<not> stored d1 c"
  shows "\<not> stored d' c" and "\<not> path_exists d' sdir"
    and "\<exists>new. evs' = evs @ new \<and> (\<forall>e \<in> set new. \<exists>c'. wanted eng c' \<and> c' \<noteq> c \<and>
      e = captured_event sha fi eng now meta (client_ip meta) None c')"
proof -
  obtain d2 where an: "snd (analyze_upperdir sha fi rx eng now meta (d1, evs) (sdir @ [''upper''])) = (d2, evs')"
    and d': "\<And>x. dlookup d' x = (if prefix sdir x then None else dlookup d2 x)"
    using dispose_upper_removes [OF assms(1-5)] by blast
  note o = analyze_upperdir_origin [OF assms(1), of sha fi eng now meta evs rx "sdir @ [''upper'']", unfolded an capture_origin_def fst_conv snd_conv]
  show "\<not> path_exists d' sdir" by (simp add: path_exists_def d')
  show "\<not> stored d' c"
  proof
    assume "stored d' c"
    then obtain q m where "dlookup d2 q = Some (DFile m c)" "\<not> prefix sdir q" by (auto simp: stored_def d' split: if_splits)
    then have "wanted eng c \<and> stored d1 c" using o only by blast
    then show False using unseen by blast
  qed
  show "\<exists>new. evs' = evs @ new \<and> (\<forall>e \<in> set new. \<exists>c'. wanted eng c' \<and> c' \<noteq> c \<and>
      e = captured_event sha fi eng now meta (client_ip meta) None c')"
  proof -
    from o obtain new where "evs' = evs @ new" "\<forall>e \<in> set new. \<exists>c. wanted eng c \<and> stored d1 c \<and>
        e = captured_event sha fi eng now meta (client_ip meta) None c" by blast
    then show ?thesis using unseen by (intro exI [of _ new]) blast
  qed
qed

text \<open>
  Claim C2: an executable that an attacker leaves in a sandbox is not lost at the end of the session.
  If the session wrote a file that starts with an ELF, MZ or shebang magic and is within the analysis
  cap, and the overlay, if there is one, can be unmounted, then tearing the sandbox down, scanning it and
  removing its directory leaves the exact content in the quarantine under its hash with mode 0600 and emits
  its capture event, and the session directory is gone. For a mounted overlay this rests on what a successful
  unmount does; for the directory fallback on nothing but the program.
\<close>
theorem session_evidence_survives:
  assumes wf: "disk_wf d" and lay: "overlay_layout sdir om" and sb: "sb_overlay sb = Some om"
    and ok: "is_mounted om \<Longrightarrow> k_umount k (mount_point om) d \<noteq> None"
    and law: "is_mounted om \<Longrightarrow> umount_law k om lower d"
    and wrote: "session_wrote om lower d q m c"
    and size: "length c \<le> fe_max_analysis_bytes eng"
    and magic: "prefix ELF_MAGIC c \<or> prefix MZ_MAGIC c \<or> prefix SHEBANG c"
    and sep: "unrelated sdir (fe_quarantine_dir eng)"
    and qfile: "\<And>x. prefix x (fe_quarantine_dir eng) \<Longrightarrow> \<not> is_file d x"
    and qdirs: "\<And>h. \<not> is_dir d (fe_quarantine_dir eng @ [h])"
    and inj: "inj_on sha {c. \<exists>p m. dlookup (snd (sandbox_teardown k sb d)) p = Some (DFile m c)}"
    and run: "finish_sandbox k sha fi True eng now meta sb (d, evs) = (d', evs')"
  shows "dlookup d' (fe_quarantine_dir eng @ [sha c]) = Some (DFile 384 c) \<and>
    captured_event sha fi eng now meta (client_ip meta) None c \<in> set evs' \<and> \<not> path_exists d' sdir"
proof -
  let ?Q = "fe_quarantine_dir eng"
  obtain d1 where down: "sandbox_teardown k sb d = (Some (sdir @ [''upper'']), d1)" and wf1: "disk_wf d1"
    and ev: "dlookup d1 (sdir @ ''upper'' # q) = Some (DFile m c)"
    and frame: "\<And>x. \<not> strict_prefix sdir x \<Longrightarrow> dlookup d1 x = dlookup d x"
    using sandbox_teardown_evidence [OF wf lay sb ok law wrote] by blast
  have out: "dlookup d1 (?Q @ x) = dlookup d (?Q @ x)" for x
    using frame unrelated_child [OF sep] by blast
  have up: "dlookup d1 x = dlookup d x" if "prefix x ?Q" for x
    using frame [of x] that sep by (metis prefix_order.less_le_trans prefix_order.less_imp_le unrelated_def)
  then obtain dq where mk: "fs_create_dir_all d1 ?Q = Some dq"
    using qfile create_dir_all_iff [OF wf1] by (metis is_file_def)
  have sd: "is_dir d1 sdir" "sdir \<noteq> []"
    using disk_wf_ancestor [OF wf1, of sdir "''upper'' # q"] ev lay by (simp_all add: path_exists_def overlay_layout_def)
  obtain d2 where an: "snd (analyze_upperdir sha fi True eng now meta (d1, evs) (sdir @ [''upper''])) = (d2, evs')"
    and d': "\<And>x. dlookup d' x = (if prefix sdir x then None else dlookup d2 x)"
    using dispose_upper_removes [OF wf1 sd sep, of sha fi True now meta evs d' evs'] run
    by (auto simp: finish_sandbox_def down)
  obtain r where an': "analyze_upperdir sha fi True eng now meta (d1, evs) (sdir @ [''upper'']) = (r, d2, evs')"
    using an by (metis prod.collapse)
  have "r = Inr () \<and> dlookup d2 (?Q @ [sha c]) = Some (DFile 384 c) \<and>
      captured_event sha fi eng now meta (client_ip meta) None c \<in> set evs'"
  proof (rule upperdir_capture [OF wf1 mk _ _ _ an' _ ev size magic])
    show "\<not> is_dir d1 (?Q @ [h])" for h using qdirs [of h] out [of "[h]"] by (simp add: is_dir_def)
    show "\<not> prefix ?Q x" if "prefix (sdir @ [''upper'']) x" for x
      using that unrelated_child(2) [OF sep] by (auto simp: prefix_def)
    show "inj_on sha {c. \<exists>q m. prefix (sdir @ [''upper'']) q \<and> dlookup d1 q = Some (DFile m c)}"
      using inj by (rule inj_on_subset) (auto simp: down)
  qed simp
  then show ?thesis using d' unrelated_child(1) [OF sep, of "[sha c]"] by (simp add: path_exists_def)
qed

definition no_mounts :: kernel where
  "no_mounts = \<lparr>k_mount = (\<lambda>_ _ _. None), k_umount = (\<lambda>_ _. None)\<rparr>"

text \<open>
  A kernel for concrete instances: an unmount of a directory moves the files below it that differ from the
  golden rootfs into the upper directory beside it, and fails on anything else.
\<close>

definition copy_up :: "path \<Rightarrow> path \<Rightarrow> disk \<Rightarrow> disk" where
  "copy_up lower sdir d =
     (let inside = (\<lambda>(p, e :: dentry). strict_prefix (sdir @ [''mount'']) p);
          rel = (\<lambda>p. drop (Suc (length sdir)) p);
          changed = filter (\<lambda>(p, e). inside (p, e) \<and> dlookup d (lower @ rel p) \<noteq> Some e) (dentries d)
      in foldl (\<lambda>d (p, e). put (sdir @ ''upper'' # rel p) e d)
           (d\<lparr>dentries := filter (\<lambda>x. \<not> inside x) (dentries d)\<rparr>) changed)"

definition overlay_kernel :: kernel where
  "overlay_kernel =
     \<lparr>k_mount = (\<lambda>_ _ d. Some d),
      k_umount = (\<lambda>p d. if is_dir d p then Some (copy_up [''rootfs''] (butlast p) d) else None)\<rparr>"

definition mounted_disk :: disk where
  "mounted_disk =
     \<lparr>dentries = [([''rootfs''], DDir 493), ([''o''], DDir 493), ([''o'', ''session_s''], DDir 493),
        ([''o'', ''session_s'', ''upper''], DDir 493), ([''o'', ''session_s'', ''mount''], DDir 493),
        ([''o'', ''session_s'', ''mount'', ''x''], DFile 420 ''#!/bin/sh'')],
      new_file_mode = 420, new_dir_mode = 493\<rparr>"

definition mounted_overlay :: OverlayMount where
  "mounted_overlay =
     \<lparr>om_session_id = ''s'', session_dir = [''o'', ''session_s''], mount_point = [''o'', ''session_s'', ''mount''],
      upper_dir = [''o'', ''session_s'', ''upper''], work_dir = [''o'', ''session_s'', ''work''], is_mounted = True\<rparr>"

definition mounted_sandbox :: SandboxHandle where
  "mounted_sandbox =
     \<lparr>sb_session_id = ''s'', sb_overlay = Some mounted_overlay, root_dir = [''o'', ''session_s'', ''mount'']\<rparr>"

definition unmounted_disk :: disk where
  "unmounted_disk =
     \<lparr>dentries = [([''rootfs''], DDir 493), ([''o''], DDir 493), ([''o'', ''session_s''], DDir 493),
        ([''o'', ''session_s'', ''upper''], DDir 493), ([''o'', ''session_s'', ''mount''], DDir 493),
        ([''o'', ''session_s'', ''upper'', ''x''], DFile 420 ''#!/bin/sh'')],
      new_file_mode = 420, new_dir_mode = 493\<rparr>"

lemma mounted_umount: "k_umount overlay_kernel (mount_point mounted_overlay) mounted_disk = Some unmounted_disk"
  by (simp add: overlay_kernel_def mounted_overlay_def copy_up_def mounted_disk_def unmounted_disk_def
      is_dir_def dlookup_def put_def strict_prefix_def Let_def)

lemma mounted_lookup:
  "dlookup mounted_disk p = Some (DFile m c) \<longleftrightarrow>
     p = [''o'', ''session_s'', ''mount'', ''x''] \<and> m = 420 \<and> c = ''#!/bin/sh''"
  "dlookup unmounted_disk p = Some (DFile m c) \<longleftrightarrow>
     p = [''o'', ''session_s'', ''upper'', ''x''] \<and> m = 420 \<and> c = ''#!/bin/sh''"
  by (auto simp: mounted_disk_def unmounted_disk_def dlookup_def)

lemma mounted_ok:
  "disk_wf mounted_disk" "overlay_layout [''o'', ''session_s''] mounted_overlay"
  "sb_overlay mounted_sandbox = Some mounted_overlay" "is_mounted mounted_overlay"
  "umount_law overlay_kernel mounted_overlay [''rootfs''] mounted_disk"
  "session_wrote mounted_overlay [''rootfs''] mounted_disk [''x''] 420 ''#!/bin/sh''"
proof -
  show "disk_wf mounted_disk" by (simp add: disk_wf_def mounted_disk_def is_dir_def dlookup_def)
  show "overlay_layout [''o'', ''session_s''] mounted_overlay" by (simp add: overlay_layout_def mounted_overlay_def)
  show "sb_overlay mounted_sandbox = Some mounted_overlay" by (simp add: mounted_sandbox_def)
  show "is_mounted mounted_overlay" by (simp add: mounted_overlay_def)
  show "session_wrote mounted_overlay [''rootfs''] mounted_disk [''x''] 420 ''#!/bin/sh''"
    by (simp add: session_wrote_def mounted_overlay_def mounted_disk_def dlookup_def)
  have "disk_wf unmounted_disk" by (simp add: disk_wf_def unmounted_disk_def is_dir_def dlookup_def)
  moreover have "dlookup unmounted_disk q = dlookup mounted_disk q" if "\<not> strict_prefix [''o'', ''session_s''] q" for q
    using that by (auto simp: unmounted_disk_def mounted_disk_def dlookup_def strict_prefix_def)
  moreover have "dlookup unmounted_disk [''o'', ''session_s'', ''upper'', ''x''] = Some (DFile 420 ''#!/bin/sh'')"
    by (simp add: mounted_lookup)
  ultimately show "umount_law overlay_kernel mounted_overlay [''rootfs''] mounted_disk"
    unfolding umount_law_def mounted_umount by (simp add: mounted_overlay_def mounted_lookup)
qed

theorem session_evidence_survives_witness:
  "\<exists>d' evs'. finish_sandbox overlay_kernel (\<lambda>_. ''h'') (\<lambda>_ _. []) True (ForensicsEngine_new [''q''] 6) 0
       (orphan_meta 0 ''s'') mounted_sandbox (mounted_disk, []) = (d', evs') \<and>
     is_mounted mounted_overlay \<and> dlookup mounted_disk [''o'', ''session_s'', ''mount'', ''x''] = Some (DFile 420 ''#!/bin/sh'') \<and>
     dlookup d' [''q'', ''h''] = Some (DFile 384 ''#!/bin/sh'') \<and> \<not> path_exists d' [''o'', ''session_s'']"
proof -
  let ?eng = "ForensicsEngine_new [''q''] 6" and ?c = "''#!/bin/sh''"
  obtain d' evs' where run: "finish_sandbox overlay_kernel (\<lambda>_. ''h'') (\<lambda>_ _. []) True ?eng 0
       (orphan_meta 0 ''s'') mounted_sandbox (mounted_disk, []) = (d', evs')" by fastforce
  have Q: "fe_quarantine_dir ?eng = [''q'']" and cap: "length ?c \<le> fe_max_analysis_bytes ?eng"
    by (simp_all add: ForensicsEngine_new_def with_limits_def DEFAULT_MAX_ANALYSIS_BYTES_def)
  have wf: "disk_wf unmounted_disk" by (simp add: disk_wf_def unmounted_disk_def is_dir_def dlookup_def)
  have um: "unmounted_disk = (if is_mounted mounted_overlay then try_umount overlay_kernel (mount_point mounted_overlay) mounted_disk else mounted_disk)"
    using mounted_ok(4) by (simp add: try_umount_def mounted_umount)
  have d1: "dlookup unmounted_disk x = Some e"
    if "dlookup (snd (sandbox_teardown overlay_kernel mounted_sandbox mounted_disk)) x = Some e" for x e
    by (rule sandbox_teardown_removes(4) [OF mounted_ok(2,3) wf um prod.collapse [symmetric] that])
  have "dlookup d' (fe_quarantine_dir ?eng @ [''h'']) = Some (DFile 384 ?c) \<and>
      captured_event (\<lambda>_. ''h'') (\<lambda>_ _. []) ?eng 0 (orphan_meta 0 ''s'') (client_ip (orphan_meta 0 ''s'')) None ?c
        \<in> set evs' \<and> \<not> path_exists d' [''o'', ''session_s'']"
  proof (rule session_evidence_survives [OF mounted_ok(1-3) _ mounted_ok(5,6) cap _ _ _ _ _ run])
    show "k_umount overlay_kernel (mount_point mounted_overlay) mounted_disk \<noteq> None" by (simp add: mounted_umount)
    show "inj_on (\<lambda>_. ''h'') {c. \<exists>p m. dlookup (snd (sandbox_teardown overlay_kernel mounted_sandbox mounted_disk)) p = Some (DFile m c)}"
      by (auto simp: inj_on_def mounted_lookup dest!: d1)
    show "\<not> is_file mounted_disk x" if "prefix x (fe_quarantine_dir ?eng)" for x
      using that by (auto simp: Q prefix_Cons is_file_def dlookup_def mounted_disk_def)
  qed (simp_all add: Q unrelated_def is_dir_def dlookup_def mounted_disk_def SHEBANG_def)
  with run show ?thesis by (simp add: Q mounted_ok(4)) (simp add: mounted_lookup)
qed



text \<open>
  Claim C36: an artifact above the analysis cap is lost with the session. Tearing the sandbox down (the unmount
  succeeding, if there is one to do), scanning it and removing its directory leaves no file with its content
  anywhere on the disk, and every event of the pass describes another file, one within the cap: the artifact
  is neither quarantined nor hashed nor reported, although the configuration documents it as hashed and
  recorded.
\<close>

theorem oversize_evidence_is_lost:
  assumes wf: "disk_wf d" and lay: "overlay_layout sdir om" and sb: "sb_overlay sb = Some om"
    and ok: "is_mounted om \<Longrightarrow> k_umount k (mount_point om) d \<noteq> None"
    and law: "is_mounted om \<Longrightarrow> umount_law k om lower d"
    and wrote: "session_wrote om lower d q m c"
    and only: "\<And>x m'. dlookup d x = Some (DFile m' c) \<Longrightarrow> strict_prefix sdir x"
    and big: "fe_max_analysis_bytes eng < length c"
    and sep: "unrelated sdir (fe_quarantine_dir eng)"
    and run: "finish_sandbox k sha fi rx eng now meta sb (d, evs) = (d', evs')"
  shows "(\<forall>x m'. dlookup d' x \<noteq> Some (DFile m' c)) \<and> \<not> path_exists d' sdir \<and>
    (\<exists>new. evs' = evs @ new \<and> (\<forall>e \<in> set new. \<exists>c'. length c' \<le> fe_max_analysis_bytes eng \<and>
       e = captured_event sha fi eng now meta (client_ip meta) None c'))"
proof -
  obtain d1 where down: "sandbox_teardown k sb d = (Some (sdir @ [''upper'']), d1)" and wf1: "disk_wf d1"
    and ev: "dlookup d1 (sdir @ ''upper'' # q) = Some (DFile m c)"
    and frame: "\<And>x. \<not> strict_prefix sdir x \<Longrightarrow> dlookup d1 x = dlookup d x"
    using sandbox_teardown_evidence [OF wf lay sb ok law wrote] by blast
  have sd: "is_dir d1 sdir" "sdir \<noteq> []"
    using disk_wf_ancestor [OF wf1, of sdir "''upper'' # q"] ev lay by (simp_all add: path_exists_def overlay_layout_def)
  have run': "dispose_upper sha fi rx eng now meta (d1, evs) (sdir @ [''upper'']) = (d', evs')"
    using run by (simp add: finish_sandbox_def down)
  have in1: "\<forall>x m'. dlookup d1 x = Some (DFile m' c) \<longrightarrow> prefix sdir x"
    using frame only by (metis prefix_order.less_imp_le)
  have "\<not> wanted eng c" using big by (simp add: wanted_def)
  note forgets = dispose_upper_forgets [OF wf1 sd sep run' in1 disjI1 [OF this]]
  obtain new where "evs' = evs @ new" "\<forall>e \<in> set new. \<exists>c'. wanted eng c' \<and> c' \<noteq> c \<and>
      e = captured_event sha fi eng now meta (client_ip meta) None c'" using forgets(3) by blast
  then show ?thesis using forgets(1,2) unfolding stored_def wanted_def by (intro conjI exI [of _ new]) blast+
qed

theorem oversize_evidence_is_lost_witness:
  "\<exists>d' evs'. finish_sandbox overlay_kernel (\<lambda>_. ''h'') (\<lambda>_ _. []) True (with_limits [''q''] 6 4) 0
       (orphan_meta 0 ''s'') mounted_sandbox (mounted_disk, []) = (d', evs') \<and>
     dlookup mounted_disk [''o'', ''session_s'', ''mount'', ''x''] = Some (DFile 420 ''#!/bin/sh'') \<and>
     (\<forall>x m. dlookup d' x \<noteq> Some (DFile m ''#!/bin/sh''))"
proof -
  let ?eng = "with_limits [''q''] 6 4" and ?c = "''#!/bin/sh''"
  obtain d' evs' where run: "finish_sandbox overlay_kernel (\<lambda>_. ''h'') (\<lambda>_ _. []) True ?eng 0
       (orphan_meta 0 ''s'') mounted_sandbox (mounted_disk, []) = (d', evs')" by fastforce
  have "(\<forall>x m. dlookup d' x \<noteq> Some (DFile m ?c)) \<and> \<not> path_exists d' [''o'', ''session_s''] \<and>
    (\<exists>new. evs' = [] @ new \<and> (\<forall>e \<in> set new. \<exists>c'. length c' \<le> fe_max_analysis_bytes ?eng \<and>
       e = captured_event (\<lambda>_. ''h'') (\<lambda>_ _. []) ?eng 0 (orphan_meta 0 ''s'') (client_ip (orphan_meta 0 ''s'')) None c'))"
  proof (rule oversize_evidence_is_lost [OF mounted_ok(1-3) _ mounted_ok(5,6) _ _ _ run])
    show "k_umount overlay_kernel (mount_point mounted_overlay) mounted_disk \<noteq> None" by (simp add: mounted_umount)
    show "strict_prefix [''o'', ''session_s''] x" if "dlookup mounted_disk x = Some (DFile m ?c)" for x m
      using that by (simp add: mounted_lookup strict_prefix_def)
  qed (simp_all add: unrelated_def with_limits_def)
  with run show ?thesis by (simp add: mounted_lookup)
qed

section \<open>Start-up reconciliation\<close>

text \<open>Unmounting below a directory changes only what is below it and keeps the upper directory.\<close>

definition umount_confined :: "kernel \<Rightarrow> bool" where
  "umount_confined k \<longleftrightarrow>
     (\<forall>sdir d d'. k_umount k (sdir @ [''mount'']) d = Some d' \<longrightarrow> disk_wf d \<longrightarrow>
        disk_wf d' \<and> (\<forall>q. \<not> strict_prefix sdir q \<longrightarrow> dlookup d' q = dlookup d q) \<and>
        is_dir d' (sdir @ [''upper'']) = is_dir d (sdir @ [''upper'']))"

fun session_entry :: "string \<times> dentry \<Rightarrow> bool" where
  "session_entry (name, DDir _) \<longleftrightarrow> valid_utf8 name \<and> prefix ''session_'' name"
| "session_entry (name, DFile _ _) \<longleftrightarrow> False"

lemma try_umount_confined:
  assumes "umount_confined k" and "disk_wf d"
    and "d1 = (if is_dir d (p @ [''mount'']) then try_umount k (p @ [''mount'']) d else d)"
  shows "disk_wf d1" and "\<And>q. \<not> strict_prefix p q \<Longrightarrow> dlookup d1 q = dlookup d q"
    and "is_dir d1 (p @ [''upper'']) = is_dir d (p @ [''upper''])"
  using assms unfolding umount_confined_def try_umount_def by (auto split: option.splits if_splits)

lemma reclaim_other: "\<not> session_entry (n, e) \<Longrightarrow> reclaim_entry k obase (os, d) (n, e) = (os, d)"
  by (cases e) (auto simp: reclaim_entry_def strip_prefix_def starts_with_prefix Let_def split: option.splits)

lemma reclaim_session:
  assumes k: "umount_confined k" and wf: "disk_wf d" and n: "session_entry (n, e)"
    and dir: "is_dir d (obase @ [n])"
  obtains os' d1 where "reclaim_entry k obase (os, d) (n, e) = (os', d1)" and "disk_wf d1"
    and "os' = (if is_dir d (obase @ [n, ''upper'']) then os @ [(drop 8 n, obase @ [n, ''upper''])] else os)"
    and "\<And>q. \<not> prefix (obase @ [n]) q \<Longrightarrow> dlookup d1 q = dlookup d q"
    and "if is_dir d (obase @ [n, ''upper'']) then is_dir d1 (obase @ [n, ''upper'']) else \<not> path_exists d1 (obase @ [n])"
proof -
  let ?p = "obase @ [n]"
  define d0 where "d0 = (if is_dir d (?p @ [''mount'']) then try_umount k (?p @ [''mount'']) d else d)"
  note u = try_umount_confined [OF k wf d0_def]
  obtain m where e: "e = DDir m" using n by (cases e) auto
  then have "prefix ''session_'' n" and val: "valid_utf8 n" using n by simp_all
  then have strip: "strip_prefix ''session_'' n = Some (drop 8 n)"
    by (simp add: strip_prefix_def starts_with_prefix eval_nat_numeral)
  have dir0: "is_dir d0 ?p" using u(2) [of ?p] dir by (simp add: is_dir_def)
  show ?thesis
  proof (cases "is_dir d (?p @ [''upper''])")
    case True
    then have up: "is_dir d0 (?p @ [''upper''])" using u(3) by simp
    have "reclaim_entry k obase (os, d) (n, e) = (os @ [(drop 8 n, obase @ [n, ''upper''])], d0)"
      using up e val strip by (auto simp: reclaim_entry_def d0_def Let_def)
    then show ?thesis
      by (rule that) (use True up u in \<open>auto dest: prefix_order.less_imp_le\<close>)
  next
    case False
    then have up: "\<not> is_dir d0 (?p @ [''upper''])" using u(3) by simp
    have "reclaim_entry k obase (os, d) (n, e) = (os, ignore fs_remove_dir_all d0 ?p)"
      using up e val strip by (auto simp: reclaim_entry_def d0_def Let_def)
    then show ?thesis
      by (rule that)
         (use False up u dir0 in \<open>auto simp: remove_dir_all_lookup path_exists_def simp del: prefix_snoc
            intro: remove_dir_all.ignore_wf dest: prefix_order.less_imp_le\<close>)
  qed
qed

text \<open>The scan, over any part of the directory's entries.\<close>

definition scan_result ::
  "path \<Rightarrow> (string \<times> dentry) list \<Rightarrow> disk \<Rightarrow> (string \<times> path) set \<Rightarrow> (string \<times> path) list \<times> disk \<Rightarrow> bool" where
  "scan_result obase es d os r \<longleftrightarrow>
     disk_wf (snd r) \<and>
     set (fst r) = os \<union> {(drop 8 n, obase @ [n, ''upper'']) |n e. (n, e) \<in> set es \<and> session_entry (n, e) \<and>
                           is_dir d (obase @ [n, ''upper''])} \<and>
     (\<forall>(n, e)\<in>set es. session_entry (n, e) \<longrightarrow>
        (if is_dir d (obase @ [n, ''upper'']) then is_dir (snd r) (obase @ [n, ''upper''])
         else \<not> path_exists (snd r) (obase @ [n]))) \<and>
     (\<forall>q. (\<forall>(n, e)\<in>set es. session_entry (n, e) \<longrightarrow> \<not> prefix (obase @ [n]) q) \<longrightarrow> dlookup (snd r) q = dlookup d q)"

lemma reclaim_scan:
  assumes "umount_confined k" and "disk_wf d" and "distinct (map fst es)"
    and "\<And>n e. (n, e) \<in> set es \<Longrightarrow> session_entry (n, e) \<Longrightarrow> is_dir d (obase @ [n])"
  shows "scan_result obase es d (set os) (foldl (reclaim_entry k obase) (os, d) es)"
  using assms
proof (induction es arbitrary: os d)
  case Nil
  then show ?case by (simp add: scan_result_def)
next
  case (Cons x es)
  obtain n e where x: "x = (n, e)" by (cases x)
  have n: "n \<notin> fst ` set es" using Cons.prems(3) x by simp
  show ?case
  proof (cases "session_entry (n, e)")
    case False
    have "scan_result obase es d (set os) (foldl (reclaim_entry k obase) (os, d) es)"
      by (rule Cons.IH) (use Cons.prems in auto)
    then show ?thesis using False by (auto simp: x reclaim_other scan_result_def)
  next
    case True
    obtain os' d1 where r: "reclaim_entry k obase (os, d) (n, e) = (os', d1)" "disk_wf d1"
      and os': "os' = (if is_dir d (obase @ [n, ''upper'']) then os @ [(drop 8 n, obase @ [n, ''upper''])] else os)"
      and fr: "\<And>q. \<not> prefix (obase @ [n]) q \<Longrightarrow> dlookup d1 q = dlookup d q"
      and st: "if is_dir d (obase @ [n, ''upper'']) then is_dir d1 (obase @ [n, ''upper''])
               else \<not> path_exists d1 (obase @ [n])"
      using reclaim_session [OF Cons.prems(1,2) True, of obase os] Cons.prems(4) True x by (metis list.set_intros(1))
    have other: "dlookup d1 (obase @ a # q) = dlookup d (obase @ a # q)" if "a \<in> fst ` set es" for a q
    proof -
      have "a \<noteq> n" using n that by blast
      then have "\<not> prefix (obase @ [n]) (obase @ a # q)" by simp
      then show ?thesis by (rule fr)
    qed
    have "is_dir d1 (obase @ [a])" if "(a, b) \<in> set es" "session_entry (a, b)" for a b
      using Cons.prems(4) [of a b] other [of a "[]"] that by (force simp: is_dir_def)
    then have IH: "scan_result obase es d1 (set os') (foldl (reclaim_entry k obase) (os', d1) es)"
      using Cons.IH [of d1 os'] Cons.prems(1,3) r(2) by simp
    let ?r = "foldl (reclaim_entry k obase) (os', d1) es"
    have ups: "is_dir d1 (obase @ [a, ''upper'']) = is_dir d (obase @ [a, ''upper''])" if "(a, b) \<in> set es" for a b
      using other [of a "[''upper'']"] that by (force simp: is_dir_def)
    have mine: "dlookup (snd ?r) (obase @ n # q) = dlookup d1 (obase @ n # q)" for q
    proof -
      have "\<forall>(a, b)\<in>set es. session_entry (a, b) \<longrightarrow> \<not> prefix (obase @ [a]) (obase @ n # q)"
        using n by (force simp: image_iff)
      with IH show ?thesis unfolding scan_result_def by blast
    qed
    have "scan_result obase (x # es) d (set os) ?r"
      unfolding scan_result_def x
    proof (intro conjI)
      show "disk_wf (snd ?r)" using IH by (simp add: scan_result_def)
      show "set (fst ?r) = set os \<union> {(drop 8 n', obase @ [n', ''upper'']) |n' e'. (n', e') \<in> set ((n, e) # es) \<and>
          session_entry (n', e') \<and> is_dir d (obase @ [n', ''upper''])}"
        using IH True ups by (auto simp: scan_result_def os')
      show "\<forall>(a, b)\<in>set ((n, e) # es). session_entry (a, b) \<longrightarrow>
          (if is_dir d (obase @ [a, ''upper'']) then is_dir (snd ?r) (obase @ [a, ''upper''])
           else \<not> path_exists (snd ?r) (obase @ [a]))"
        using IH st mine [of "[]"] mine [of "[''upper'']"] ups
        by (auto simp: scan_result_def is_dir_def path_exists_def split: if_splits)
      show "\<forall>q. (\<forall>(a, b)\<in>set ((n, e) # es). session_entry (a, b) \<longrightarrow> \<not> prefix (obase @ [a]) q) \<longrightarrow>
          dlookup (snd ?r) q = dlookup d q"
        using IH fr True by (auto simp: scan_result_def)
    qed
    then show ?thesis by (simp add: x r(1))
  qed
qed

lemma reclaim_exact:
  assumes "umount_confined k" and "disk_wf d"
    and "reclaim_orphaned_sessions k d obase = (orphans, d')"
  shows "set orphans = {(sid, obase @ [''session_'' @ sid, ''upper'']) |sid.
        valid_utf8 (''session_'' @ sid) \<and> is_dir d (obase @ [''session_'' @ sid, ''upper''])} \<and>
    (\<forall>(sid, upper)\<in>set orphans. is_dir d' upper) \<and>
    (\<forall>sid. valid_utf8 (''session_'' @ sid) \<and> is_dir d (obase @ [''session_'' @ sid]) \<and>
       \<not> is_dir d (obase @ [''session_'' @ sid, ''upper'']) \<longrightarrow> \<not> path_exists d' (obase @ [''session_'' @ sid])) \<and>
    (\<forall>q. (\<forall>sid. \<not> prefix (obase @ [''session_'' @ sid]) q) \<longrightarrow> dlookup d' q = dlookup d q)"
proof (cases "fs_read_dir d obase")
  case None
  have "\<not> path_exists d (obase @ a # q)" for a q
    using disk_wf_ancestor [OF assms(2), of obase "a # q"] None by (auto simp: fs_read_dir_def split: if_splits)
  then have "\<not> is_dir d (obase @ a # q)" for a q using is_dir_exists by blast
  then show ?thesis using assms(3) None by (simp add: reclaim_orphaned_sessions_def)
next
  case (Some es)
  note mem = read_dir_entries [OF assms(2) Some]
  have sess: "(\<exists>e. (n, e) \<in> set es \<and> session_entry (n, e)) \<longleftrightarrow>
      is_dir d (obase @ [n]) \<and> valid_utf8 n \<and> prefix ''session_'' n" for n
    by (auto simp: mem(1) is_dir_def split: option.splits dentry.splits elim!: session_entry.elims)
  have scan: "scan_result obase es d {} (orphans, d')"
    using reclaim_scan [OF assms(1,2) mem(2), of obase "[]"] sess assms(3) Some
    by (force simp: reclaim_orphaned_sessions_def)
  have parent: "is_dir d (obase @ [n, ''upper'']) \<Longrightarrow> is_dir d (obase @ [n])" for n
    using disk_wf_ancestor [OF assms(2), of "obase @ [n]" "[''upper'']"] is_dir_exists by simp
  have "set orphans = {(drop 8 n, obase @ [n, ''upper'']) |n. is_dir d (obase @ [n, ''upper'']) \<and> valid_utf8 n \<and>
      prefix ''session_'' n}"
    using scan sess parent by (fastforce simp: scan_result_def)
  also have "\<dots> = {(sid, obase @ [''session_'' @ sid, ''upper'']) |sid.
      valid_utf8 (''session_'' @ sid) \<and> is_dir d (obase @ [''session_'' @ sid, ''upper''])}"
    by (force simp: prefix_def)
  finally have S: "set orphans = \<dots>" .
  have per: "if is_dir d (obase @ [n, ''upper'']) then is_dir d' (obase @ [n, ''upper''])
      else \<not> path_exists d' (obase @ [n])"
    if "is_dir d (obase @ [n])" "valid_utf8 n" "prefix ''session_'' n" for n
    using scan sess [of n] that by (fastforce simp: scan_result_def)
  have frame: "dlookup d' q = dlookup d q" if "\<forall>sid. \<not> prefix (obase @ [''session_'' @ sid]) q" for q
  proof -
    have "\<not> prefix (obase @ [n]) q" if "prefix ''session_'' n" for n
      using \<open>\<forall>sid. _\<close> that by (auto simp: prefix_def [of "''session_''"])
    then have "\<forall>(n, e)\<in>set es. session_entry (n, e) \<longrightarrow> \<not> prefix (obase @ [n]) q"
      using sess by blast
    then show ?thesis using scan by (simp add: scan_result_def)
  qed
  have per': "is_dir d' (obase @ [''session_'' @ sid, ''upper''])"
    if "valid_utf8 (''session_'' @ sid)" "is_dir d (obase @ [''session_'' @ sid, ''upper''])" for sid
    using per [OF parent [OF that(2)] that(1)] that(2) by simp
  have gone: "\<not> path_exists d' (obase @ [''session_'' @ sid])"
    if "valid_utf8 (''session_'' @ sid)" "is_dir d (obase @ [''session_'' @ sid])"
      "\<not> is_dir d (obase @ [''session_'' @ sid, ''upper''])" for sid
    using per [OF that(2,1)] that(3) by simp
  show ?thesis
    unfolding S using per' gone frame by blast
qed

text \<open>
  Claim C30: the start-up scan reports exactly the directories \<^verbatim>\<open>session_<id>\<close> below the overlay base
  that still have an upper directory, each with that directory, keeps those directories, removes
  every session directory that has none, and touches nothing else, whatever the kernel's unmounts do
  below the session directories.
\<close>
theorem reclaim_is_exact:
  assumes "umount_confined k" and "disk_wf d"
    and "reclaim_orphaned_sessions k d obase = (orphans, d')"
  shows "set orphans = {(sid, obase @ [''session_'' @ sid, ''upper'']) |sid.
        valid_utf8 (''session_'' @ sid) \<and> is_dir d (obase @ [''session_'' @ sid, ''upper''])} \<and>
    (\<forall>(sid, upper)\<in>set orphans. is_dir d' upper) \<and>
    (\<forall>sid. valid_utf8 (''session_'' @ sid) \<and> is_dir d (obase @ [''session_'' @ sid]) \<and>
       \<not> is_dir d (obase @ [''session_'' @ sid, ''upper'']) \<longrightarrow> \<not> path_exists d' (obase @ [''session_'' @ sid])) \<and>
    (\<forall>q. (\<forall>sid. \<not> prefix (obase @ [''session_'' @ sid]) q) \<longrightarrow> dlookup d' q = dlookup d q)"
  using assms by (rule reclaim_exact)

definition left_disk :: disk where
  "left_disk =
     \<lparr>dentries = [([''o''], DDir 493), ([''o'', ''session_s''], DDir 493), ([''o'', ''session_s'', ''upper''], DDir 493),
        ([''o'', ''session_s'', ''upper'', ''x''], DFile 420 ''#!/bin/sh'')],
      new_file_mode = 420, new_dir_mode = 493\<rparr>"

theorem reclaim_is_exact_witness:
  "reclaim_orphaned_sessions no_mounts left_disk [''o''] = ([(''s'', [''o'', ''session_s'', ''upper''])], left_disk) \<and>
   umount_confined no_mounts \<and> disk_wf left_disk \<and> is_dir left_disk [''o'', ''session_s'', ''upper'']"
proof -
  have k: "umount_confined no_mounts" by (simp add: umount_confined_def no_mounts_def)
  have wf: "disk_wf left_disk" by (simp add: disk_wf_def left_disk_def is_dir_def dlookup_def)
  have "valid_utf8 ''session_s''" by (rule valid_utf8_ascii) (simp add: byte_of_def)
  then have run: "reclaim_orphaned_sessions no_mounts left_disk [''o''] =
      ([(''s'', [''o'', ''session_s'', ''upper''])], left_disk)"
    by (simp add: reclaim_orphaned_sessions_def fs_read_dir_def is_dir_def dlookup_def left_disk_def
        reclaim_entry_def strip_prefix_def starts_with_def Let_def)
  from reclaim_is_exact [OF k wf run] run k wf show ?thesis by auto
qed

end
