(* ===== verification/GeoIp.thy ===== *)
theory GeoIp
  imports Disk
begin

text \<open>
  GeoIP tagging (\<^verbatim>\<open>crates/aegis-gateway/src/geoip.rs\<close>). The MaxMind reader is third-party code: an
  opened database is the function from addresses to decoded records (\<^const>\<open>None\<close> for a failed lookup, a
  record that does not decode, or no record), and opening a file is an argument.
\<close>

section \<open>Definitions\<close>

record CityRecord =
  country_english :: "string option"
  country_iso_code :: "string option"
  city_english :: "string option"
  latitude :: "rat option"
  longitude :: "rat option"

record AsnRecord =
  as_organization :: "string option"
  as_number :: "u32 option"

record GeoIpLookup =
  geo_city :: "(IpAddr \<Rightarrow> CityRecord option) option"
  geo_asn :: "(IpAddr \<Rightarrow> AsnRecord option) option"

fun is_private_or_local :: "IpAddr \<Rightarrow> bool" where
  "is_private_or_local (V4 a b c d) =
     (v4_is_loopback a b c d \<or> v4_is_unspecified a b c d \<or> v4_is_private a b c d \<or> v4_is_link_local a b c d)"
| "is_private_or_local (V6 s0 s1 s2 s3 s4 s5 s6 s7) =
     (v6_is_loopback [s0, s1, s2, s3, s4, s5, s6, s7] \<or> v6_is_unspecified [s0, s1, s2, s3, s4, s5, s6, s7])"

definition load_one :: "(string \<Rightarrow> 'r option) \<Rightarrow> string option \<Rightarrow> 'r option" where
  "load_one open_readfile p = (case p of None \<Rightarrow> None | Some f \<Rightarrow> open_readfile f)"

definition geoip_load ::
  "(string \<Rightarrow> (IpAddr \<Rightarrow> CityRecord option) option) \<Rightarrow> (string \<Rightarrow> (IpAddr \<Rightarrow> AsnRecord option) option) \<Rightarrow>
   string option \<Rightarrow> string option \<Rightarrow> GeoIpLookup" where
  "geoip_load open_city open_asn city_path asn_path =
     \<lparr>geo_city = load_one open_city city_path, geo_asn = load_one open_asn asn_path\<rparr>"

definition or_else :: "'a option \<Rightarrow> 'a option \<Rightarrow> 'a option" where
  "or_else x y = (case x of Some a \<Rightarrow> Some a | None \<Rightarrow> y)"

definition decode_record :: "(IpAddr \<Rightarrow> 'r option) option \<Rightarrow> IpAddr \<Rightarrow> 'r option" where
  "decode_record reader ip = (case reader of None \<Rightarrow> None | Some r \<Rightarrow> r ip)"

definition geoip_lookup :: "GeoIpLookup \<Rightarrow> IpAddr \<Rightarrow> GeoIpInfo option" where
  "geoip_lookup g ip =
     (if is_private_or_local ip then Some (GeoIpInfo_default\<lparr>country := Some ''Local''\<rparr>)
      else
        let info0 = GeoIpInfo_default;
            (info1, found1) =
              (case decode_record (geo_city g) ip of
                 Some r \<Rightarrow>
                   (info0\<lparr>country := or_else (country_english r) (country_iso_code r), city := city_english r,
                          lat := latitude r, lon := longitude r\<rparr>, True)
               | None \<Rightarrow> (info0, False));
            (info2, found2) =
              (case decode_record (geo_asn g) ip of
                 Some r \<Rightarrow>
                   (info1\<lparr>asn := or_else (as_organization r) (map_option (\<lambda>n. ''AS'' @ show_nat (unat n)) (as_number r))\<rparr>, True)
               | None \<Rightarrow> (info1, found1))
        in if found2 then Some info2 else None)"

section \<open>Properties\<close>

text \<open>
  An address is tagged exactly once, by what is known of it: local IPv4 addresses and the two
  special IPv6 ones are tagged \<^verbatim>\<open>Local\<close> without consulting a database; any other address is untagged
  exactly when neither database has a record, and otherwise carries the city fields of the city
  record and the network of the ASN record and nothing else.
\<close>
theorem geoip_lookup_exact:
  "geoip_lookup g ip =
     (if is_private_or_local ip
      then Some \<lparr>country = Some ''Local'', city = None, asn = None, lat = None, lon = None\<rparr>
      else if decode_record (geo_city g) ip = None \<and> decode_record (geo_asn g) ip = None then None
      else Some \<lparr>country = Option.bind (decode_record (geo_city g) ip) (\<lambda>r. or_else (country_english r) (country_iso_code r)),
                 city = Option.bind (decode_record (geo_city g) ip) city_english,
                 asn = Option.bind (decode_record (geo_asn g) ip)
                   (\<lambda>r. or_else (as_organization r) (map_option (\<lambda>n. ''AS'' @ show_nat (unat n)) (as_number r))),
                 lat = Option.bind (decode_record (geo_city g) ip) latitude,
                 lon = Option.bind (decode_record (geo_city g) ip) longitude\<rparr>)"
  by (cases "decode_record (geo_city g) ip"; cases "decode_record (geo_asn g) ip")
     (simp_all add: geoip_lookup_def GeoIpInfo_default_def Let_def)

text \<open>
  An IPv6 link-local address (and likewise a unique-local or IPv4-mapped private one) is not
  recognised as local: with a database that answers, it gets the database's country.
\<close>
theorem geoip_v6_link_local_is_looked_up:
  "geoip_lookup \<lparr>geo_city = Some (\<lambda>ip. Some \<lparr>country_english = Some ''Sweden'', country_iso_code = None,
       city_english = None, latitude = None, longitude = None\<rparr>), geo_asn = None\<rparr> (V6 0xfe80 0 0 0 0 0 0 1) =
     Some \<lparr>country = Some ''Sweden'', city = None, asn = None, lat = None, lon = None\<rparr>"
  by (simp add: geoip_lookup_def decode_record_def GeoIpInfo_default_def or_else_def)

end
