(* ===== verification/Admission.thy ===== *)
theory Admission
  imports Ssrf_Guard
begin

text \<open>
  Connection admission control (\<^verbatim>\<open>IpConnectionGuard\<close> in
  \<^verbatim>\<open>crates/aegis-gateway/src/handler.rs\<close>): per-prefix concurrency and rate limits in a table of
  bounded size. An \<^verbatim>\<open>Instant\<close> is its number of nanoseconds since some origin, and
  \<^verbatim>\<open>duration_since\<close> saturates at zero, as subtraction on \<^typ>\<open>nat\<close> does. The interface the server
  relies on is the locale \<open>admission_control\<close> (extended by the rate law in \<open>rate_control\<close>);
  both are interpreted on the guard.
\<close>

section \<open>Definitions\<close>

definition RATE_WINDOW :: nat where
  "RATE_WINDOW = 60 * 1000000000"

definition MAX_TRACKED_PREFIXES :: nat where
  "MAX_TRACKED_PREFIXES = 65536"

fun admission_key :: "IpAddr \<Rightarrow> IpAddr" where
  "admission_key (V4 a b c d) = V4 a b c d"
| "admission_key (V6 s0 s1 s2 s3 s4 s5 s6 s7) = V6 s0 s1 s2 s3 0 0 0 0"

record IpEntry =
  active :: u32
  recent_connects :: "nat list"

definition is_stale :: "IpEntry \<Rightarrow> nat \<Rightarrow> bool" where
  "is_stale e now \<longleftrightarrow>
     active e = 0 \<and> \<not> list_ex (\<lambda>t. now - t \<le> RATE_WINDOW) (recent_connects e)"

record GuardState =
  entries :: "(IpAddr \<times> IpEntry) list"
  last_sweep :: nat

record IpConnectionGuard =
  max_per_ip :: u32
  max_per_minute :: u32
  state :: GuardState

definition IpConnectionGuard_new :: "u32 \<Rightarrow> u32 \<Rightarrow> nat \<Rightarrow> IpConnectionGuard" where
  "IpConnectionGuard_new per_ip per_minute now =
     \<lparr>max_per_ip = per_ip, max_per_minute = per_minute,
      state = \<lparr>entries = [], last_sweep = now\<rparr>\<rparr>"

text \<open>The stale-entry sweep at the start of an admission.\<close>

definition sweep :: "nat \<Rightarrow> GuardState \<Rightarrow> GuardState" where
  "sweep now st =
     (if MAX_TRACKED_PREFIXES div 2 \<le> length (entries st) \<and> RATE_WINDOW \<le> now - last_sweep st
      then \<lparr>entries = filter (\<lambda>(k, e). \<not> is_stale e now) (entries st), last_sweep = now\<rparr>
      else st)"

definition new_entry :: IpEntry where
  "new_entry = \<lparr>active = 0, recent_connects = []\<rparr>"

definition entry_or_new :: "IpAddr \<Rightarrow> GuardState \<Rightarrow> IpEntry" where
  "entry_or_new key st = (case map_of (entries st) key of Some e \<Rightarrow> e | None \<Rightarrow> new_entry)"

definition prune :: "nat \<Rightarrow> nat list \<Rightarrow> nat list" where
  "prune now ts = dropWhile (\<lambda>t. RATE_WINDOW < now - t) ts"

definition put_entry :: "IpAddr \<Rightarrow> IpEntry \<Rightarrow> GuardState \<Rightarrow> GuardState" where
  "put_entry key e st = st\<lparr>entries := AList.update key e (entries st)\<rparr>"

definition try_admit :: "IpConnectionGuard \<Rightarrow> nat \<Rightarrow> IpAddr \<Rightarrow> bool \<times> IpConnectionGuard" where
  "try_admit g now ip =
     (let key = admission_key ip;
          st = sweep now (state g)
      in if MAX_TRACKED_PREFIXES \<le> length (entries st) \<and> key \<notin> fst ` set (entries st)
         then (False, g\<lparr>state := st\<rparr>)
         else
           let entry0 = entry_or_new key st;
               recent = prune now (recent_connects entry0);
               entry = entry0\<lparr>recent_connects := recent\<rparr>
           in if 0 < max_per_ip g \<and> max_per_ip g \<le> active entry
              then (False, g\<lparr>state := put_entry key entry st\<rparr>)
              else if 0 < max_per_minute g \<and> max_per_minute g \<le> of_nat (length recent)
              then (False, g\<lparr>state := put_entry key entry st\<rparr>)
              else (True, g\<lparr>state := put_entry key
                      (entry\<lparr>active := active entry + 1, recent_connects := recent @ [now]\<rparr>) st\<rparr>))"

definition saturating_sub1 :: "u32 \<Rightarrow> u32" where
  "saturating_sub1 w = (if w = 0 then 0 else w - 1)"

definition release :: "IpConnectionGuard \<Rightarrow> IpAddr \<Rightarrow> IpConnectionGuard" where
  "release g ip =
     (let key = admission_key ip; st = state g
      in case map_of (entries st) key of
           None \<Rightarrow> g
         | Some e \<Rightarrow>
             let e' = e\<lparr>active := saturating_sub1 (active e)\<rparr>
             in if active e' = 0 \<and> recent_connects e' = []
                then g\<lparr>state := st\<lparr>entries := AList.delete key (entries st)\<rparr>\<rparr>
                else g\<lparr>state := put_entry key e' st\<rparr>)"

section \<open>The server's use of the guard\<close>

text \<open>
  The server admits connections and every admitted session releases its slot exactly once, when
  its \<^verbatim>\<open>ActiveSession\<close> is dropped. A run is a sequence of connects, each so many nanoseconds after
  the previous operation, and of disconnects of the \<open>i\<close>-th live session.
\<close>

datatype admission_op = Connect_op nat IpAddr | Disconnect_op nat

record 'g admission_world =
  guard :: 'g
  clock :: nat
  live :: "IpAddr list"
  admitted :: "(IpAddr \<times> nat) list"

fun admission_step ::
  "('g \<Rightarrow> nat \<Rightarrow> IpAddr \<Rightarrow> bool \<times> 'g) \<Rightarrow> ('g \<Rightarrow> IpAddr \<Rightarrow> 'g) \<Rightarrow>
   'g admission_world \<Rightarrow> admission_op \<Rightarrow> 'g admission_world" where
  "admission_step admit rel w (Connect_op dt ip) =
     (let now = clock w + dt; (ok, g) = admit (guard w) now ip
      in if ok
         then w\<lparr>guard := g, clock := now, live := live w @ [ip],
                admitted := admitted w @ [(ip, now)]\<rparr>
         else w\<lparr>guard := g, clock := now\<rparr>)"
| "admission_step admit rel w (Disconnect_op i) =
     (if i < length (live w)
      then w\<lparr>guard := rel (guard w) (live w ! i), live := take i (live w) @ drop (Suc i) (live w)\<rparr>
      else w)"

definition start_world :: "'g \<Rightarrow> nat \<Rightarrow> 'g admission_world" where
  "start_world g now = \<lparr>guard = g, clock = now, live = [], admitted = []\<rparr>"

definition sessions_of :: "('g, 'b) admission_world_scheme \<Rightarrow> IpAddr \<Rightarrow> nat" where
  "sessions_of w k = length (filter (\<lambda>ip. admission_key ip = k) (live w))"

text \<open>The admissions of prefix \<open>k\<close> at times within \<open>[t, t + RATE_WINDOW]\<close>.\<close>

definition admitted_within :: "(IpAddr \<times> nat) list \<Rightarrow> IpAddr \<Rightarrow> nat \<Rightarrow> nat" where
  "admitted_within h k t =
     length (filter (\<lambda>(ip, s). admission_key ip = k \<and> t \<le> s \<and> s \<le> t + RATE_WINDOW) h)"

section \<open>The interface\<close>

locale admission_control =
  fixes admit :: "'g \<Rightarrow> nat \<Rightarrow> IpAddr \<Rightarrow> bool \<times> 'g"
    and rel :: "'g \<Rightarrow> IpAddr \<Rightarrow> 'g"
    and inv :: "'g \<Rightarrow> bool"
    and limit :: "'g \<Rightarrow> nat"
    and used :: "'g \<Rightarrow> IpAddr \<Rightarrow> nat"
  assumes admit_inv: "inv g \<Longrightarrow> admit g now ip = (b, g') \<Longrightarrow> inv g'"
    and admit_limit: "admit g now ip = (b, g') \<Longrightarrow> limit g' = limit g"
    and admit_used: "inv g \<Longrightarrow> 0 < limit g \<Longrightarrow> admit g now ip = (b, g') \<Longrightarrow>
      used g' k = used g k + (if b \<and> k = admission_key ip then 1 else 0)"
    and admit_below: "inv g \<Longrightarrow> 0 < limit g \<Longrightarrow> admit g now ip = (True, g') \<Longrightarrow>
      used g (admission_key ip) < limit g"
    and rel_inv: "inv g \<Longrightarrow> inv (rel g ip)"
    and rel_limit: "limit (rel g ip) = limit g"
    and rel_used: "inv g \<Longrightarrow>
      used (rel g ip) k = (if k = admission_key ip then used g k - 1 else used g k)"
begin

definition tracks :: "'g admission_world \<Rightarrow> bool" where
  "tracks w \<longleftrightarrow> inv (guard w) \<and>
     (0 < limit (guard w) \<longrightarrow>
       (\<forall>k. used (guard w) k = sessions_of w k \<and> sessions_of w k \<le> limit (guard w)))"

lemma filter_remove_nth:
  assumes "i < length xs"
  shows "length (filter P (take i xs @ drop (Suc i) xs)) =
    length (filter P xs) - (if P (xs ! i) then 1 else 0)"
proof -
  have "xs = take i xs @ xs ! i # drop (Suc i) xs"
    using assms by (rule id_take_nth_drop)
  then have "length (filter P xs) = length (filter P (take i xs @ xs ! i # drop (Suc i) xs))"
    by simp
  then show ?thesis by (simp del: append_take_drop_id)
qed

lemma tracks_step:
  assumes "tracks w"
  shows "tracks (admission_step admit rel w oper) \<and>
    limit (guard (admission_step admit rel w oper)) = limit (guard w)"
proof (cases oper)
  case (Connect_op dt ip)
  obtain b g where ad: "admit (guard w) (clock w + dt) ip = (b, g)" by fastforce
  have i: "inv (guard w)" using assms by (simp add: tracks_def)
  note l = admit_limit [OF ad] and u = admit_used [OF i _ ad]
  have below: "b \<Longrightarrow> 0 < limit (guard w) \<Longrightarrow> used (guard w) (admission_key ip) < limit (guard w)"
    using admit_below [OF i] ad by auto
  show ?thesis
    using assms l u below admit_inv [OF i ad]
    by (cases b) (auto simp: Connect_op ad tracks_def sessions_of_def Let_def Suc_le_eq)
next
  case (Disconnect_op i)
  show ?thesis
  proof (cases "i < length (live w)")
    case True
    have iv: "inv (guard w)" using assms by (simp add: tracks_def)
    have "sessions_of (admission_step admit rel w oper) k =
        sessions_of w k - (if admission_key (live w ! i) = k then 1 else 0)" for k
      unfolding sessions_of_def using filter_remove_nth [OF True] by (simp add: Disconnect_op True)
    then show ?thesis
      using assms rel_inv [OF iv] rel_used [OF iv]
      by (auto simp: Disconnect_op True tracks_def rel_limit intro: le_trans [OF diff_le_self])
  next
    case False
    then show ?thesis using assms by (simp add: Disconnect_op)
  qed
qed

lemma tracks_run:
  "tracks w \<Longrightarrow> tracks (foldl (admission_step admit rel) w ops) \<and>
     limit (guard (foldl (admission_step admit rel) w ops)) = limit (guard w)"
proof (induction ops arbitrary: w)
  case (Cons oper ops)
  from tracks_step [OF Cons.prems, of oper] Cons.IH [of "admission_step admit rel w oper"]
  show ?case by simp
qed simp

end

text \<open>
  The rate law. \<open>recent g k\<close> are the remembered admission times of prefix \<open>k\<close>; only times
  outside the window may be forgotten.
\<close>

definition in_window :: "nat \<Rightarrow> nat list \<Rightarrow> nat list" where
  "in_window n ts = filter (\<lambda>t. n - t \<le> RATE_WINDOW) ts"

locale rate_control = admission_control +
  fixes rate :: "'a \<Rightarrow> nat"
    and recent :: "'a \<Rightarrow> IpAddr \<Rightarrow> nat list"
  assumes admit_rate: "admit g now ip = (b, g') \<Longrightarrow> rate g' = rate g"
    and admit_recent: "inv g \<Longrightarrow> now \<le> n \<Longrightarrow> admit g now ip = (b, g') \<Longrightarrow>
      in_window n (recent g' k) =
        in_window n (recent g k) @ (if b \<and> k = admission_key ip then in_window n [now] else [])"
    and admit_below_rate: "inv g \<Longrightarrow> 0 < rate g \<Longrightarrow> admit g now ip = (True, g') \<Longrightarrow>
      length (in_window now (recent g (admission_key ip))) < rate g"
    and rel_rate: "rate (rel g ip) = rate g"
    and rel_recent: "inv g \<Longrightarrow> in_window n (recent (rel g ip) k) = in_window n (recent g k)"
begin

definition times_of :: "'a admission_world \<Rightarrow> IpAddr \<Rightarrow> nat list" where
  "times_of w k = map snd (filter (\<lambda>(ip, s). admission_key ip = k) (admitted w))"

definition logged :: "'a admission_world \<Rightarrow> bool" where
  "logged w \<longleftrightarrow> inv (guard w) \<and> (\<forall>(ip, s) \<in> set (admitted w). s \<le> clock w) \<and>
     (\<forall>k n. clock w \<le> n \<longrightarrow> in_window n (recent (guard w) k) = in_window n (times_of w k)) \<and>
     (0 < rate (guard w) \<longrightarrow> (\<forall>k t. admitted_within (admitted w) k t \<le> rate (guard w)))"

lemma admitted_within_le_window:
  assumes "\<forall>(ip, s) \<in> set (admitted w). s \<le> now" and "now \<le> t + RATE_WINDOW"
  shows "admitted_within (admitted w) k t \<le> length (in_window now (times_of w k))"
proof -
  have "length (filter (\<lambda>(ip, s). admission_key ip = k \<and> t \<le> s \<and> s \<le> t + RATE_WINDOW) h) \<le>
      length (in_window now (map snd (filter (\<lambda>(ip, s). admission_key ip = k) h)))"
    for h :: "(IpAddr \<times> nat) list"
    using assms(2) by (induction h) (auto simp: in_window_def)
  then show ?thesis by (simp add: admitted_within_def times_of_def)
qed

lemma logged_step:
  assumes L: "logged w"
  shows "logged (admission_step admit rel w oper) \<and>
    rate (guard (admission_step admit rel w oper)) = rate (guard w)"
proof (cases oper)
  case (Disconnect_op i)
  then show ?thesis
    using L by (auto simp: logged_def rel_inv rel_rate rel_recent times_of_def)
next
  case (Connect_op dt ip)
  let ?now = "clock w + dt"
  obtain b g where ad: "admit (guard w) ?now ip = (b, g)" by fastforce
  have i: "inv (guard w)" using L by (simp add: logged_def)
  have old: "\<forall>(ip, s) \<in> set (admitted w). s \<le> ?now"
    using L by (auto simp: logged_def intro: trans_le_add1)
  have win: "in_window n (recent g k) = in_window n (times_of w k)
      @ (if b \<and> k = admission_key ip then in_window n [?now] else [])" if "?now \<le> n" for n k
    using admit_recent [OF i that ad] L that by (simp add: logged_def)
  have new: "admitted_within (admitted w @ [(ip, ?now)]) k t \<le> rate (guard w)"
    if "b" "0 < rate (guard w)" for k t
  proof (cases "admission_key ip = k \<and> t \<le> ?now \<and> ?now \<le> t + RATE_WINDOW")
    case True
    have "length (in_window ?now (recent (guard w) k)) < rate (guard w)"
      using admit_below_rate [OF i that(2)] ad that(1) True by auto
    then have "admitted_within (admitted w) k t < rate (guard w)"
      using admitted_within_le_window [OF old, of t k] True L by (auto simp: logged_def)
    then show ?thesis using True by (simp add: admitted_within_def)
  next
    case False
    then have "admitted_within (admitted w @ [(ip, ?now)]) k t = admitted_within (admitted w) k t"
      by (auto simp: admitted_within_def)
    then show ?thesis using L that(2) by (simp add: logged_def)
  qed
  show ?thesis
    using L old win new admit_inv [OF i ad] admit_rate [OF ad]
    by (cases b) (auto simp: Connect_op ad logged_def times_of_def in_window_def Let_def)
qed

lemma logged_run:
  "logged w \<Longrightarrow> logged (foldl (admission_step admit rel) w ops) \<and>
     rate (guard (foldl (admission_step admit rel) w ops)) = rate (guard w)"
proof (induction ops arbitrary: w)
  case (Cons oper ops)
  from logged_step [OF Cons.prems, of oper] Cons.IH [of "admission_step admit rel w oper"]
  show ?case by simp
qed simp

end

section \<open>The guard provides the interface\<close>

definition entry_ok :: "IpConnectionGuard \<Rightarrow> IpEntry \<Rightarrow> bool" where
  "entry_ok g e \<longleftrightarrow>
     (0 < max_per_ip g \<longrightarrow> active e \<le> max_per_ip g) \<and>
     (0 < max_per_minute g \<longrightarrow> length (recent_connects e) \<le> unat (max_per_minute g))"

definition guard_inv :: "IpConnectionGuard \<Rightarrow> bool" where
  "guard_inv g \<longleftrightarrow>
     distinct (map fst (entries (state g))) \<and>
     length (entries (state g)) \<le> MAX_TRACKED_PREFIXES \<and>
     (\<forall>(k, e) \<in> set (entries (state g)). entry_ok g e)"

definition active_of :: "IpConnectionGuard \<Rightarrow> IpAddr \<Rightarrow> nat" where
  "active_of g k = unat (active (entry_or_new k (state g)))"

definition recent_of :: "IpConnectionGuard \<Rightarrow> IpAddr \<Rightarrow> nat list" where
  "recent_of g k = recent_connects (entry_or_new k (state g))"

lemma entry_or_new_put [simp]:
  "entry_or_new k (put_entry key e st) = (if k = key then e else entry_or_new k st)"
  by (simp add: entry_or_new_def put_entry_def)

lemma entry_ok_new: "entry_ok g new_entry"
  by (simp add: entry_ok_def new_entry_def)

lemma entry_ok_lookup:
  "guard_inv g \<Longrightarrow> entry_ok g (entry_or_new k (state g))"
  by (auto simp: guard_inv_def entry_or_new_def entry_ok_new split: option.splits dest: map_of_SomeD)

lemma entry_ok_state [simp]: "entry_ok (g\<lparr>state := st\<rparr>) = entry_ok g"
  by (simp add: entry_ok_def fun_eq_iff)

text \<open>The sweep keeps the invariant, and forgets nothing that still counts.\<close>

lemma sweep_inv:
  "guard_inv g \<Longrightarrow> guard_inv (g\<lparr>state := sweep now (state g)\<rparr>)"
  by (auto simp: guard_inv_def sweep_def distinct_filter_fst
      intro: le_trans [OF length_filter_le])

lemma sweep_entry:
  assumes "distinct (map fst (entries st))"
  shows "entry_or_new k (sweep now st) = entry_or_new k st \<or>
    entry_or_new k (sweep now st) = new_entry \<and> is_stale (entry_or_new k st) now"
  using assms
  by (auto simp: sweep_def entry_or_new_def map_of_filter_distinct split: option.splits)

lemma stale_window: "is_stale e now \<Longrightarrow> now \<le> n \<Longrightarrow> in_window n (recent_connects e) = []"
  by (fastforce simp: is_stale_def in_window_def list_ex_iff filter_empty_conv)

lemma sweep_keeps:
  assumes "guard_inv g" and "now \<le> n"
  shows "active (entry_or_new k (sweep now (state g))) = active (entry_or_new k (state g))"
    and "in_window n (recent_connects (entry_or_new k (sweep now (state g)))) =
      in_window n (recent_connects (entry_or_new k (state g)))"
proof -
  have d: "distinct (map fst (entries (state g)))" using assms(1) by (simp add: guard_inv_def)
  show "active (entry_or_new k (sweep now (state g))) = active (entry_or_new k (state g))"
    using sweep_entry [OF d, of k now] by (auto simp: is_stale_def new_entry_def)
  show "in_window n (recent_connects (entry_or_new k (sweep now (state g)))) =
      in_window n (recent_connects (entry_or_new k (state g)))"
    using sweep_entry [OF d, of k now] stale_window [OF _ assms(2)]
    by (auto simp: new_entry_def in_window_def)
qed

lemma prune_window: "now \<le> n \<Longrightarrow> in_window n (prune now ts) = in_window n ts"
  by (induction ts) (auto simp: prune_def in_window_def)

lemma length_prune: "length (prune now ts) \<le> length ts"
  by (simp add: prune_def length_dropWhile_le)

lemma put_entry_inv:
  assumes "guard_inv g" and "entry_ok g e"
    and "key \<in> fst ` set (entries (state g)) \<or> length (entries (state g)) < MAX_TRACKED_PREFIXES"
  shows "guard_inv (g\<lparr>state := put_entry key e (state g)\<rparr>)"
proof -
  have "length (AList.update key e (entries (state g))) \<le> MAX_TRACKED_PREFIXES"
    using assms(1,3) length_update_mem [of key "entries (state g)" e]
      length_update_le [of key e "entries (state g)"]
    unfolding guard_inv_def by linarith
  moreover have "entry_ok g v" if "(k, v) \<in> set (AList.update key e (entries (state g)))" for k v
    using alist_update_mem [OF that] assms(1,2) by (auto simp: guard_inv_def)
  ultimately show ?thesis
    using assms(1) by (auto simp: guard_inv_def put_entry_def distinct_update)
qed

text \<open>
  One admission, as the entry of the key after sweep and pruning decides it.
\<close>

lemma try_admit_cases:
  assumes "try_admit g now ip = (b, g')"
  obtains
    (full) "\<not> b" "g' = g\<lparr>state := sweep now (state g)\<rparr>"
      "MAX_TRACKED_PREFIXES \<le> length (entries (sweep now (state g)))"
      "admission_key ip \<notin> fst ` set (entries (sweep now (state g)))"
  | (tracked) e where
      "e = entry_or_new (admission_key ip) (sweep now (state g))"
      "admission_key ip \<in> fst ` set (entries (sweep now (state g))) \<or>
         length (entries (sweep now (state g))) < MAX_TRACKED_PREFIXES"
      "b \<longleftrightarrow> \<not> (0 < max_per_ip g \<and> max_per_ip g \<le> active e) \<and>
         \<not> (0 < max_per_minute g \<and>
            max_per_minute g \<le> of_nat (length (prune now (recent_connects e))))"
      "g' = g\<lparr>state := put_entry (admission_key ip)
         (if b then e\<lparr>active := active e + 1,
                      recent_connects := prune now (recent_connects e) @ [now]\<rparr>
          else e\<lparr>recent_connects := prune now (recent_connects e)\<rparr>) (sweep now (state g))\<rparr>"
proof (cases "MAX_TRACKED_PREFIXES \<le> length (entries (sweep now (state g))) \<and>
    admission_key ip \<notin> fst ` set (entries (sweep now (state g)))")
  case True
  then show thesis using assms by (intro full) (auto simp: try_admit_def Let_def)
next
  case False
  show thesis
    by (rule tracked [OF refl])
       (use assms False in \<open>auto simp: try_admit_def Let_def split: if_splits\<close>)
qed

lemma u32_inc:
  fixes a m :: u32
  assumes "\<not> (0 < m \<and> m \<le> a)" and "0 < m"
  shows "a + 1 \<le> m" and "unat (a + 1) = Suc (unat a)" and "unat a < unat m"
proof -
  show lt: "unat a < unat m" using assms by (simp add: word_le_nat_alt not_le)
  moreover have "unat m < 2 ^ 32" using unsigned_less [of m, where ?'a = nat] by simp
  ultimately show suc: "unat (a + 1) = Suc (unat a)"
    by (simp add: unat_word_ariths)
  show "a + 1 \<le> m" using lt suc by (simp add: word_le_nat_alt)
qed

text \<open>A remembered window that fits the limit is counted exactly, in 32 bits too.\<close>

lemma u32_len_iff:
  fixes m :: u32
  assumes "n \<le> unat m"
  shows "m \<le> of_nat n \<longleftrightarrow> unat m \<le> n"
proof -
  have "n < 2 ^ 32" using assms unsigned_less [of m, where ?'a = nat] by simp
  then have "unat (of_nat n :: u32) = n" by (simp add: unsigned_of_nat take_bit_eq_mod)
  then show ?thesis by (simp add: word_le_nat_alt)
qed

lemma u32_len:
  fixes m :: u32
  shows "\<not> (0 < m \<and> m \<le> of_nat n) \<Longrightarrow> 0 < m \<Longrightarrow> n \<le> unat m \<Longrightarrow> n < unat m"
  using u32_len_iff [of n m] by auto

lemma try_admit_inv:
  assumes "guard_inv g" and "try_admit g now ip = (b, g')"
  shows "guard_inv g'"
  using assms(2)
proof (cases rule: try_admit_cases)
  case full
  then show ?thesis using sweep_inv [OF assms(1)] by simp
next
  case (tracked e)
  let ?g = "g\<lparr>state := sweep now (state g)\<rparr>"
  have inv: "guard_inv ?g" by (rule sweep_inv [OF assms(1)])
  have e: "entry_ok g e"
    using entry_ok_lookup [OF inv, of "admission_key ip"] by (simp add: tracked(1))
  have len: "0 < max_per_minute g \<Longrightarrow>
      length (prune now (recent_connects e)) \<le> unat (max_per_minute g)"
    using e length_prune [of now "recent_connects e"] by (auto simp: entry_ok_def)
  have "entry_ok g (if b then e\<lparr>active := active e + 1,
                      recent_connects := prune now (recent_connects e) @ [now]\<rparr>
          else e\<lparr>recent_connects := prune now (recent_connects e)\<rparr>)"
    using e len u32_inc(1) [of "max_per_ip g" "active e"]
      u32_len [of "max_per_minute g" "length (prune now (recent_connects e))"] tracked(3)
    by (auto simp: entry_ok_def Suc_le_eq)
  then show ?thesis
    using put_entry_inv [OF inv, of _ "admission_key ip"] tracked(2,4) by simp
qed

lemma try_admit_limits:
  assumes "try_admit g now ip = (b, g')"
  shows "max_per_ip g' = max_per_ip g" and "max_per_minute g' = max_per_minute g"
  using assms by (auto elim!: try_admit_cases)

lemma try_admit_used:
  assumes "guard_inv g" and "0 < max_per_ip g" and "try_admit g now ip = (b, g')"
  shows "active_of g' k = active_of g k + (if b \<and> k = admission_key ip then 1 else 0)"
    and "b \<Longrightarrow> active_of g (admission_key ip) < unat (max_per_ip g)"
proof -
  note keep = sweep_keeps(1) [OF assms(1) order_refl]
  show "active_of g' k = active_of g k + (if b \<and> k = admission_key ip then 1 else 0)"
    using assms(3)
  proof (cases rule: try_admit_cases)
    case full
    then show ?thesis by (simp add: active_of_def keep)
  next
    case (tracked e)
    then show ?thesis
      using u32_inc(2) [of "max_per_ip g" "active e"] assms(2)
      by (cases b) (auto simp: active_of_def keep)
  qed
  show "active_of g (admission_key ip) < unat (max_per_ip g)" if b
    using assms(3)
  proof (cases rule: try_admit_cases)
    case full
    then show ?thesis using that by simp
  next
    case (tracked e)
    then show ?thesis
      using u32_inc(3) [of "max_per_ip g" "active e"] assms(2) that
      by (auto simp: active_of_def keep)
  qed
qed

lemma in_window_append [simp]: "in_window n (a @ b) = in_window n a @ in_window n b"
  by (simp add: in_window_def)

lemma try_admit_recent:
  assumes "guard_inv g" and "now \<le> n" and "try_admit g now ip = (b, g')"
  shows "in_window n (recent_of g' k) =
    in_window n (recent_of g k) @ (if b \<and> k = admission_key ip then in_window n [now] else [])"
  using assms(3)
proof (cases rule: try_admit_cases)
  case full
  then show ?thesis using sweep_keeps(2) [OF assms(1,2)] by (simp add: recent_of_def)
next
  case (tracked e)
  then show ?thesis
    using sweep_keeps(2) [OF assms(1,2)] prune_window [OF assms(2)]
    by (cases b) (auto simp: recent_of_def)
qed

lemma try_admit_below_rate:
  assumes "guard_inv g" and "0 < max_per_minute g" and "try_admit g now ip = (True, g')"
  shows "length (in_window now (recent_of g (admission_key ip))) < unat (max_per_minute g)"
  using assms(3)
proof (cases rule: try_admit_cases)
  case (tracked e)
  let ?p = "prune now (recent_connects e)"
  have "entry_ok g e"
    using entry_ok_lookup [OF sweep_inv [OF assms(1), of now], of "admission_key ip"]
    by (simp add: tracked(1))
  then have "length ?p \<le> unat (max_per_minute g)"
    using length_prune [of now "recent_connects e"] assms(2) by (auto simp: entry_ok_def)
  then have "length ?p < unat (max_per_minute g)"
    using u32_len [of "max_per_minute g" "length ?p"] tracked(3) assms(2) by auto
  moreover have "in_window now ?p = in_window now (recent_of g (admission_key ip))"
    using prune_window [of now now "recent_connects e"] sweep_keeps(2) [OF assms(1) order_refl]
    by (simp add: tracked(1) recent_of_def)
  then have "length (in_window now (recent_of g (admission_key ip))) \<le> length ?p"
    by (metis in_window_def length_filter_le)
  ultimately show ?thesis by simp
qed simp

lemma unat_saturating_sub1: "unat (saturating_sub1 w) = unat w - 1"
  by (auto simp: saturating_sub1_def unat_minus_one)

lemma release_cases:
  obtains
    (absent) "map_of (entries (state g)) (admission_key ip) = None" "release g ip = g"
  | (dropped) e where "map_of (entries (state g)) (admission_key ip) = Some e"
      "saturating_sub1 (active e) = 0" "recent_connects e = []"
      "release g ip = g\<lparr>state := (state g)\<lparr>entries := AList.delete (admission_key ip) (entries (state g))\<rparr>\<rparr>"
  | (kept) e where "map_of (entries (state g)) (admission_key ip) = Some e"
      "release g ip = g\<lparr>state := put_entry (admission_key ip)
         (e\<lparr>active := saturating_sub1 (active e)\<rparr>) (state g)\<rparr>"
proof (cases "map_of (entries (state g)) (admission_key ip)")
  case None
  then show thesis by (intro absent) (simp_all add: release_def)
next
  case (Some e)
  show thesis
  proof (cases "saturating_sub1 (active e) = 0 \<and> recent_connects e = []")
    case True
    with Some show thesis by (intro dropped [of e]) (simp_all add: release_def Let_def)
  next
    case False
    with Some show thesis by (intro kept [of e]) (auto simp: release_def Let_def)
  qed
qed

lemma release_inv:
  assumes "guard_inv g"
  shows "guard_inv (release g ip)"
proof (cases rule: release_cases [of g ip])
  case absent
  then show ?thesis using assms by simp
next
  case (dropped e)
  then show ?thesis
    using assms
    by (auto simp: guard_inv_def AList.delete_eq distinct_filter_fst intro: le_trans [OF length_filter_le])
next
  case (kept e)
  have "entry_ok g e"
    using kept(1) assms by (auto simp: guard_inv_def dest: map_of_SomeD)
  then have "entry_ok g (e\<lparr>active := saturating_sub1 (active e)\<rparr>)"
    by (auto simp: entry_ok_def word_le_nat_alt unat_saturating_sub1)
  then show ?thesis
    using put_entry_inv [OF assms] map_of_Some_fst [OF kept(1)] kept(2) by auto
qed

lemma release_entry:
  "active_of (release g ip) k = (if k = admission_key ip then active_of g k - 1 else active_of g k)"
  "recent_of (release g ip) k = recent_of g k"
proof -
  show "active_of (release g ip) k =
      (if k = admission_key ip then active_of g k - 1 else active_of g k)"
  proof (cases rule: release_cases [of g ip])
    case (dropped e)
    have "unat (active e) - 1 = 0"
      using dropped(2) unat_saturating_sub1 [of "active e"] by simp
    then show ?thesis
      using dropped by (simp add: active_of_def entry_or_new_def new_entry_def)
  qed (simp_all add: active_of_def entry_or_new_def new_entry_def put_entry_def
      unat_saturating_sub1)
  show "recent_of (release g ip) k = recent_of g k"
    by (cases rule: release_cases [of g ip])
       (simp_all add: recent_of_def entry_or_new_def new_entry_def put_entry_def)
qed

lemma release_limits:
  "max_per_ip (release g ip) = max_per_ip g" "max_per_minute (release g ip) = max_per_minute g"
  by (cases rule: release_cases [of g ip]; simp)+

lemma unat_pos: "0 < unat w \<longleftrightarrow> 0 < (w :: u32)"
  by (simp add: word_less_nat_alt)

interpretation ip_guard: rate_control try_admit release guard_inv
  "\<lambda>g. unat (max_per_ip g)" active_of "\<lambda>g. unat (max_per_minute g)" recent_of
proof (unfold_locales, unfold unat_pos)
  fix g g' :: IpConnectionGuard and now n :: nat and ip k :: IpAddr and b
  show "active_of g' k = active_of g k + (if b \<and> k = admission_key ip then 1 else 0)"
    if "guard_inv g" "0 < max_per_ip g" "try_admit g now ip = (b, g')"
    using that by (rule try_admit_used(1))
  show "in_window n (recent_of g' k) = in_window n (recent_of g k) @
      (if b \<and> k = admission_key ip then in_window n [now] else [])"
    if "guard_inv g" "now \<le> n" "try_admit g now ip = (b, g')"
    using that by (rule try_admit_recent)
qed (auto simp: release_limits release_entry dest: try_admit_limits
      intro: try_admit_inv try_admit_used(2) release_inv try_admit_below_rate)

section \<open>Properties\<close>

definition admission_run :: "u32 \<Rightarrow> u32 \<Rightarrow> nat \<Rightarrow> admission_op list \<Rightarrow> IpConnectionGuard admission_world" where
  "admission_run per_ip per_minute t0 ops =
     foldl (admission_step try_admit release)
       (start_world (IpConnectionGuard_new per_ip per_minute t0) t0) ops"

lemma new_guard_inv: "guard_inv (IpConnectionGuard_new per_ip per_minute t0)"
  by (simp add: guard_inv_def IpConnectionGuard_new_def)

lemma new_guard_simps [simp]:
  "max_per_ip (IpConnectionGuard_new per_ip per_minute t0) = per_ip"
  "max_per_minute (IpConnectionGuard_new per_ip per_minute t0) = per_minute"
  "state (IpConnectionGuard_new per_ip per_minute t0) = \<lparr>entries = [], last_sweep = t0\<rparr>"
  by (simp_all add: IpConnectionGuard_new_def)

lemmas admission_eval =
  admission_run_def start_world_def try_admit_def release_def sweep_def entry_or_new_def new_entry_def
  put_entry_def prune_def is_stale_def MAX_TRACKED_PREFIXES_def RATE_WINDOW_def sessions_of_def
  admitted_within_def Let_def

lemma start_tracks: "ip_guard.tracks (start_world (IpConnectionGuard_new per_ip per_minute t0) t0)"
  by (simp add: ip_guard.tracks_def start_world_def new_guard_inv sessions_of_def active_of_def
      entry_or_new_def new_entry_def)

lemma start_logged: "ip_guard.logged (start_world (IpConnectionGuard_new per_ip per_minute t0) t0)"
  by (simp add: ip_guard.logged_def start_world_def new_guard_inv recent_of_def entry_or_new_def
      new_entry_def ip_guard.times_of_def admitted_within_def)

lemmas admission_run_tracks =
  ip_guard.tracks_run [OF start_tracks, folded admission_run_def]

lemmas admission_run_logged =
  ip_guard.logged_run [OF start_logged, folded admission_run_def]

text \<open>
  Claim C8: with a per-address limit set, whatever connects and disconnects happen, no prefix ever
  has more live sessions than the limit, and the guard's counter is exactly the number of live
  sessions of the prefix: no slot is leaked and none is given out twice.
\<close>

theorem concurrent_sessions_bounded:
  assumes "0 < per_ip"
  shows "sessions_of (admission_run per_ip per_minute t0 ops) k \<le> unat per_ip \<and>
    active_of (guard (admission_run per_ip per_minute t0 ops)) k =
      sessions_of (admission_run per_ip per_minute t0 ops) k"
  using admission_run_tracks [of per_ip per_minute t0 ops] assms
  by (auto simp: ip_guard.tracks_def start_world_def unat_pos word_unat_eq_iff [symmetric])

theorem concurrent_sessions_bounded_witness:
  "sessions_of (admission_run 1 0 0 [Connect_op 5 (V4 192 0 2 1), Connect_op 5 (V4 192 0 2 1)])
     (V4 192 0 2 1) \<le> unat (1 :: u32) \<and>
   sessions_of (admission_run 1 0 0 [Connect_op 5 (V4 192 0 2 1), Connect_op 5 (V4 192 0 2 1)])
     (V4 192 0 2 1) = 1"
proof
  show "sessions_of (admission_run 1 0 0
      [Connect_op 5 (V4 192 0 2 1), Connect_op 5 (V4 192 0 2 1)]) (V4 192 0 2 1) \<le> unat (1 :: u32)"
    using concurrent_sessions_bounded
      [of 1 0 0 "[Connect_op 5 (V4 192 0 2 1), Connect_op 5 (V4 192 0 2 1)]" "V4 192 0 2 1"]
    by simp
qed (simp add: admission_eval)

text \<open>
  Claim C9: with a rate limit set, in every run and for every prefix, no closed 60-second window
  holds more admissions than the limit: sweeping and pruning the table forget nothing that still
  counts, and the 32-bit length comparison never wraps.
\<close>

theorem connect_rate_bounded:
  assumes "0 < per_minute"
  shows "admitted_within (admitted (admission_run per_ip per_minute t0 ops)) k t \<le> unat per_minute"
  using admission_run_logged [of per_ip per_minute t0 ops] assms
  by (auto simp: ip_guard.logged_def start_world_def unat_pos word_unat_eq_iff [symmetric])

theorem connect_rate_bounded_witness:
  "admitted_within (admitted (admission_run 0 1 0
     [Connect_op 5 (V6 1 2 3 4 5 6 7 8), Connect_op 9 (V6 1 2 3 4 8 8 8 8)])) (V6 1 2 3 4 0 0 0 0) 0
     \<le> unat (1 :: u32) \<and>
   admitted (admission_run 0 1 0
     [Connect_op 5 (V6 1 2 3 4 5 6 7 8), Connect_op 9 (V6 1 2 3 4 8 8 8 8)])
     = [(V6 1 2 3 4 5 6 7 8, 5)]"
proof
  show "admitted_within (admitted (admission_run 0 1 0
     [Connect_op 5 (V6 1 2 3 4 5 6 7 8), Connect_op 9 (V6 1 2 3 4 8 8 8 8)])) (V6 1 2 3 4 0 0 0 0) 0
     \<le> unat (1 :: u32)"
    by (rule connect_rate_bounded) simp
qed (simp add: admission_eval)

text \<open>
  The admission table never tracks more than 65536 prefixes, each at most once, in any
  run: a flood of rotating sources cannot grow it.
\<close>

theorem admission_table_bounded:
  "length (entries (state (guard (admission_run per_ip per_minute t0 ops)))) \<le> 65536 \<and>
   distinct (map fst (entries (state (guard (admission_run per_ip per_minute t0 ops)))))"
  using admission_run_tracks [of per_ip per_minute t0 ops]
  by (simp add: ip_guard.tracks_def guard_inv_def MAX_TRACKED_PREFIXES_def)

text \<open>
  In a guard that satisfies its invariant, a connection is admitted exactly when its
  prefix is tracked after the sweep or there is room for it, and neither the prefix's active
  count nor the number of its remembered connects that pruning keeps has reached its (non-zero)
  limit. Refusals happen for no other reason.
\<close>

theorem try_admit_iff:
  assumes "guard_inv g"
  shows "fst (try_admit g now ip) \<longleftrightarrow>
    (admission_key ip \<in> fst ` set (entries (sweep now (state g))) \<or>
     length (entries (sweep now (state g))) < MAX_TRACKED_PREFIXES) \<and>
    (max_per_ip g = 0 \<or> active_of g (admission_key ip) < unat (max_per_ip g)) \<and>
    (max_per_minute g = 0 \<or>
     length (prune now (recent_connects (entry_or_new (admission_key ip) (sweep now (state g)))))
       < unat (max_per_minute g))"
proof -
  obtain b g' where ad: "try_admit g now ip = (b, g')" by fastforce
  from ad show ?thesis
  proof (cases rule: try_admit_cases)
    case full
    then show ?thesis using ad by simp
  next
    case (tracked e)
    let ?p = "prune now (recent_connects e)"
    have "entry_ok g e"
      using entry_ok_lookup [OF sweep_inv [OF assms, of now], of "admission_key ip"]
      by (simp add: tracked(1))
    then have len: "0 < max_per_minute g \<Longrightarrow> length ?p \<le> unat (max_per_minute g)"
      using length_prune [of now "recent_connects e"] by (auto simp: entry_ok_def)
    then have rate: "\<not> (0 < max_per_minute g \<and> max_per_minute g \<le> of_nat (length ?p)) \<longleftrightarrow>
        max_per_minute g = 0 \<or> length ?p < unat (max_per_minute g)"
      using u32_len_iff [of "length ?p" "max_per_minute g"] word_gt_0 [of "max_per_minute g"] by auto
    have "active_of g (admission_key ip) = unat (active e)"
      using sweep_keeps(1) [OF assms order_refl] by (simp add: tracked(1) active_of_def)
    then have conc: "\<not> (0 < max_per_ip g \<and> max_per_ip g \<le> active e) \<longleftrightarrow>
        max_per_ip g = 0 \<or> active_of g (admission_key ip) < unat (max_per_ip g)"
      by (auto simp: word_le_nat_alt word_gt_0)
    have "fst (try_admit g now ip) = b" using ad by simp
    then show ?thesis
      using tracked(2) unfolding tracked(3) rate conc by (simp add: tracked(1))
  qed
qed

theorem try_admit_iff_witness:
  "guard_inv (IpConnectionGuard_new 1 1 0) \<and>
   fst (try_admit (IpConnectionGuard_new 1 1 0) 7 (V4 192 0 2 1))"
  using try_admit_iff [OF new_guard_inv [of 1 1 0], of 7 "V4 192 0 2 1"]
  by (simp add: new_guard_inv active_of_def admission_eval)

text \<open>
  Two IPv6 sources share one budget exactly when they lie in the same /64; IPv4 sources
  share one only when they are equal.
\<close>

theorem admission_key_groups:
  "(admission_key (V6 a0 a1 a2 a3 a4 a5 a6 a7) = admission_key (V6 b0 b1 b2 b3 b4 b5 b6 b7) \<longleftrightarrow>
     seg_val [a0, a1, a2, a3, a4, a5, a6, a7] div 2 ^ 64 =
     seg_val [b0, b1, b2, b3, b4, b5, b6, b7] div 2 ^ 64) \<and>
   inj_on admission_key {V4 a b c d |a b c d. True} \<and>
   admission_key (V4 a b c d) \<noteq> admission_key (V6 a0 a1 a2 a3 a4 a5 a6 a7)"
proof -
  have d: "seg_val [x0, x1, x2, x3, x4, x5, x6, x7] div 2 ^ 64 = seg_val [x0, x1, x2, x3]"
    for x0 x1 x2 x3 x4 x5 x6 x7 :: u16
    using seg_val_div [of "[x0, x1, x2, x3]" "[x4, x5, x6, x7]"] by simp
  show ?thesis
    unfolding d by (simp add: seg_val_inj) (auto simp: inj_on_def)
qed

end
