(* ===== verification/Session.thy ===== *)
theory Session
  imports Shell Payload_Fetch Collector Vmm GeoIp Admission
begin

text \<open>
  The SSH session (\<^verbatim>\<open>ActiveSession\<close>, \<^verbatim>\<open>SessionHandler\<close> and \<^verbatim>\<open>AegisServer\<close> in
  \<^verbatim>\<open>crates/aegis-gateway/src/handler.rs\<close>): the keyboard state machine that turns terminal bytes into
  command lines, the commands it runs, the events and recordings it leaves, the end of a session,
  and the admission of a new client.

  What belongs to other parties is gathered in \<open>session_env\<close>: the configuration, the regex engine, URL
  parsing, name resolution, HTTP, SHA-256, JSON, the kernel, the clock during a call, whether the
  collector is still receiving, whether the \<open>i\<close>-th write to the client's channel succeeds, and whether a
  fetch finishes within its seven seconds (one that does not still completes in its own thread).
  The world a session acts on is the host disk, the emitted events and what was sent to the client.
\<close>

section \<open>State\<close>

definition MAX_COMMAND_LEN :: nat where
  "MAX_COMMAND_LEN = 8 * 1024"

definition MAX_ESCAPE_SEQ_LEN :: nat where
  "MAX_ESCAPE_SEQ_LEN = 16"

definition RE_DOWNLOAD :: string where
  "RE_DOWNLOAD = ''(?:wget|curl|tftp)'' @ [bsl] @ ''s''"

definition RE_CMD_URL :: string where
  "RE_CMD_URL = ''https?://[^'' @ [bsl] @ ''s;&|<>'' @ [squote] @ '']+''"

definition RE_PIPE_SHELL :: string where
  "RE_PIPE_SHELL = ''(?:wget|curl).+'' @ [bsl] @ ''|'' @ [bsl] @ ''s*(?:sh|bash|python3?|perl)''"

record session_env =
  env_config :: AegisConfig
  env_engine :: ForensicsEngine
  env_kernel :: kernel
  env_sha :: sha256_fn
  env_find_iter :: find_iter_fn
  env_is_match :: "string \<Rightarrow> string \<Rightarrow> bool"
  env_url_parse :: "string \<Rightarrow> Url option"
  env_dns :: resolver
  env_http :: http_client
  env_fetch_in_time :: bool
  env_rec_json :: record_json_fn
  env_geoip :: GeoIpLookup
  env_rx_open :: bool
  env_peer_ok :: "nat \<Rightarrow> bool"
  env_date :: string
  env_now :: DateTime
  env_mono :: nat

record ActiveSession =
  as_meta :: SessionMeta
  session_start :: nat
  as_vfs :: VirtualFileSystem
  cmd_buffer :: string
  escape_seq :: bool
  escape_len :: nat
  last_byte :: char
  fetch_count :: u32
  as_recorder :: SessionRecorder
  as_sandbox :: "SandboxHandle option"
  is_ended :: bool

record world =
  wdisk :: disk
  wevents :: "TelemetryEvent list"
  wterm :: string
  wwrites :: nat
  wclosed :: bool

type_synonym session_state = "ActiveSession \<times> world"

text \<open>How a handler step ends: go on, return \<^verbatim>\<open>Ok\<close> early, or fail with a channel error.\<close>

datatype flow = Continue | Return | Fail

section \<open>Effects\<close>

definition emit :: "session_env \<Rightarrow> TelemetryEvent \<Rightarrow> session_state \<Rightarrow> session_state" where
  "emit env e s = (case s of (a, w) \<Rightarrow> (a, w\<lparr>wevents := event_send (env_rx_open env) (wevents w) e\<rparr>))"

definition chan_write :: "session_env \<Rightarrow> string \<Rightarrow> session_state \<Rightarrow> bool \<times> session_state" where
  "chan_write env bytes s =
     (case s of (a, w) \<Rightarrow>
        if env_peer_ok env (wwrites w)
        then (True, (a, w\<lparr>wterm := wterm w @ bytes, wwrites := Suc (wwrites w)\<rparr>))
        else (False, (a, w\<lparr>wwrites := Suc (wwrites w)\<rparr>)))"

definition chan_close :: "session_env \<Rightarrow> session_state \<Rightarrow> bool \<times> session_state" where
  "chan_close env s =
     (case s of (a, w) \<Rightarrow>
        if env_peer_ok env (wwrites w) then (True, (a, w\<lparr>wclosed := True, wwrites := Suc (wwrites w)\<rparr>))
        else (False, (a, w\<lparr>wwrites := Suc (wwrites w)\<rparr>)))"

definition rec_out :: "session_env \<Rightarrow> string \<Rightarrow> session_state \<Rightarrow> session_state" where
  "rec_out env data s =
     (case s of (a, w) \<Rightarrow>
        case record_output (env_rec_json env) (env_mono env) data (as_recorder a, wdisk w) of (r, d) \<Rightarrow>
          (a\<lparr>as_recorder := r\<rparr>, w\<lparr>wdisk := d\<rparr>))"

definition rec_in :: "session_env \<Rightarrow> string \<Rightarrow> session_state \<Rightarrow> session_state" where
  "rec_in env data s =
     (case s of (a, w) \<Rightarrow>
        case record_input (env_rec_json env) (env_mono env) data (as_recorder a, wdisk w) of (r, d) \<Rightarrow>
          (a\<lparr>as_recorder := r\<rparr>, w\<lparr>wdisk := d\<rparr>))"

definition rec_flush_st :: "session_state \<Rightarrow> session_state" where
  "rec_flush_st s =
     (case s of (a, w) \<Rightarrow>
        case rec_flush (as_recorder a) (wdisk w) of (r, d) \<Rightarrow> (a\<lparr>as_recorder := r\<rparr>, w\<lparr>wdisk := d\<rparr>))"

definition send_output :: "session_env \<Rightarrow> string \<Rightarrow> session_state \<Rightarrow> bool \<times> session_state" where
  "send_output env data s =
     (case chan_write env data s of (ok, s') \<Rightarrow> if ok then (True, rec_out env data s') else (False, s'))"

text \<open>The \<^verbatim>\<open>?\<close> operator.\<close>

definition or_fail :: "bool \<times> session_state \<Rightarrow> (session_state \<Rightarrow> flow \<times> session_state) \<Rightarrow> flow \<times> session_state" where
  "or_fail r k = (case r of (ok, s) \<Rightarrow> if ok then k s else (Fail, s))"

definition get_prompt :: "VirtualFileSystem \<Rightarrow> string" where
  "get_prompt v =
     (let cp = current_path v;
          dir = (if cp = [''root''] then ''~''
                 else if cp \<noteq> [] \<and> hd cp = ''root'' then ''~/'' @ join ''/'' (tl cp)
                 else if cp = [] then ''/''
                 else ''/'' @ join ''/'' cp)
      in ''root@ubuntu-server-01:'' @ dir @ ''# '')"

definition send_prompt :: "session_env \<Rightarrow> session_state \<Rightarrow> flow \<times> session_state" where
  "send_prompt env s = or_fail (send_output env (get_prompt (as_vfs (fst s))) s) (\<lambda>s. (Continue, s))"

section \<open>The end of a session\<close>

definition elapsed_secs :: "nat \<Rightarrow> nat \<Rightarrow> rat" where
  "elapsed_secs start now = of_nat (now - start) / 1000000000"

definition end_event :: "session_env \<Rightarrow> ActiveSession \<Rightarrow> TelemetryEvent" where
  "end_event env a =
     SessionEnd \<lparr>se_timestamp = env_now env, se_session_id = session_id (as_meta a), se_ip = client_ip (as_meta a),
                 se_duration_secs = elapsed_secs (session_start a) (env_mono env)\<rparr>"

definition finish_env ::
  "session_env \<Rightarrow> SessionMeta \<Rightarrow> SandboxHandle \<Rightarrow> capture_state \<Rightarrow> capture_state" where
  "finish_env env meta sb s =
     finish_sandbox (env_kernel env) (env_sha env) (env_find_iter env) (env_rx_open env) (env_engine env)
       (env_now env) meta sb s"

definition teardown_session :: "session_env \<Rightarrow> session_state \<Rightarrow> session_state" where
  "teardown_session env s =
     (case s of (a, w) \<Rightarrow>
        if is_ended a then s
        else
          case rec_flush_st (emit env (end_event env a) (a\<lparr>is_ended := True\<rparr>, w)) of (a1, w1) \<Rightarrow>
            (case as_sandbox a1 of
               None \<Rightarrow> (a1, w1)
             | Some sb \<Rightarrow>
                 (case finish_env env (as_meta a1) sb (wdisk w1, wevents w1) of (d2, evs2) \<Rightarrow>
                    (a1\<lparr>as_sandbox := None\<rparr>, w1\<lparr>wdisk := d2, wevents := evs2\<rparr>))))"

section \<open>Running a command\<close>

definition fetched_event ::
  "session_env \<Rightarrow> SessionMeta \<Rightarrow> string \<Rightarrow> payload_info \<Rightarrow> TelemetryEvent" where
  "fetched_event env meta url info =
     (case info of (sha, sz, qpath, iocs) \<Rightarrow>
        PayloadCaptured
          \<lparr>pc_timestamp = env_now env, pc_session_id = session_id meta, pc_ip = client_ip meta,
           pc_source_url = Some url, pc_sha256 = sha, pc_size_bytes = sz, pc_quarantine_path = qpath,
           pc_file_type = Unknown, pc_iocs = iocs\<rparr>)"

definition install_text :: string where
  "install_text =
     ''[*] Attempting install...'' @ crlf @ ''bash: ./setup.sh: Permission denied'' @ crlf"

definition fetch_url :: "session_env \<Rightarrow> string \<Rightarrow> string \<Rightarrow> session_state \<Rightarrow> string \<times> session_state" where
  "fetch_url env cmd url s =
     (case s of (a, w) \<Rightarrow>
        case fetch_payload_blocking (env_url_parse env) (env_dns env) (env_http env) (env_sha env) (env_find_iter env)
               (wdisk w) url (quarantine_dir (forensics_cfg (env_config env))) (mount_root (as_vfs a))
               (max_payload_bytes (forensics_cfg (env_config env))) of (progress, info, d) \<Rightarrow>
          let s1 = (a, w\<lparr>wdisk := d\<rparr>)
          in if env_fetch_in_time env
             then (progress @ (if env_is_match env RE_PIPE_SHELL cmd then install_text else ''''),
                   case info of None \<Rightarrow> s1 | Some i \<Rightarrow> emit env (fetched_event env (as_meta a) url i) s1)
             else (fake_wget_progress url 64, s1))"

definition run_command :: "session_env \<Rightarrow> string \<Rightarrow> session_state \<Rightarrow> (string \<times> session_state) option" where
  "run_command env cmd s =
     (case s of (a, w) \<Rightarrow>
        let cfg = forensics_cfg (env_config env)
        in if env_is_match env RE_DOWNLOAD cmd
           then let urls = env_find_iter env RE_CMD_URL cmd
                in if urls = [] then Some (first_word ''wget'' cmd @ '': missing URL'' @ crlf, s)
                   else if \<not> fetch_payloads cfg \<or> max_fetches_per_session cfg \<le> fetch_count a
                   then Some (fake_wget_progress (hd urls) 64, s)
                   else Some (fetch_url env cmd (hd urls) (a\<lparr>fetch_count := fetch_count a + 1\<rparr>, w))
           else case dispatch (env_date env) (as_vfs a) (wdisk w) cmd of
                  None \<Rightarrow> None
                | Some (out, v, d) \<Rightarrow> Some (out, (a\<lparr>as_vfs := v\<rparr>, w\<lparr>wdisk := d\<rparr>)))"

definition command_event :: "session_env \<Rightarrow> ActiveSession \<Rightarrow> string \<Rightarrow> TelemetryEvent" where
  "command_event env a cmd =
     CommandRun \<lparr>cr_timestamp = env_now env, cr_session_id = session_id (as_meta a), cr_ip = client_ip (as_meta a),
                 cr_command = cmd\<rparr>"

definition logout :: "session_env \<Rightarrow> flow \<Rightarrow> session_state \<Rightarrow> flow \<times> session_state" where
  "logout env next s =
     or_fail (send_output env (''logout'' @ crlf) s)
       (\<lambda>s. or_fail (chan_close env s) (\<lambda>s. (next, teardown_session env s)))"

definition run_line :: "session_env \<Rightarrow> string \<Rightarrow> session_state \<Rightarrow> flow \<times> session_state" where
  "run_line env cmd s0 =
     (let s = emit env (command_event env (fst s0) cmd) (rec_in env (cmd @ nl) s0)
      in if trim cmd = ''exit'' \<or> trim cmd = ''logout'' then logout env Return s
         else case run_command env cmd s of
           None \<Rightarrow> (Fail, s)
         | Some (response, s1) \<Rightarrow> or_fail (send_output env response s1) (send_prompt env))"

section \<open>The keyboard\<close>

definition set_last :: "char \<Rightarrow> session_state \<Rightarrow> session_state" where
  "set_last byte s = (case s of (a, w) \<Rightarrow> (a\<lparr>last_byte := byte\<rparr>, w))"

definition set_buffer :: "string \<Rightarrow> session_state \<Rightarrow> session_state" where
  "set_buffer b s = (case s of (a, w) \<Rightarrow> (a\<lparr>cmd_buffer := b\<rparr>, w))"

definition escape_byte :: "char \<Rightarrow> session_state \<Rightarrow> session_state" where
  "escape_byte byte s =
     (case s of (a, w) \<Rightarrow>
        let n = escape_len a + 1
        in (a\<lparr>escape_len := n,
              escape_seq := \<not> (is_ascii_alphabetic byte \<or> byte = CHR ''~'' \<or> MAX_ESCAPE_SEQ_LEN \<le> n),
              last_byte := byte\<rparr>, w))"

definition enter_key :: "session_env \<Rightarrow> char \<Rightarrow> session_state \<Rightarrow> flow \<times> session_state" where
  "enter_key env byte s0 =
     (if byte = lf \<and> last_byte (fst s0) = cr then (Continue, set_last byte s0)
      else or_fail (send_output env crlf (set_last byte s0))
        (\<lambda>s. let cmd = trim (cmd_buffer (fst s)); s1 = set_buffer '''' s
             in if cmd = '''' then send_prompt env s1 else run_line env cmd s1))"

definition backspace :: string where
  "backspace = [CHR 0x08, CHR '' '', CHR 0x08]"

definition byte_step :: "session_env \<Rightarrow> session_state \<Rightarrow> char \<Rightarrow> flow \<times> session_state" where
  "byte_step env s byte =
     (if byte = esc
      then (case s of (a, w) \<Rightarrow> (Continue, (a\<lparr>escape_seq := True, escape_len := 0, last_byte := byte\<rparr>, w)))
      else if escape_seq (fst s) then (Continue, escape_byte byte s)
      else if byte = cr \<or> byte = lf then enter_key env byte s
      else
        let s1 = set_last byte s; buf = cmd_buffer (fst s)
        in if byte = CHR 0x7F \<or> byte = CHR 0x08
           then (if buf = '''' then (Continue, s1)
                 else or_fail (send_output env backspace (set_buffer (butlast buf) s1)) (\<lambda>s. (Continue, s)))
           else if byte = CHR 0x03
           then or_fail (send_output env (''^C'' @ crlf) (set_buffer '''' s1)) (send_prompt env)
           else if byte = CHR 0x04
           then (if buf = '''' then logout env Continue s1 else (Continue, s1))
           else if is_ascii_graphic byte \<or> byte = CHR '' ''
           then (if MAX_COMMAND_LEN \<le> length buf then (Continue, s1)
                 else or_fail (send_output env [byte] (set_buffer (buf @ [byte]) s1)) (\<lambda>s. (Continue, s)))
           else (Continue, s1))"

text \<open>The \<^verbatim>\<open>data\<close> callback: \<^const>\<open>False\<close> is a channel error.\<close>

fun data_loop :: "session_env \<Rightarrow> session_state \<Rightarrow> string \<Rightarrow> bool \<times> session_state" where
  "data_loop env s [] = (True, rec_flush_st s)"
| "data_loop env s (b # bs) =
     (case byte_step env s b of
        (Continue, s') \<Rightarrow> data_loop env s' bs
      | (Return, s') \<Rightarrow> (True, s')
      | (Fail, s') \<Rightarrow> (False, s'))"

section \<open>The other callbacks\<close>

datatype auth_reply = Accept | Reject

definition credential_event ::
  "session_env \<Rightarrow> ActiveSession \<Rightarrow> string \<Rightarrow> string \<Rightarrow> AuthMethod \<Rightarrow> TelemetryEvent" where
  "credential_event env a user secret m =
     CredentialHarvest
       \<lparr>ch_timestamp = env_now env, ch_session_id = session_id (as_meta a), ch_ip = client_ip (as_meta a),
        ch_username = truncate_credential user, ch_password = Some (truncate_credential secret),
        ch_auth_method = m\<rparr>"

definition auth_password :: "session_env \<Rightarrow> string \<Rightarrow> string \<Rightarrow> session_state \<Rightarrow> auth_reply \<times> session_state" where
  "auth_password env user password s =
     (Accept, emit env (credential_event env (fst s) user password Password) s)"

definition auth_publickey ::
  "session_env \<Rightarrow> string \<Rightarrow> string \<Rightarrow> string \<Rightarrow> session_state \<Rightarrow> auth_reply \<times> session_state" where
  "auth_publickey env user algorithm fingerprint s =
     (Accept, emit env (credential_event env (fst s) user (''pubkey:'' @ algorithm @ '' '' @ fingerprint) PublicKey) s)"

definition login_banner :: string where
  "login_banner =
     crlf @ ''Linux ubuntu-server-01 5.15.0-72-generic #79-Ubuntu SMP x86_64'' @ crlf
     @ ''Welcome to Ubuntu 22.04.2 LTS (GNU/Linux 5.15.0-72-generic x86_64)'' @ crlf @ crlf
     @ '' * Documentation:  https://help.ubuntu.com'' @ crlf
     @ '' * Management:     https://landscape.canonical.com'' @ crlf
     @ '' * Support:        https://ubuntu.com/advantage'' @ crlf @ crlf
     @ ''Last login: Mon Aug 26 22:14:07 2026 from 192.0.2.100'' @ crlf @ crlf"

definition start_event :: "session_env \<Rightarrow> ActiveSession \<Rightarrow> TelemetryEvent" where
  "start_event env a =
     SessionStart \<lparr>ss_timestamp = env_now env, ss_session_id = session_id (as_meta a), ss_ip = client_ip (as_meta a),
                   ss_port = client_port (as_meta a), ss_geo = geoip_lookup (env_geoip env) (client_ip (as_meta a))\<rparr>"

definition shell_request :: "session_env \<Rightarrow> session_state \<Rightarrow> flow \<times> session_state" where
  "shell_request env s =
     or_fail (send_output env login_banner (emit env (start_event env (fst s)) s)) (send_prompt env)"

definition channel_close :: "session_env \<Rightarrow> session_state \<Rightarrow> session_state" where
  "channel_close env s = teardown_session env s"

text \<open>Every channel is accepted, and a terminal request changes nothing.\<close>

definition channel_open_session :: "session_state \<Rightarrow> bool \<times> session_state" where
  "channel_open_session s = (True, s)"

definition pty_request :: "session_state \<Rightarrow> bool \<times> session_state" where
  "pty_request s = (True, s)"

section \<open>The handler facade\<close>

datatype SessionHandler = Active ActiveSession | Rejected

text \<open>
  Every callback of a rejected connection refuses or does nothing; those of an active one are the
  session's.
\<close>

definition on_active :: "(session_state \<Rightarrow> 'r \<times> session_state) \<Rightarrow> 'r \<Rightarrow> SessionHandler \<times> world \<Rightarrow> 'r \<times> SessionHandler \<times> world" where
  "on_active f refused hw =
     (case hw of (h, w) \<Rightarrow>
        case h of
          Active a \<Rightarrow> (case f (a, w) of (r, a', w') \<Rightarrow> (r, Active a', w'))
        | Rejected \<Rightarrow> (refused, Rejected, w))"

definition handler_auth_password where
  "handler_auth_password env user password = on_active (auth_password env user password) Reject"

definition handler_auth_publickey where
  "handler_auth_publickey env user algorithm fingerprint =
     on_active (auth_publickey env user algorithm fingerprint) Reject"

definition handler_channel_open_session :: "SessionHandler \<times> world \<Rightarrow> bool \<times> SessionHandler \<times> world" where
  "handler_channel_open_session = on_active channel_open_session False"

definition handler_pty_request :: "SessionHandler \<times> world \<Rightarrow> bool \<times> SessionHandler \<times> world" where
  "handler_pty_request = on_active pty_request True"

definition handler_shell_request where
  "handler_shell_request env = on_active (\<lambda>s. case shell_request env s of (f, s') \<Rightarrow> (f \<noteq> Fail, s')) True"

definition handler_data where
  "handler_data env bytes = on_active (\<lambda>s. data_loop env s bytes) True"

definition handler_channel_close where
  "handler_channel_close env = on_active (\<lambda>s. (True, channel_close env s)) True"

section \<open>The server\<close>

text \<open>The semaphore is the number of permits left.\<close>

record AegisServer =
  ip_guard :: IpConnectionGuard
  session_semaphore :: nat

definition server_new :: "AegisConfig \<Rightarrow> nat \<Rightarrow> AegisServer" where
  "server_new cfg now =
     \<lparr>ip_guard = IpConnectionGuard_new (max_sessions_per_ip (gateway cfg)) (max_connects_per_min_per_ip (gateway cfg)) now,
      session_semaphore = max (max_sessions (gateway cfg)) 1\<rparr>"

record admission_env =
  adm_canonicalize :: "path \<Rightarrow> path option"
  adm_header_json :: "nat \<Rightarrow> string \<Rightarrow> string"
  adm_unix_ts :: nat
  adm_uuid :: string

definition new_client ::
  "session_env \<Rightarrow> admission_env \<Rightarrow> AegisServer \<Rightarrow> disk \<Rightarrow> SocketAddr option \<Rightarrow>
   SessionHandler \<times> AegisServer \<times> disk" where
  "new_client env adm srv d peer_addr =
     (let cfg = env_config env;
          addr = (case peer_addr of Some x \<Rightarrow> x | None \<Rightarrow> \<lparr>sa_ip = UNSPECIFIED, sa_port = 0\<rparr>);
          ip = sa_ip addr
      in case try_admit (ip_guard srv) (env_mono env) ip of
           (False, g) \<Rightarrow> (Rejected, srv\<lparr>ip_guard := g\<rparr>, d)
         | (True, g) \<Rightarrow>
             if session_semaphore srv = 0 then (Rejected, srv\<lparr>ip_guard := release g ip\<rparr>, d)
             else
               let meta = SessionMeta_new (adm_uuid adm) (env_now env) ip (of_nat (sa_port addr));
                   cast_path = sessions_dir (forensics_cfg cfg) @ [session_id meta @ ''.cast'']
               in case recorder_open (adm_header_json adm) (adm_unix_ts adm) (env_mono env) d cast_path (session_id meta) of
                    (Inl e, d1) \<Rightarrow> (Rejected, srv\<lparr>ip_guard := release g ip\<rparr>, d1)
                  | (Inr rec, d1) \<Rightarrow>
                      (case spawn_sandbox (env_kernel env) (adm_canonicalize adm) d1 meta
                              (rootfs_path (vmm cfg)) (overlay_base (vmm cfg)) of (res, d2) \<Rightarrow>
                         let sandbox = (case res of Inr sb \<Rightarrow> Some sb | Inl _ \<Rightarrow> None);
                             v = with_roots (map_option root_dir sandbox) (Some (rootfs_path (vmm cfg)))
                         in (Active
                               \<lparr>as_meta = meta, session_start = env_mono env, as_vfs = v, cmd_buffer = '''',
                                escape_seq = False, escape_len = 0, last_byte = CHR 0x00, fetch_count = 0,
                                as_recorder = rec, as_sandbox = sandbox, is_ended = False\<rparr>,
                             srv\<lparr>ip_guard := g, session_semaphore := session_semaphore srv - 1\<rparr>, d2)))"

text \<open>
  Dropping a session gives back its admission slot and its permit. If it never reached a clean end,
  its sandbox goes through the same forensics pass, or, without a runtime to run it on, is only
  unmounted.
\<close>

definition session_drop ::
  "session_env \<Rightarrow> bool \<Rightarrow> AegisServer \<Rightarrow> session_state \<Rightarrow> AegisServer \<times> world" where
  "session_drop env runtime srv s =
     (case s of (a, w) \<Rightarrow>
        (srv\<lparr>ip_guard := release (ip_guard srv) (client_ip (as_meta a)),
             session_semaphore := Suc (session_semaphore srv)\<rparr>,
         if is_ended a then w
         else case as_sandbox a of
           None \<Rightarrow> w
         | Some sb \<Rightarrow>
             if runtime
             then (case finish_env env (as_meta a) sb (wdisk w, wevents w) of (d2, evs2) \<Rightarrow>
                     w\<lparr>wdisk := d2, wevents := evs2\<rparr>)
             else (case sb_overlay sb of
                     None \<Rightarrow> w
                   | Some om \<Rightarrow> w\<lparr>wdisk := snd (overlay_drop (env_kernel env) om (wdisk w))\<rparr>)))"

section \<open>What an effect leaves alone\<close>

text \<open>The keyboard part of a session and the part that only commands and the end of the session change.\<close>

definition keys :: "ActiveSession \<Rightarrow> string \<times> bool \<times> nat \<times> char" where
  "keys a = (cmd_buffer a, escape_seq a, escape_len a, last_byte a)"

definition core :: "ActiveSession \<Rightarrow> SessionMeta \<times> nat \<times> VirtualFileSystem \<times> u32 \<times> SandboxHandle option \<times> bool" where
  "core a = (as_meta a, session_start a, as_vfs a, fetch_count a, as_sandbox a, is_ended a)"

lemma keys_eq:
  "keys a = keys b \<longleftrightarrow> cmd_buffer a = cmd_buffer b \<and> escape_seq a = escape_seq b \<and> escape_len a = escape_len b
     \<and> last_byte a = last_byte b"
  by (simp add: keys_def)

lemma core_eq:
  "core a = core b \<longleftrightarrow> as_meta a = as_meta b \<and> session_start a = session_start b \<and> as_vfs a = as_vfs b
     \<and> fetch_count a = fetch_count b \<and> as_sandbox a = as_sandbox b \<and> is_ended a = is_ended b"
  by (simp add: core_def)

lemma simple_effects [frame_simps]:
  "fst (emit env e s) = fst s"
  "fst (snd (chan_write env b s)) = fst s"
  "fst (snd (chan_close env s)) = fst s"
  "keys (fst (rec_out env b s)) = keys (fst s)" "core (fst (rec_out env b s)) = core (fst s)"
  "keys (fst (rec_in env b s)) = keys (fst s)" "core (fst (rec_in env b s)) = core (fst s)"
  "keys (fst (rec_flush_st s)) = keys (fst s)" "core (fst (rec_flush_st s)) = core (fst s)"
  by (simp_all add: emit_def chan_write_def chan_close_def rec_out_def rec_in_def rec_flush_st_def keys_def core_def
      split_beta)

lemma send_output_frame [frame_simps]:
  "keys (fst (snd (send_output env b s))) = keys (fst s)"
  "core (fst (snd (send_output env b s))) = core (fst s)"
  by (simp_all add: send_output_def split_beta frame_simps)

lemma or_fail_frame:
  "(\<And>s'. P s s' \<Longrightarrow> P s (snd (k s'))) \<Longrightarrow> P s (snd r) \<Longrightarrow> P s (snd (or_fail r k))"
  by (simp add: or_fail_def split_beta)

lemma send_prompt_frame [frame_simps]:
  "keys (fst (snd (send_prompt env s))) = keys (fst s)"
  "core (fst (snd (send_prompt env s))) = core (fst s)"
  by (simp_all add: send_prompt_def or_fail_def split_beta frame_simps)

lemma teardown_frame [frame_simps]: "keys (fst (teardown_session env s)) = keys (fst s)"
proof -
  have "keys (fst (rec_flush_st (emit env e (a\<lparr>is_ended := True\<rparr>, w)))) = keys a" for e a w
    by (simp add: frame_simps) (simp add: keys_def)
  then show ?thesis
    by (simp add: teardown_session_def split_beta split: option.split) (simp add: keys_def)
qed

lemma logout_frame [frame_simps]: "keys (fst (snd (logout env n s))) = keys (fst s)"
  by (simp add: logout_def or_fail_def split_beta frame_simps)

lemma fetch_url_frame [frame_simps]: "fst (snd (fetch_url env cmd url s)) = fst s"
  by (simp add: fetch_url_def split_beta Let_def frame_simps split: option.split)

lemma run_command_keys: "run_command env cmd s = Some (out, s') \<Longrightarrow> keys (fst s') = keys (fst s)"
proof -
  assume r: "run_command env cmd s = Some (out, s')"
  obtain a w where s: "s = (a, w)" by (cases s)
  have "fst s' = x" if "fetch_url env cmd url (x, w) = (out, s')" for url x
    using fetch_url_frame [of env cmd url "(x, w)"] that by simp
  then show ?thesis
    using r unfolding run_command_def s prod.case Let_def
    by (auto simp: keys_def split: if_splits option.splits)
qed

lemma run_line_frame [frame_simps]: "keys (fst (snd (run_line env cmd s))) = keys (fst s)"
proof -
  let ?s = "emit env (command_event env (fst s) cmd) (rec_in env (cmd @ nl) s)"
  show ?thesis
  proof (cases "run_command env cmd ?s")
    case None
    then show ?thesis by (simp add: run_line_def Let_def frame_simps)
  next
    case (Some r)
    obtain out s1 where r: "r = (out, s1)" by (cases r)
    show ?thesis
      using run_command_keys [OF Some [unfolded r]]
      by (simp add: run_line_def Let_def Some r or_fail_def split_beta frame_simps)
  qed
qed

section \<open>The keyboard state\<close>

definition keyboard_ok :: "ActiveSession \<Rightarrow> bool" where
  "keyboard_ok a \<longleftrightarrow>
     length (cmd_buffer a) \<le> MAX_COMMAND_LEN \<and> list_all is_printable (cmd_buffer a) \<and>
     escape_len a \<le> MAX_ESCAPE_SEQ_LEN \<and> (escape_seq a \<longrightarrow> escape_len a < MAX_ESCAPE_SEQ_LEN)"

lemma keyboard_ok_keys: "keys a = keys b \<Longrightarrow> keyboard_ok a = keyboard_ok b"
  by (simp add: keyboard_ok_def keys_def)

lemma keyboard_ok_buffer:
  "keyboard_ok a \<Longrightarrow> length b \<le> MAX_COMMAND_LEN \<Longrightarrow> list_all is_printable b \<Longrightarrow>
   keyboard_ok (a\<lparr>last_byte := x, cmd_buffer := b\<rparr>)"
  by (simp add: keyboard_ok_def)

lemma enter_key_ok:
  assumes "keyboard_ok (fst s)"
  shows "keyboard_ok (fst (snd (enter_key env byte s)))"
proof -
  let ?s = "snd (send_output env crlf (set_last byte s))"
  have "keyboard_ok (fst (set_last byte s))"
    using assms by (simp add: set_last_def split_beta keyboard_ok_def)
  moreover have "keys (fst ?s) = keys (fst (set_last byte s))" by (simp add: frame_simps)
  ultimately have "keyboard_ok (fst ?s)" using keyboard_ok_keys by blast
  then have "keyboard_ok (fst (set_buffer '''' ?s))"
    by (simp add: set_buffer_def split_beta keyboard_ok_def)
  then have "keyboard_ok (fst (snd (send_prompt env (set_buffer '''' ?s))))"
    "keyboard_ok (fst (snd (run_line env cmd (set_buffer '''' ?s))))" for cmd
    by (metis keyboard_ok_keys send_prompt_frame(1), metis keyboard_ok_keys run_line_frame)
  with \<open>keyboard_ok (fst ?s)\<close> \<open>keyboard_ok (fst (set_last byte s))\<close> show ?thesis
    by (auto simp: enter_key_def or_fail_def split_beta Let_def)
qed

lemma ok_if:
  "(b \<Longrightarrow> keyboard_ok (fst (snd x))) \<Longrightarrow> (\<not> b \<Longrightarrow> keyboard_ok (fst (snd y))) \<Longrightarrow>
   keyboard_ok (fst (snd (if b then x else y)))"
  by simp

lemma byte_step_keyboard:
  assumes "keyboard_ok (fst s)"
  shows "keyboard_ok (fst (snd (byte_step env s byte)))"
proof -
  obtain a w where s: "s = (a, w)" by (cases s)
  have a: "keyboard_ok a" using assms s by simp
  have send: "keyboard_ok (fst (snd (or_fail (send_output env b (a', w)) (\<lambda>s. (Continue, s)))))"
    if "keyboard_ok a'" for b a'
    using that keyboard_ok_keys [OF send_output_frame(1) [of env b "(a', w)"]]
    by (simp add: or_fail_def split_beta)
  have prompt: "keyboard_ok (fst (snd (or_fail (send_output env b (a', w)) (send_prompt env))))"
    if "keyboard_ok a'" for b a'
    using that keyboard_ok_keys [of "fst (snd (or_fail (send_output env b (a', w)) (send_prompt env)))" a']
    by (simp add: or_fail_def split_beta frame_simps)
  have lo: "keyboard_ok (fst (snd (logout env Continue (a', w))))" if "keyboard_ok a'" for a'
    using that keyboard_ok_keys [OF logout_frame [of env Continue "(a', w)"]] by simp
  have last: "keyboard_ok (a\<lparr>last_byte := x\<rparr>)" for x using a by (simp add: keyboard_ok_def)
  have buf: "keyboard_ok (a\<lparr>last_byte := x, cmd_buffer := b\<rparr>)"
    if "b = '''' \<or> b = butlast (cmd_buffer a) \<or>
        (b = cmd_buffer a @ [x] \<and> is_printable x \<and> length (cmd_buffer a) < MAX_COMMAND_LEN)" for b x
    using that a by (auto simp: keyboard_ok_def list_all_iff dest: in_set_butlastD)
  have escape: "keyboard_ok (a\<lparr>escape_seq := True, escape_len := 0, last_byte := x\<rparr>)"
    "escape_seq a \<Longrightarrow> keyboard_ok (fst (escape_byte x (a, w)))" for x
    using a by (auto simp: keyboard_ok_def escape_byte_def MAX_ESCAPE_SEQ_LEN_def Let_def)
  show ?thesis
    unfolding byte_step_def s Let_def set_last_def set_buffer_def prod.case fst_conv
    by (intro ok_if)
       (use enter_key_ok [OF assms, of env byte] in
         \<open>simp_all add: s escape last buf send prompt lo is_printable_def\<close>)
qed

end
