(* ===== verification/Session_Run.thy ===== *)
theory Session_Run
  imports Session
begin

text \<open>
  Runs of a session: the SSH callbacks as steps, relations between session states that every callback
  keeps, and what follows for a whole session. It is charged at most its budget of downloads and
  ends once, a live session writes only to its own places, and the keyboard state stays bounded.
\<close>

section \<open>Callbacks and the relations they keep\<close>

datatype callback =
    Auth_password string string
  | Auth_publickey string string string
  | Shell_request
  | Data string
  | Channel_close

fun session_call :: "session_env \<Rightarrow> session_state \<Rightarrow> callback \<Rightarrow> session_state" where
  "session_call env s (Auth_password u p) = snd (auth_password env u p s)"
| "session_call env s (Auth_publickey u g f) = snd (auth_publickey env u g f s)"
| "session_call env s Shell_request = snd (shell_request env s)"
| "session_call env s (Data bs) = snd (data_loop env s bs)"
| "session_call env s Channel_close = channel_close env s"

text \<open>Events other than the two that are counted below.\<close>

fun is_end :: "TelemetryEvent \<Rightarrow> bool" where
  "is_end (SessionEnd _) = True"
| "is_end _ = False"

fun is_fetched :: "TelemetryEvent \<Rightarrow> bool" where
  "is_fetched (PayloadCaptured e) = (pc_source_url e \<noteq> None)"
| "is_fetched _ = False"

text \<open>
  A reflexive and transitive relation between session states that every primitive effect keeps is kept
  by every callback.
\<close>

locale session_relation =
  fixes env :: session_env
    and R :: "session_state \<Rightarrow> session_state \<Rightarrow> bool"
  assumes R_refl: "R s s"
    and R_trans: "R s s' \<Longrightarrow> R s' s'' \<Longrightarrow> R s s''"
    and R_keys: "core a' = core a \<Longrightarrow> as_recorder a' = as_recorder a \<Longrightarrow> R (a, w) (a', w)"
    and R_emit: "\<not> is_end e \<Longrightarrow> \<not> is_fetched e \<Longrightarrow> R s (emit env e s)"
    and R_chan_write: "R s (snd (chan_write env b s))"
    and R_chan_close: "R s (snd (chan_close env s))"
    and R_rec_out: "R s (rec_out env b s)"
    and R_rec_in: "R s (rec_in env b s)"
    and R_rec_flush: "R s (rec_flush_st s)"
    and R_teardown: "R s (teardown_session env s)"
    and R_command: "run_command env cmd s = Some (out, s') \<Longrightarrow> R s s'"
begin

lemma R_or_fail: "R s (snd r) \<Longrightarrow> (\<And>s'. R s s' \<Longrightarrow> R s (snd (k s'))) \<Longrightarrow> R s (snd (or_fail r k))"
  by (simp add: or_fail_def split_beta)

lemma R_send_output: "R s s' \<Longrightarrow> R s (snd (send_output env b s'))"
  using R_chan_write [of s' b] R_rec_out R_trans by (auto simp: send_output_def split_beta)

lemma R_send_prompt: "R s s' \<Longrightarrow> R s (snd (send_prompt env s'))"
  unfolding send_prompt_def by (intro R_or_fail R_send_output) simp_all

lemma R_logout: "R s s' \<Longrightarrow> R s (snd (logout env n s'))"
  unfolding logout_def
  by (intro R_or_fail R_send_output) (auto intro: R_trans [OF _ R_chan_close] R_trans [OF _ R_teardown])

lemma R_run_line: "R s s' \<Longrightarrow> R s (snd (run_line env cmd s'))"
proof -
  assume s: "R s s'"
  let ?s = "emit env (command_event env (fst s') cmd) (rec_in env (cmd @ nl) s')"
  have e: "R s ?s"
    by (intro R_trans [OF R_trans [OF s R_rec_in] R_emit]) (simp_all add: command_event_def)
  have "R s (snd (or_fail (send_output env out s1) (send_prompt env)))"
    if "run_command env cmd ?s = Some (out, s1)" for out s1
    by (intro R_or_fail R_send_output R_send_prompt) (use R_trans [OF e R_command [OF that]] in simp_all)
  then show ?thesis
    using e R_logout [OF e] by (auto simp: run_line_def Let_def split: option.split)
qed

lemma R_keyboard:
  "R s s' \<Longrightarrow> core (fst t) = core (fst s') \<Longrightarrow> as_recorder (fst t) = as_recorder (fst s') \<Longrightarrow> snd t = snd s' \<Longrightarrow> R s t"
  using R_keys [of "fst t" "fst s'" "snd s'"] R_trans by (metis prod.collapse)

lemma R_set: "R s s' \<Longrightarrow> R s (set_last x s')" "R s s' \<Longrightarrow> R s (set_buffer y s')" "R s s' \<Longrightarrow> R s (escape_byte x s')"
  by (erule R_keyboard; simp add: set_last_def set_buffer_def escape_byte_def core_def Let_def split_beta)+

lemma R_enter_key: "R s (snd (enter_key env x s))"
  using R_set(1) [OF R_refl [of s], of x]
  by (auto simp: enter_key_def Let_def intro!: R_or_fail R_send_output R_send_prompt R_run_line R_set R_refl)

lemma R_if: "R s (snd x) \<Longrightarrow> R s (snd y) \<Longrightarrow> R s (snd (if b then x else y))"
  by simp

lemma R_byte_step: "R s (snd (byte_step env s x))"
proof -
  have "R s (snd (case s of (a, w) \<Rightarrow>
      (Continue, (a\<lparr>escape_seq := True, escape_len := 0, last_byte := x\<rparr>, w))))"
    by (cases s) (auto intro: R_keys simp: core_def)
  then show ?thesis
    unfolding byte_step_def Let_def
    by (intro R_if R_enter_key R_or_fail R_send_output R_send_prompt R_logout R_set R_refl)
       (auto intro: R_set R_refl R_send_prompt)
qed

lemma R_data_loop: "R s (snd (data_loop env s bs))"
proof (induction bs arbitrary: s)
  case Nil
  show ?case by (simp add: R_rec_flush)
next
  case (Cons b bs)
  obtain f s' where f: "byte_step env s b = (f, s')" by (cases "byte_step env s b")
  then have "R s s'" using R_byte_step [of s b] by simp
  then show ?case using R_trans [OF _ Cons.IH] f by (cases f) simp_all
qed

lemma R_call: "R s (session_call env s cb)"
proof (cases cb)
  case Shell_request
  have "R s (emit env (start_event env (fst s)) s)" by (simp add: R_emit start_event_def)
  then show ?thesis
    unfolding Shell_request by (auto simp: shell_request_def intro!: R_or_fail R_send_output R_send_prompt)
qed (simp_all add: auth_password_def auth_publickey_def credential_event_def channel_close_def
      R_emit R_data_loop R_teardown)

end

section \<open>What a session is charged for\<close>

definition counted :: "(TelemetryEvent \<Rightarrow> bool) \<Rightarrow> TelemetryEvent list \<Rightarrow> nat" where
  "counted P evs = length (filter P evs)"

lemma counted_append [simp]: "counted P (xs @ ys) = counted P xs + counted P ys"
  by (simp add: counted_def)

text \<open>The events of a forensics pass are captures without a source URL.\<close>

definition scan_only :: "TelemetryEvent list \<Rightarrow> TelemetryEvent list \<Rightarrow> bool" where
  "scan_only evs evs' \<longleftrightarrow> (\<exists>xs. evs' = evs @ xs \<and> counted is_end xs = 0 \<and> counted is_fetched xs = 0)"

lemma scan_only_refl: "scan_only evs evs"
  by (auto simp: scan_only_def counted_def)

lemma scan_only_trans: "scan_only a b \<Longrightarrow> scan_only b c \<Longrightarrow> scan_only a c"
  by (auto simp: scan_only_def)

lemma analyze_file_scan: "scan_only evs (snd (snd (analyze_file sha fi rx eng now meta (d, evs) p)))"
proof -
  have "scan_only evs (evs @ [captured_event sha fi eng now meta ip None data])" for ip data
    by (simp add: scan_only_def counted_def captured_event_def)
  then show ?thesis
    by (auto simp: analyze_file_def Let_def scan_only_refl split: option.split)
qed

lemma analyze_upperdir_scan: "scan_only evs (snd (snd (analyze_upperdir sha fi rx eng now meta (d, evs) upper)))"
proof -
  have "scan_only (snd s) (snd (foldl (\<lambda>s p. snd (analyze_file sha fi rx eng now meta s p)) s ps))" for s ps
  proof (induction ps arbitrary: s)
    case (Cons p ps)
    show ?case
      using scan_only_trans [OF analyze_file_scan [of "snd s" sha fi rx eng now meta "fst s" p] Cons.IH]
      by simp
  qed (simp add: scan_only_refl)
  from this [of "(_, evs)"] show ?thesis
    by (auto simp: analyze_upperdir_def scan_only_refl split: option.split)
qed

lemma finish_env_scan: "scan_only evs (snd (finish_env env meta sb (d, evs)))"
  using analyze_upperdir_scan
  by (auto simp: finish_env_def finish_sandbox_def dispose_upper_def scan_only_refl split: prod.split option.split)
     (metis snd_conv)+

lemma word_succ:
  fixes a b :: "'l::len word"
  assumes "a < b"
  shows "unat (a + 1) = unat a + 1" and "a + 1 \<le> b"
proof -
  have "unat b < 2 ^ LENGTH('l)" by (rule unsigned_less)
  then have "unat a + 1 < 2 ^ LENGTH('l)" using assms unfolding word_less_nat_alt by linarith
  then show n: "unat (a + 1) = unat a + 1" by (simp add: unat_word_ariths unsigned_1)
  show "a + 1 \<le> b" using assms by (simp add: word_le_nat_alt word_less_nat_alt n)
qed

definition charge :: "session_env \<Rightarrow> session_state \<Rightarrow> session_state \<Rightarrow> bool" where
  "charge env s s' \<longleftrightarrow>
     (case s of (a, w) \<Rightarrow> case s' of (a', w') \<Rightarrow>
        let ends = counted is_end; fetched = counted is_fetched; cfg = forensics_cfg (env_config env)
        in as_meta a' = as_meta a \<and> prefix (wevents w) (wevents w') \<and> (is_ended a \<longrightarrow> is_ended a') \<and>
           ends (wevents w') + of_bool (is_ended a) \<le> ends (wevents w) + of_bool (is_ended a') \<and>
           (env_rx_open env \<longrightarrow>
              ends (wevents w') + of_bool (is_ended a) = ends (wevents w) + of_bool (is_ended a')) \<and>
           (fetch_count a \<le> max_fetches_per_session cfg \<longrightarrow> fetch_count a' \<le> max_fetches_per_session cfg) \<and>
           (\<not> fetch_payloads cfg \<longrightarrow> fetch_count a' = fetch_count a) \<and>
           fetched (wevents w') + unat (fetch_count a) \<le> fetched (wevents w) + unat (fetch_count a'))"

lemma charge_same:
  "core (fst s') = core (fst s) \<Longrightarrow> wevents (snd s') = wevents (snd s) \<Longrightarrow> charge env s s'"
  by (auto simp: charge_def core_def split: prod.splits)

lemma charge_trans: "charge env s s' \<Longrightarrow> charge env s' s'' \<Longrightarrow> charge env s s''"
  by (cases s, cases s', cases s'') (auto simp: charge_def Let_def)

lemma charge_emit: "\<not> is_end e \<Longrightarrow> \<not> is_fetched e \<Longrightarrow> charge env s (emit env e s)"
  by (cases s) (simp add: charge_def emit_def event_send_def counted_def)

lemma charge_teardown: "charge env s (teardown_session env s)"
proof (cases s)
  case (Pair a w)
  let ?e = "emit env (end_event env a) (a\<lparr>is_ended := True\<rparr>, w)"
  let ?f = "rec_flush_st ?e"
  show ?thesis
  proof (cases "is_ended a")
    case True
    then show ?thesis by (simp add: Pair teardown_session_def charge_same)
  next
    case False
    have "charge env s ?f"
      using False by (simp add: Pair charge_def emit_def event_send_def counted_def end_event_def rec_flush_st_def
          split_beta Let_def)
    moreover have "charge env ?f (teardown_session env s)"
    proof (cases "as_sandbox (fst ?f)")
      case None
      then show ?thesis using False by (simp add: Pair teardown_session_def charge_same split_beta)
    next
      case (Some sb)
      have "scan_only (wevents (snd ?f)) (snd (finish_env env (as_meta (fst ?f)) sb (wdisk (snd ?f), wevents (snd ?f))))"
        by (rule finish_env_scan)
      then show ?thesis
        using False Some
        by (simp add: Pair teardown_session_def split_beta charge_def scan_only_def Let_def) auto
    qed
    ultimately show ?thesis by (rule charge_trans)
  qed
qed

lemma charge_command:
  assumes "run_command env cmd s = Some (out, s')"
  shows "charge env s s'"
proof (cases s)
  case (Pair a w)
  let ?cfg = "forensics_cfg (env_config env)"
  let ?s1 = "(a\<lparr>fetch_count := fetch_count a + 1\<rparr>, w)"
  have fetch: "charge env s (snd (fetch_url env cmd url ?s1))"
    if "fetch_payloads ?cfg" "fetch_count a < max_fetches_per_session ?cfg" for url
  proof -
    have n: "unat (fetch_count a + 1) = unat (fetch_count a) + 1" "fetch_count a + 1 \<le> max_fetches_per_session ?cfg"
      using word_succ [OF that(2)] by simp_all
    have "counted is_fetched (event_send rx (wevents w) (fetched_event env m url i)) \<le> counted is_fetched (wevents w) + 1
        \<and> counted is_end (event_send rx (wevents w) (fetched_event env m url i)) = counted is_end (wevents w)
        \<and> prefix (wevents w) (event_send rx (wevents w) (fetched_event env m url i))" for rx m i
      by (simp add: event_send_def fetched_event_def counted_def split: prod.split)
    then show ?thesis
      using that n
      by (auto simp: Pair fetch_url_def split_beta Let_def charge_def emit_def split: option.split)
  qed
  have "charge env s (a\<lparr>as_vfs := v\<rparr>, w\<lparr>wdisk := d\<rparr>)" for v d by (simp add: Pair charge_def)
  then show ?thesis
    using assms fetch charge_same [of s s env] unfolding Pair run_command_def prod.case Let_def
    by (auto simp: not_le split: if_splits option.splits) (metis snd_conv)
qed

interpretation charging: session_relation env "charge env" for env
proof
  fix a a' :: ActiveSession and w s b
  show "charge env (a, w) (a', w)" if "core a' = core a" using that by (simp add: charge_same)
  show "charge env s (snd (chan_write env b s))" "charge env s (snd (chan_close env s))"
    "charge env s (rec_out env b s)" "charge env s (rec_in env b s)" "charge env s (rec_flush_st s)"
    by (rule charge_same; simp add: chan_write_def chan_close_def rec_out_def rec_in_def rec_flush_st_def
        core_def split_beta)+
qed (auto intro: charge_same charge_trans charge_emit charge_teardown charge_command)

section \<open>Where a live session can write\<close>

text \<open>
  A session's places: its mount root, the quarantine directory and its recording. \<open>in_places\<close> is the
  state in which a session runs, \<open>outside\<close> a path that belongs to none of them.
\<close>

record places =
  pl_mount :: "path option"
  pl_quarantine :: path
  pl_cast :: path

definition outside :: "places \<Rightarrow> path \<Rightarrow> bool" where
  "outside p q \<longleftrightarrow>
     (\<forall>b\<in>set_option (pl_mount p). \<not> strict_prefix b q) \<and> \<not> strict_prefix (pl_quarantine p) q \<and>
     q \<noteq> pl_cast p"

definition places_ok :: "places \<Rightarrow> bool" where
  "places_ok p \<longleftrightarrow> pl_cast p \<noteq> [] \<and> (\<forall>b\<in>set_option (pl_mount p). outside p b)"

definition in_places :: "places \<Rightarrow> session_state \<Rightarrow> bool" where
  "in_places p s \<longleftrightarrow>
     (case s of (a, w) \<Rightarrow>
        vfs_inv (as_vfs a) \<and> mount_root (as_vfs a) = pl_mount p \<and> rec_path (as_recorder a) = pl_cast p \<and>
        disk_wf (wdisk w) \<and> (\<forall>b\<in>set_option (pl_mount p). is_dir (wdisk w) b))"

definition keeps_to :: "places \<Rightarrow> session_state \<Rightarrow> session_state \<Rightarrow> bool" where
  "keeps_to p s s' \<longleftrightarrow>
     (\<not> is_ended (fst s') \<longrightarrow>
        \<not> is_ended (fst s) \<and>
        (in_places p s \<longrightarrow>
           in_places p s' \<and> (\<forall>q. outside p q \<longrightarrow> dlookup (wdisk (snd s')) q = dlookup (wdisk (snd s)) q)))"

lemma keeps_to_trans: "keeps_to p s s' \<Longrightarrow> keeps_to p s' s'' \<Longrightarrow> keeps_to p s s''"
  by (auto simp: keeps_to_def)

lemma keeps_to_same:
  "as_vfs (fst s') = as_vfs (fst s) \<Longrightarrow> rec_path (as_recorder (fst s')) = rec_path (as_recorder (fst s)) \<Longrightarrow>
   is_ended (fst s') = is_ended (fst s) \<Longrightarrow> wdisk (snd s') = wdisk (snd s) \<Longrightarrow> keeps_to p s s'"
  by (cases s; cases s') (simp add: keeps_to_def in_places_def)

text \<open>A change of the disk below the session's places keeps to them.\<close>

lemma keeps_to_disk:
  assumes "places_ok p"
    and "\<And>q. in_places p s \<Longrightarrow> outside p q \<Longrightarrow> dlookup (wdisk (snd s')) q = dlookup (wdisk (snd s)) q"
    and "in_places p s \<Longrightarrow> disk_wf (wdisk (snd s'))"
    and "is_ended (fst s') = is_ended (fst s)" and "rec_path (as_recorder (fst s')) = rec_path (as_recorder (fst s))"
    and "in_places p s \<Longrightarrow> vfs_inv (as_vfs (fst s')) \<and> mount_root (as_vfs (fst s')) = pl_mount p"
  shows "keeps_to p s s'"
proof -
  have "in_places p s'" if "in_places p s"
  proof -
    have "is_dir (wdisk (snd s')) b = is_dir (wdisk (snd s)) b" if "pl_mount p = Some b" for b
      using assms(1) that is_dir_cong [OF assms(2) [OF \<open>in_places p s\<close>]] by (simp add: places_ok_def)
    then show ?thesis
      using assms(3,5,6) that by (simp add: in_places_def split_beta)
  qed
  then show ?thesis using assms(2,4) by (simp add: keeps_to_def)
qed

lemma append_frame: "q \<noteq> c \<Longrightarrow> dlookup (ignore (fs_append b) d c) q = dlookup d q"
  using open_with_frame by (auto simp: ignore_def fs_append_def split: option.split)

lemma keeps_to_flush: "places_ok p \<Longrightarrow> keeps_to p s (rec_flush_st s)"
  by (rule keeps_to_disk; cases s)
     (auto simp: rec_flush_st_def rec_flush_def in_places_def append_frame outside_def places_ok_def
       intro: append_file.ignore_wf split: option.splits)

lemma keeps_to_record:
  assumes "places_ok p"
  shows "keeps_to p (a, w) (case write_record rj now kind data (as_recorder a, wdisk w) of (r, d) \<Rightarrow>
           (a\<lparr>as_recorder := r\<rparr>, w\<lparr>wdisk := d\<rparr>))"
  by (rule keeps_to_disk [OF assms])
     (use assms in \<open>auto simp: write_record_def Let_def rec_flush_def in_places_def append_frame outside_def places_ok_def
       intro: append_file.ignore_wf split: option.splits\<close>)

lemma store_payload_wf:
  assumes "disk_wf d"
  shows "disk_wf (snd (snd (store_payload sha fi d url parsed qdir mount body)))"
proof -
  have "disk_wf (ignore (fs_set_permissions 384) d' (qdir @ [h]))" if "fs_write body d (qdir @ [h]) = Some d'" for h d'
    using write_file.upd_wf [OF assms _ that] set_permissions.ignore_wf by simp
  then have "disk_wf (case fs_write body d (qdir @ [h]) of
      Some d' \<Rightarrow> ignore (fs_set_permissions 384) d' (qdir @ [h]) | None \<Rightarrow> d)" for h
    using assms by (simp split: option.split)
  then show ?thesis
    by (simp add: store_payload_def Let_def write_file.ignore_wf split: option.split)
qed

lemma fetch_places:
  assumes "disk_wf d" and "fetch_payload_blocking up dns http sha fi d url qdir mount n = (out, info, d')"
  shows "disk_wf d'"
    and "\<not> strict_prefix qdir q \<Longrightarrow> \<forall>b\<in>set_option mount. \<not> strict_prefix b q \<Longrightarrow> dlookup d' q = dlookup d q"
proof -
  have store: "d' = d \<or> (\<exists>parsed body. store_payload sha fi d url parsed qdir mount body = (out, info, d'))"
    using assms(2)
    by (auto simp: fetch_payload_blocking_def Let_def split: option.splits sum.splits if_splits)
  then show "disk_wf d'" using assms(1) store_payload_wf [OF assms(1)] by (metis snd_conv)
  show "dlookup d' q = dlookup d q" if "\<not> strict_prefix qdir q" "\<forall>b\<in>set_option mount. \<not> strict_prefix b q"
  proof -
    have "q \<noteq> qdir @ [h]" "mount = Some m \<Longrightarrow> q \<noteq> m @ [''root'', f]" for h m f
      using that by (auto simp: strict_prefix_def)
    then show ?thesis using store store_payload_frame by metis
  qed
qed

lemma keeps_to_fetch:
  assumes "places_ok p" and "pl_quarantine p = quarantine_dir (forensics_cfg (env_config env))"
  shows "keeps_to p s (snd (fetch_url env cmd url s))"
proof -
  obtain a w where s: "s = (a, w)" by (cases s)
  obtain out info d' where f:
      "fetch_payload_blocking (env_url_parse env) (env_dns env) (env_http env) (env_sha env) (env_find_iter env)
         (wdisk w) url (quarantine_dir (forensics_cfg (env_config env))) (mount_root (as_vfs a))
         (max_payload_bytes (forensics_cfg (env_config env))) = (out, info, d')" by (metis prod_cases3)
  have "wdisk (snd (snd (fetch_url env cmd url s))) = d'"
    by (simp add: s fetch_url_def f Let_def emit_def split: option.split)
  then show ?thesis
    using assms fetch_places [OF _ f]
    by (intro keeps_to_disk) (simp_all add: frame_simps s in_places_def outside_def)
qed

lemma keeps_to_dispatch:
  assumes "places_ok p" and "dispatch date (as_vfs a) (wdisk w) cmd = Some (out, v, d)"
  shows "keeps_to p (a, w) (a\<lparr>as_vfs := v\<rparr>, w\<lparr>wdisk := d\<rparr>)"
proof -
  have "session_confined (as_vfs a) (wdisk w) v d"
    by (rule dispatch_keeps_confined [OF assms(2)])
  then show ?thesis
    by (intro keeps_to_disk [OF assms(1)])
       (auto simp: in_places_def session_confined_def confined_def outside_def split: option.splits)
qed

definition keeps :: "session_env \<Rightarrow> places \<Rightarrow> session_state \<Rightarrow> session_state \<Rightarrow> bool" where
  "keeps env p s s' \<longleftrightarrow>
     (places_ok p \<and> pl_quarantine p = quarantine_dir (forensics_cfg (env_config env)) \<longrightarrow> keeps_to p s s')"

lemma keeps_command:
  assumes "run_command env cmd s = Some (out, s')"
  shows "keeps env p s s'"
proof (cases s)
  case (Pair a w)
  let ?s1 = "(a\<lparr>fetch_count := fetch_count a + 1\<rparr>, w)"
  have "keeps env p s (snd (fetch_url env cmd url ?s1))" for url
    using keeps_to_trans [OF keeps_to_same [of ?s1 s p] keeps_to_fetch] by (simp add: keeps_def Pair)
  moreover have "keeps env p s s" by (simp add: keeps_def keeps_to_same)
  ultimately show ?thesis
    using assms keeps_to_dispatch [of p "env_date env" a w cmd] unfolding Pair run_command_def prod.case Let_def
    by (auto simp: keeps_def split: if_splits option.splits) (metis snd_conv)
qed

lemma keeps_teardown: "keeps env p s (teardown_session env s)"
proof (cases s)
  case (Pair a w)
  show ?thesis
  proof (cases "is_ended a")
    case False
    have "is_ended (fst (teardown_session env s))"
      using False by (simp add: Pair teardown_session_def rec_flush_st_def emit_def split_beta split: option.split)
    then show ?thesis by (simp add: keeps_def keeps_to_def)
  qed (simp add: Pair teardown_session_def keeps_def keeps_to_same)
qed

interpretation keeping: session_relation env "keeps env p" for env p
proof
  fix a a' :: ActiveSession and w s b
  show "keeps env p (a, w) (a', w)" if "core a' = core a" "as_recorder a' = as_recorder a"
    using that by (simp add: keeps_def keeps_to_same core_def)
  show "keeps env p s (rec_out env b s)" "keeps env p s (rec_in env b s)"
    by (cases s; simp add: keeps_def rec_out_def rec_in_def record_output_def record_input_def keeps_to_record)+
  show "keeps env p s (snd (chan_write env b s))" "keeps env p s (snd (chan_close env s))"
    by (cases s; simp add: keeps_def keeps_to_same chan_write_def chan_close_def)+
qed (auto simp: keeps_def emit_def split_beta intro: keeps_to_same keeps_to_trans keeps_to_flush
      keeps_teardown [unfolded keeps_def, rule_format] keeps_command [unfolded keeps_def, rule_format])

section \<open>Runs\<close>

text \<open>Every callback of a run comes with its own environment: the clock, the peer and the network move on.\<close>

type_synonym call = "session_env \<times> callback"

definition step_call :: "session_state \<Rightarrow> call \<Rightarrow> session_state" where
  "step_call s c = (case c of (env, cb) \<Rightarrow> session_call env s cb)"

definition session_run :: "session_state \<Rightarrow> call list \<Rightarrow> session_state" where
  "session_run = foldl step_call"

definition fresh :: "ActiveSession \<Rightarrow> bool" where
  "fresh a \<longleftrightarrow> cmd_buffer a = '''' \<and> \<not> escape_seq a \<and> escape_len a = 0 \<and> fetch_count a = 0 \<and> \<not> is_ended a"

lemma charge_weaken:
  "charge env s s' \<Longrightarrow> env_config env = env_config env0 \<Longrightarrow> (env_rx_open env0 \<longrightarrow> env_rx_open env) \<Longrightarrow> charge env0 s s'"
  by (cases s; cases s') (simp add: charge_def Let_def)

interpretation charged: step_system step_call "charge env0 s0"
  "\<lambda>(env, _). env_config env = env_config env0 \<and> (env_rx_open env0 \<longrightarrow> env_rx_open env)" for env0 s0
proof (unfold_locales, goal_cases)
  case (1 s c)
  obtain env cb where c: "c = (env, cb)" by (cases c)
  have "charge env0 s (session_call env s cb)"
    using 1(2) by (intro charge_weaken [OF charging.R_call]) (simp_all add: c)
  with 1(1) show ?case unfolding c step_call_def prod.case by (rule charge_trans)
qed

interpretation kept: step_system step_call "\<lambda>s. keeps_to p s0 s"
  "\<lambda>(env, _). places_ok p \<and> quarantine_dir (forensics_cfg (env_config env)) = pl_quarantine p" for p s0
proof (unfold_locales, goal_cases)
  case (1 s c)
  obtain env cb where c: "c = (env, cb)" by (cases c)
  have "keeps_to p s (session_call env s cb)"
    using 1(2) keeping.R_call [of env p s cb] by (simp add: c keeps_def)
  with 1(1) show ?case unfolding c step_call_def prod.case by (rule keeps_to_trans)
qed

lemma data_loop_keyboard: "keyboard_ok (fst s) \<Longrightarrow> keyboard_ok (fst (snd (data_loop env s bs)))"
proof (induction bs arbitrary: s)
  case Nil
  then show ?case using keyboard_ok_keys [OF simple_effects(8) [of s]] by simp
next
  case (Cons b bs)
  obtain f s' where f: "byte_step env s b = (f, s')" by (cases "byte_step env s b")
  then have "keyboard_ok (fst s')" using byte_step_keyboard [OF Cons.prems, of env b] by simp
  then show ?case using Cons.IH f by (cases f) simp_all
qed

interpretation keyboard: step_system step_call "\<lambda>s. keyboard_ok (fst s)" "\<lambda>_. True"
proof (unfold_locales, goal_cases)
  case (1 s c)
  obtain env cb where c: "c = (env, cb)" by (cases c)
  show ?case
  proof (cases "\<exists>bs. cb = Data bs")
    case True
    then show ?thesis using data_loop_keyboard [OF 1(1)] by (auto simp: c step_call_def)
  next
    case False
    then have "keys (fst (session_call env s cb)) = keys (fst s)"
      by (cases cb) (simp_all add: auth_password_def auth_publickey_def shell_request_def channel_close_def
          or_fail_def split_beta frame_simps)
    from keyboard_ok_keys [OF this] show ?thesis using 1(1) by (simp add: c step_call_def)
  qed
qed

section \<open>Typing\<close>

text \<open>
  An effect that shows \<open>t\<close> to the client and otherwise touches only the keyboard and the recording.
\<close>

definition displays :: "session_state \<Rightarrow> string \<Rightarrow> session_state \<Rightarrow> bool" where
  "displays s t s' \<longleftrightarrow>
     core (fst s') = core (fst s) \<and> rec_path (as_recorder (fst s')) = rec_path (as_recorder (fst s)) \<and>
     wevents (snd s') = wevents (snd s) \<and> wterm (snd s') = wterm (snd s) @ t \<and> wclosed (snd s') = wclosed (snd s) \<and>
     (\<forall>q. q \<noteq> rec_path (as_recorder (fst s)) \<longrightarrow> dlookup (wdisk (snd s')) q = dlookup (wdisk (snd s)) q)"

lemma displays_trans: "displays s t s' \<Longrightarrow> displays s' t' s'' \<Longrightarrow> displays s (t @ t') s''"
  by (simp add: displays_def)

lemma displays_refl: "displays s [] s"
  by (simp add: displays_def)

lemma displays_keyboard:
  "core (fst s') = core (fst s) \<Longrightarrow> as_recorder (fst s') = as_recorder (fst s) \<Longrightarrow> snd s' = snd s \<Longrightarrow> displays s [] s'"
  by (simp add: displays_def)

lemma displays_record: "displays s [] (rec_out env b s)" "displays s [] (rec_in env b s)" "displays s [] (rec_flush_st s)"
  by (cases s; auto simp: displays_def rec_out_def rec_in_def rec_flush_st_def record_output_def record_input_def
      write_record_def rec_flush_def Let_def core_def append_frame)+

lemma send_output_ok:
  assumes "\<forall>i. env_peer_ok env i"
  shows "\<exists>s'. send_output env b s = (True, s') \<and> displays s b s' \<and> keys (fst s') = keys (fst s)"
proof -
  obtain a w where s: "s = (a, w)" by (cases s)
  let ?s1 = "(a, w\<lparr>wterm := wterm w @ b, wwrites := Suc (wwrites w)\<rparr>)"
  have "displays s b ?s1" by (simp add: s displays_def)
  from displays_trans [OF this displays_record(1)] have "displays s b (rec_out env b ?s1)" by simp
  moreover have "send_output env b s = (True, rec_out env b ?s1)"
    using assms by (simp add: send_output_def chan_write_def s)
  ultimately show ?thesis using simple_effects(4) [of env b ?s1] by (simp add: s)
qed

lemma send_prompt_ok:
  assumes "\<forall>i. env_peer_ok env i"
  shows "\<exists>s'. send_prompt env s = (Continue, s') \<and> displays s (get_prompt (as_vfs (fst s))) s' \<and> keys (fst s') = keys (fst s)"
  using send_output_ok [OF assms, of "get_prompt (as_vfs (fst s))" s] by (auto simp: send_prompt_def or_fail_def)

lemma printable_keys: "is_printable b \<Longrightarrow> b \<notin> {esc, cr, lf, CHR 0x7F, CHR 0x08, CHR 0x03, CHR 0x04}"
  by (auto simp: is_printable_def is_ascii_graphic_def byte_of_def)

lemma byte_printable:
  assumes "\<forall>i. env_peer_ok env i" and "is_printable b" and "\<not> escape_seq (fst s)"
    and "length (cmd_buffer (fst s)) < MAX_COMMAND_LEN"
  shows "\<exists>s'. byte_step env s b = (Continue, s') \<and> displays s [b] s' \<and> cmd_buffer (fst s') = cmd_buffer (fst s) @ [b] \<and>
    \<not> escape_seq (fst s')"
proof -
  let ?s1 = "set_buffer (cmd_buffer (fst s) @ [b]) (set_last b s)"
  obtain s' where s': "send_output env [b] ?s1 = (True, s')" "displays ?s1 [b] s'" "keys (fst s') = keys (fst ?s1)"
    using send_output_ok [OF assms(1)] by blast
  have "displays s [] ?s1" by (rule displays_keyboard; simp add: set_buffer_def set_last_def core_def split_beta)
  from displays_trans [OF this s'(2)] have "displays s [b] s'" by simp
  moreover have "byte_step env s b = (Continue, s')"
    using printable_keys [OF assms(2)] assms(2-4) s'(1)
    by (simp add: byte_step_def Let_def or_fail_def is_printable_def not_le)
  moreover have "cmd_buffer (fst s') = cmd_buffer (fst s) @ [b] \<and> \<not> escape_seq (fst s')"
    using s'(3) assms(3) by (simp add: keys_def set_buffer_def set_last_def split_beta)
  ultimately show ?thesis by blast
qed

lemma type_text:
  assumes "\<forall>i. env_peer_ok env i"
  shows "list_all is_printable l \<Longrightarrow> \<not> escape_seq (fst s) \<Longrightarrow> length (cmd_buffer (fst s)) + length l \<le> MAX_COMMAND_LEN \<Longrightarrow>
    \<exists>s'. (\<forall>rest. data_loop env s (l @ rest) = data_loop env s' rest) \<and> displays s l s' \<and>
      cmd_buffer (fst s') = cmd_buffer (fst s) @ l \<and> \<not> escape_seq (fst s')"
proof (induction l arbitrary: s)
  case Nil
  then show ?case using displays_refl by (intro exI [of _ s]) simp
next
  case (Cons b l)
  obtain s1 where 1: "byte_step env s b = (Continue, s1)" "displays s [b] s1"
    "cmd_buffer (fst s1) = cmd_buffer (fst s) @ [b]" "\<not> escape_seq (fst s1)"
    using byte_printable [OF assms, of b s] Cons.prems by auto
  have "list_all is_printable l" "length (cmd_buffer (fst s1)) + length l \<le> MAX_COMMAND_LEN"
    using Cons.prems 1(3) by simp_all
  from Cons.IH [OF this(1) 1(4) this(2)] obtain s2 where 2:
    "\<forall>rest. data_loop env s1 (l @ rest) = data_loop env s2 rest" "displays s1 l s2"
    "cmd_buffer (fst s2) = cmd_buffer (fst s1) @ l" "\<not> escape_seq (fst s2)" by blast
  then show ?case using 1 displays_trans [OF 1(2) 2(2)] by (intro exI [of _ s2]) simp
qed

text \<open>Running an ordinary line, from the state in which Enter was pressed.\<close>

lemma run_line_ok:
  assumes peer: "\<forall>i. env_peer_ok env i" and "trim cmd \<noteq> ''exit''" "trim cmd \<noteq> ''logout''"
    and "\<not> env_is_match env RE_DOWNLOAD cmd" and "valid_utf8 cmd"
  shows "\<exists>d1 out v d2 s'. run_line env cmd s = (Continue, s') \<and> keys (fst s') = keys (fst s) \<and>
    dispatch (env_date env) (as_vfs (fst s)) d1 cmd = Some (out, v, d2) \<and>
    core (fst s') = core ((fst s)\<lparr>as_vfs := v\<rparr>) \<and> rec_path (as_recorder (fst s')) = rec_path (as_recorder (fst s)) \<and>
    wevents (snd s') = event_send (env_rx_open env) (wevents (snd s)) (command_event env (fst s) cmd) \<and>
    wterm (snd s') = wterm (snd s) @ out @ get_prompt v \<and>
    (\<forall>q. q \<noteq> rec_path (as_recorder (fst s)) \<longrightarrow>
       dlookup d1 q = dlookup (wdisk (snd s)) q \<and> dlookup (wdisk (snd s')) q = dlookup d2 q)"
proof -
  obtain a1 w1 where s1: "rec_in env (cmd @ nl) s = (a1, w1)" by (cases "rec_in env (cmd @ nl) s")
  have r1: "displays s [] (a1, w1)" "keys a1 = keys (fst s)"
    using displays_record(2) [of s env "cmd @ nl"] simple_effects(6) [of env "cmd @ nl" s] by (simp_all add: s1)
  define w2 where "w2 = w1\<lparr>wevents := event_send (env_rx_open env) (wevents w1) (command_event env (fst s) cmd)\<rparr>"
  obtain out v d2 where d: "dispatch (env_date env) (as_vfs a1) (wdisk w1) cmd = Some (out, v, d2)"
    using dispatch_total [OF assms(5), of "env_date env" "as_vfs a1" "wdisk w1"] by auto
  define s3 where "s3 = (a1\<lparr>as_vfs := v\<rparr>, w2\<lparr>wdisk := d2\<rparr>)"
  have run: "run_command env cmd (a1, w2) = Some (out, s3)"
    using assms(4) d by (simp add: run_command_def s3_def w2_def)
  obtain s4 where s4: "send_output env out s3 = (True, s4)" "displays s3 out s4" "keys (fst s4) = keys (fst s3)"
    using send_output_ok [OF peer] by blast
  obtain s5 where s5: "send_prompt env s4 = (Continue, s5)" "displays s4 (get_prompt (as_vfs (fst s4))) s5"
    "keys (fst s5) = keys (fst s4)"
    using send_prompt_ok [OF peer] by blast
  have "run_line env cmd s = (Continue, s5)"
    using assms(2,3) s4(1) s5(1) by (simp add: run_line_def s1 emit_def run Let_def or_fail_def flip: w2_def)
  moreover have "keys (fst s5) = keys (fst s)"
    using s5(3) s4(3) r1(2) by (simp add: s3_def keys_def)
  moreover have "as_vfs a1 = as_vfs (fst s)" "as_vfs (fst s4) = v"
    using r1(1) s4(2) by (simp_all add: displays_def core_def s3_def)
  ultimately show ?thesis
    using d r1(1) s4(2) s5(2)
    by (intro exI [of _ "wdisk w1"] exI [of _ out] exI [of _ v] exI [of _ d2] exI [of _ s5])
       (simp add: displays_def core_def s3_def w2_def)
qed

lemma printable_text: "list_all is_printable l \<Longrightarrow> valid_utf8 l"
  by (rule valid_utf8_ascii) (auto simp: list_all_iff is_printable_def is_ascii_graphic_def byte_of_def)

lemma type_line:
  assumes "\<forall>i. env_peer_ok env i" and "cmd_buffer a = ''''" and "\<not> escape_seq a"
    and "list_all is_printable l" and "length l \<le> 8192" and "trim l \<noteq> ''''"
    and "trim (trim l) \<notin> {''exit'', ''logout''}" and "\<not> env_is_match env RE_DOWNLOAD (trim l)"
  shows "\<exists>d1 out v d2 a' w'. data_loop env (a, w) (l @ [cr]) = (True, (a', w')) \<and>
    dispatch (env_date env) (as_vfs a) d1 (trim l) = Some (out, v, d2) \<and>
    wterm w' = wterm w @ l @ crlf @ out @ get_prompt v \<and>
    wevents w' = event_send (env_rx_open env) (wevents w) (command_event env a (trim l)) \<and>
    as_vfs a' = v \<and> cmd_buffer a' = '''' \<and> is_ended a' = is_ended a \<and>
    (\<forall>q. q \<noteq> rec_path (as_recorder a) \<longrightarrow>
       dlookup d1 q = dlookup (wdisk w) q \<and> dlookup (wdisk w') q = dlookup d2 q)"
proof -
  obtain s1 where s1: "data_loop env (a, w) (l @ [cr]) = data_loop env s1 [cr]" "displays (a, w) l s1"
    "cmd_buffer (fst s1) = l" "\<not> escape_seq (fst s1)"
    using type_text [OF assms(1,4), of "(a, w)"] assms(2,3,5) by (auto simp: MAX_COMMAND_LEN_def)
  obtain s2 where s2: "send_output env crlf (set_last cr s1) = (True, s2)" "displays (set_last cr s1) crlf s2"
    "keys (fst s2) = keys (fst (set_last cr s1))"
    using send_output_ok [OF assms(1)] by blast
  let ?s3 = "set_buffer '''' s2"
  have buf: "cmd_buffer (fst s2) = l" using s1(3) s2(3) by (simp add: keys_def set_last_def split_beta)
  have "displays s1 [] (set_last cr s1)" "displays s2 [] ?s3"
    by (rule displays_keyboard; simp add: set_buffer_def set_last_def core_def split_beta)+
  with s1(2) s2(2) have d3: "displays (a, w) (l @ crlf) ?s3"
    using displays_trans by (metis append_Nil2 append_assoc)
  obtain d1 out v d2 s4 where s4: "run_line env (trim l) ?s3 = (Continue, s4)" "keys (fst s4) = keys (fst ?s3)"
    "dispatch (env_date env) (as_vfs (fst ?s3)) d1 (trim l) = Some (out, v, d2)"
    "core (fst s4) = core ((fst ?s3)\<lparr>as_vfs := v\<rparr>)" "rec_path (as_recorder (fst s4)) = rec_path (as_recorder (fst ?s3))"
    "wevents (snd s4) = event_send (env_rx_open env) (wevents (snd ?s3)) (command_event env (fst ?s3) (trim l))"
    "wterm (snd s4) = wterm (snd ?s3) @ out @ get_prompt v"
    "\<forall>q. q \<noteq> rec_path (as_recorder (fst ?s3)) \<longrightarrow>
       dlookup d1 q = dlookup (wdisk (snd ?s3)) q \<and> dlookup (wdisk (snd s4)) q = dlookup d2 q"
    using run_line_ok [OF assms(1), of "trim l" ?s3] assms(7,8) trim_text(1) [OF printable_text [OF assms(4)]] by auto
  have "byte_step env s1 cr = (Continue, s4)"
    using s1(4) s2(1) buf assms(6) s4(1) by (simp add: byte_step_def enter_key_def or_fail_def Let_def)
  then have "data_loop env (a, w) (l @ [cr]) = (True, rec_flush_st s4)" by (simp add: s1(1))
  moreover have "displays s4 [] (rec_flush_st s4)" "keys (fst (rec_flush_st s4)) = keys (fst s4)"
    using displays_record(3) simple_effects(8) by blast+
  moreover have "cmd_buffer (fst s4) = ''''" using s4(2) by (simp add: keys_def set_buffer_def split_beta)
  ultimately show ?thesis
    using s4(3-8) d3
    by (intro exI [of _ d1] exI [of _ out] exI [of _ v] exI [of _ d2] exI [of _ "fst (rec_flush_st s4)"]
          exI [of _ "snd (rec_flush_st s4)"])
       (simp add: displays_def core_def keys_def command_event_def)
qed

section \<open>A concrete session\<close>

definition demo_env :: session_env where
  "demo_env =
     \<lparr>env_config = AegisConfig_default,
      env_engine = \<lparr>fe_quarantine_dir = [''quarantine''], fe_string_min_len = 6, fe_max_analysis_bytes = 100\<rparr>,
      env_kernel = \<lparr>k_mount = (\<lambda>opts p d. None), k_umount = (\<lambda>p d. None)\<rparr>,
      env_sha = (\<lambda>c. ''h''), env_find_iter = (\<lambda>re s. []), env_is_match = (\<lambda>re s. False),
      env_url_parse = (\<lambda>s. None), env_dns = (\<lambda>h p. Inl ''no answer''), env_http = (\<lambda>t h u. None),
      env_fetch_in_time = True, env_rec_json = (\<lambda>t k x. k), env_geoip = \<lparr>geo_city = None, geo_asn = None\<rparr>,
      env_rx_open = True, env_peer_ok = (\<lambda>i. True), env_date = ''now'', env_now = 0, env_mono = 0\<rparr>"

definition demo_session :: ActiveSession where
  "demo_session =
     \<lparr>as_meta = SessionMeta_new ''s'' 0 (V4 8 8 8 8) 4022, session_start = 0, as_vfs = demo_vfs,
      cmd_buffer = [], escape_seq = False, escape_len = 0, last_byte = CHR 0x00, fetch_count = 0,
      as_recorder = \<lparr>rec_session_id = ''s'', rec_path = [''cast''], rec_buffer = [], rec_start_ts = 0,
        rec_written = 0, rec_truncated = False\<rparr>,
      as_sandbox = None, is_ended = False\<rparr>"

definition demo_world :: world where
  "demo_world = \<lparr>wdisk = demo_disk, wevents = [], wterm = [], wwrites = 0, wclosed = False\<rparr>"

definition demo_places :: places where
  "demo_places = \<lparr>pl_mount = Some [''mnt''], pl_quarantine = [''quarantine''], pl_cast = [''cast'']\<rparr>"

lemma demo_fresh: "fresh demo_session"
  by (simp add: fresh_def demo_session_def)

lemma demo_config: "env_config demo_env = AegisConfig_default" "env_rx_open demo_env"
  by (simp_all add: demo_env_def)

section \<open>Properties of runs\<close>

text \<open>
  Claim C15: whatever bytes arrive, in whatever chunks and among whatever other callbacks, the command
  buffer of a session never exceeds 8 KiB and holds only printable characters, and an escape sequence
  never swallows more than its 16 bytes.
\<close>

theorem keyboard_stays_bounded:
  assumes "fresh a"
  shows "case session_run (a, w) calls of (a', w') \<Rightarrow>
    length (cmd_buffer a') \<le> 8192 \<and> list_all is_printable (cmd_buffer a') \<and> escape_len a' \<le> 16"
proof -
  have "keyboard_ok a" using assms by (simp add: fresh_def keyboard_ok_def)
  then show ?thesis
    using keyboard.run_inv [of "(a, w)" calls]
    by (auto simp: session_run_def list_all_iff keyboard_ok_def MAX_COMMAND_LEN_def MAX_ESCAPE_SEQ_LEN_def)
qed

theorem keyboard_stays_bounded_witness:
  "length (cmd_buffer (fst (session_run (demo_session, demo_world) [(demo_env, Data (replicate 9000 (CHR ''x'')))]))) \<le> 8192"
  using keyboard_stays_bounded [OF demo_fresh, of demo_world "[(demo_env, Data (replicate 9000 (CHR ''x'')))]"]
  by (simp only: case_prod_beta)

text \<open>
  Claim C13: in any run of a session the number of captured downloads it reports is at most the
  configured budget, and none if fetching is switched off.
\<close>

theorem fetch_budget_holds:
  assumes "fresh a" and "\<forall>(env, cb)\<in>set calls. env_config env = cfg"
    and "session_run (a, w) calls = (a', w')"
  shows "counted is_fetched (wevents w') \<le> counted is_fetched (wevents w) +
    (if fetch_payloads (forensics_cfg cfg) then unat (max_fetches_per_session (forensics_cfg cfg)) else 0)"
proof (cases calls)
  case Nil
  then show ?thesis using assms(3) by (simp add: session_run_def)
next
  case (Cons c cs)
  define env0 where "env0 = (fst c)\<lparr>env_rx_open := False\<rparr>"
  have c: "env_config env0 = cfg" using assms(2) Cons by (auto simp: env0_def)
  have "charge env0 (a, w) (a', w')"
    using charged.run_inv [of env0 "(a, w)" "(a, w)" calls] assms(2,3) c charge_same [of "(a, w)" "(a, w)"]
    by (simp add: session_run_def list_all_iff case_prod_beta env0_def)
  then show ?thesis
    using assms(1) c unfolding charge_def fresh_def Let_def prod.case word_le_nat_alt
    by (auto split: if_splits)
qed

theorem fetch_budget_holds_witness:
  "counted is_fetched (wevents (snd (session_run (demo_session, demo_world) [(demo_env, Data (''wget x'' @ [cr]))]))) \<le> 5"
proof -
  let ?calls = "[(demo_env, Data (''wget x'' @ [cr]))]"
  let ?s = "session_run (demo_session, demo_world) ?calls"
  have "counted is_fetched (wevents (snd ?s)) \<le> counted is_fetched (wevents demo_world) +
      (if fetch_payloads (forensics_cfg AegisConfig_default)
       then unat (max_fetches_per_session (forensics_cfg AegisConfig_default)) else 0)"
    by (rule fetch_budget_holds [OF demo_fresh, of ?calls _ _ "fst ?s"]) (simp_all add: demo_config)
  moreover have "unat (max_fetches_per_session (forensics_cfg AegisConfig_default)) = 5"
    "counted is_fetched (wevents demo_world) = 0"
    by (simp_all add: AegisConfig_default_def default_max_fetches_per_session_def demo_world_def counted_def)
  ultimately show ?thesis by (simp split: if_splits)
qed

text \<open>
  Claim C12: while the collector is listening, a session reports its end exactly once: after any run
  the number of end events it has added is one if it has ended and zero if not, however often it is
  torn down by Ctrl-D, exit, or the channel closing.
\<close>

theorem session_ends_once:
  assumes "fresh a" and "\<forall>(env, cb)\<in>set calls. env_config env = cfg \<and> env_rx_open env"
    and "session_run (a, w) calls = (a', w')"
  shows "counted is_end (wevents w') = counted is_end (wevents w) + (if is_ended a' then 1 else 0)"
proof (cases calls)
  case Nil
  then show ?thesis using assms(1,3) by (auto simp: session_run_def fresh_def)
next
  case (Cons c cs)
  have c: "env_config (fst c) = cfg" "env_rx_open (fst c)" using assms(2) Cons by auto
  have "charge (fst c) (a, w) (a', w')"
    using charged.run_inv [of "fst c" "(a, w)" "(a, w)" calls] assms(2,3) c charge_same [of "(a, w)" "(a, w)"]
    by (simp add: session_run_def list_all_iff case_prod_beta)
  then show ?thesis using assms(1) c unfolding charge_def fresh_def Let_def prod.case by simp
qed

theorem session_ends_once_witness:
  "counted is_end (wevents (snd (session_run (demo_session, demo_world)
     [(demo_env, Data [CHR 0x04]), (demo_env, Channel_close)]))) = 1"
proof -
  let ?calls = "[(demo_env, Data [CHR 0x04]), (demo_env, Channel_close)]"
  let ?s = "session_run (demo_session, demo_world) ?calls"
  have "is_ended (fst ?s)"
    by (simp add: session_run_def step_call_def byte_step_def set_last_def logout_def send_output_def chan_write_def
        chan_close_def rec_out_def or_fail_def teardown_session_def rec_flush_st_def emit_def channel_close_def
        demo_session_def demo_env_def demo_world_def split_beta Let_def)
  then show ?thesis
    using session_ends_once [OF demo_fresh, of ?calls AegisConfig_default demo_world "fst ?s" "snd ?s"]
    by (simp add: demo_config counted_def demo_world_def)
qed

text \<open>
  Claim C11: a printable line of at most 8 KiB typed at the prompt and ended with Enter is handled as a
  terminal would: every character is echoed, the line, trimmed, is reported as one command event, the
  shell runs it on the session's file system, and the client sees its output and the prompt of the
  new working directory; the buffer is empty again.
\<close>

theorem typed_line_runs:
  assumes "\<forall>i. env_peer_ok env i" and "cmd_buffer a = ''''" and "\<not> escape_seq a"
    and "list_all is_printable l" and "length l \<le> 8192" and "trim l \<noteq> ''''"
    and "trim (trim l) \<notin> {''exit'', ''logout''}" and "\<not> env_is_match env RE_DOWNLOAD (trim l)"
  shows "\<exists>d1 out v d2 a' w'. data_loop env (a, w) (l @ [cr]) = (True, (a', w')) \<and>
    dispatch (env_date env) (as_vfs a) d1 (trim l) = Some (out, v, d2) \<and>
    wterm w' = wterm w @ l @ crlf @ out @ get_prompt v \<and>
    wevents w' = event_send (env_rx_open env) (wevents w) (command_event env a (trim l)) \<and>
    as_vfs a' = v \<and> cmd_buffer a' = '''' \<and> is_ended a' = is_ended a \<and>
    (\<forall>q. q \<noteq> rec_path (as_recorder a) \<longrightarrow>
       dlookup d1 q = dlookup (wdisk w) q \<and> dlookup (wdisk w') q = dlookup d2 q)"
  by (rule type_line [OF assms])

theorem typed_line_runs_witness:
  "\<exists>out v a' w'. data_loop demo_env (demo_session, demo_world) (''pwd'' @ [cr]) = (True, (a', w')) \<and>
     wterm w' = ''pwd'' @ crlf @ out @ get_prompt v \<and> cmd_buffer a' = ''''"
proof -
  have "trim ''pwd'' = ''pwd''" by (simp add: trim_def trim_start_def trim_end_def is_ws_def)
  then show ?thesis
    using typed_line_runs [of demo_env demo_session "''pwd''" demo_world]
    by (simp add: demo_env_def demo_session_def demo_world_def is_printable_def is_ascii_graphic_def byte_of_def) blast
qed

text \<open>
  As long as a session is live, nothing it does changes any file or directory outside its
  mount root, the quarantine directory and its own recording.
\<close>

theorem live_session_confined:
  assumes "places_ok p" and "in_places p s"
    and "\<forall>(env, cb)\<in>set calls. quarantine_dir (forensics_cfg (env_config env)) = pl_quarantine p"
    and "\<not> is_ended (fst (session_run s calls))" and "outside p q"
  shows "dlookup (wdisk (snd (session_run s calls))) q = dlookup (wdisk (snd s)) q"
proof -
  have "keeps_to p s (session_run s calls)"
    using kept.run_inv [of p s s calls] assms(1,3) keeps_to_same [of s s p]
    by (simp add: session_run_def list_all_iff case_prod_beta)
  then show ?thesis using assms(2,4,5) by (simp add: keeps_to_def)
qed

theorem live_session_confined_witness:
  "dlookup (wdisk (snd (session_run (demo_session, demo_world) [(demo_env, Data (''rm -rf /log ../log'' @ [cr]))]))) [''log''] =
   Some (DFile 384 ''evidence'')"
proof -
  let ?l = "''rm -rf /log ../log''"
  let ?calls = "[(demo_env, Data (?l @ [cr]))]"
  have "places_ok demo_places" "outside demo_places [''log'']"
    by (simp_all add: places_ok_def outside_def demo_places_def strict_prefix_def)
  moreover have "in_places demo_places (demo_session, demo_world)"
    using demo_ok by (simp add: in_places_def demo_places_def demo_session_def demo_world_def)
  moreover have "\<not> is_ended (fst (session_run (demo_session, demo_world) ?calls))"
  proof -
    have "trim ?l = ?l" by (simp add: trim_def trim_start_def trim_end_def is_ws_def)
    moreover have "list_all is_printable ?l" by (simp add: is_printable_def is_ascii_graphic_def byte_of_def)
    ultimately obtain a' w' where "data_loop demo_env (demo_session, demo_world) (?l @ [cr]) = (True, a', w')"
      "is_ended a' = is_ended demo_session"
      using type_line [of demo_env demo_session ?l demo_world] demo_fresh by (auto simp: demo_env_def fresh_def)
    then show ?thesis using demo_fresh by (simp add: session_run_def step_call_def fresh_def)
  qed
  ultimately show ?thesis
    using live_session_confined [of demo_places "(demo_session, demo_world)" ?calls "[''log'']"]
    by (simp add: demo_config demo_places_def AegisConfig_default_def)
      (simp add: demo_world_def demo_disk_def dlookup_def)
qed

text \<open>
  Claim C16: a session always gets out of an escape sequence: of any bytes without a new escape, at
  most sixteen are swallowed before the keyboard listens again, and swallowing them shows nothing,
  reports nothing and leaves the buffered command as it was.
\<close>

theorem escape_resynchronises:
  assumes "keyboard_ok a" and "escape_seq a" and "esc \<notin> set bs" and "16 \<le> length bs"
  shows "\<exists>xs ys a'. bs = xs @ ys \<and> length xs \<le> 16 \<and> data_loop env (a, w) bs = data_loop env (a', w) ys \<and>
    \<not> escape_seq a' \<and> cmd_buffer a' = cmd_buffer a"
proof -
  have "\<exists>xs ys a'. bs = xs @ ys \<and> length xs \<le> n \<and> data_loop env (a, w) bs = data_loop env (a', w) ys \<and>
      \<not> escape_seq a' \<and> cmd_buffer a' = cmd_buffer a"
    if "escape_seq a" "esc \<notin> set bs" "16 \<le> escape_len a + n" "0 < n" "n \<le> length bs" for n bs a
    using that
  proof (induction n arbitrary: a bs)
    case (Suc n)
    obtain b bs' where bs: "bs = b # bs'" using Suc.prems(5) by (cases bs) simp_all
    obtain a1 where a1: "escape_byte b (a, w) = (a1, w)" "escape_len a1 = escape_len a + 1" "cmd_buffer a1 = cmd_buffer a"
      "escape_seq a1 \<Longrightarrow> escape_len a + 1 < 16"
      by (simp add: escape_byte_def MAX_ESCAPE_SEQ_LEN_def Let_def)
    have step: "data_loop env (a, w) bs = data_loop env (a1, w) bs'"
      using Suc.prems(1,2) a1(1) by (auto simp: bs byte_step_def)
    show ?case
    proof (cases "escape_seq a1")
      case False
      then show ?thesis using step a1(3) bs by (intro exI [of _ "[b]"] exI [of _ bs'] exI [of _ a1]) simp
    next
      case True
      then have "\<exists>xs ys a'. bs' = xs @ ys \<and> length xs \<le> n \<and> data_loop env (a1, w) bs' = data_loop env (a', w) ys \<and>
          \<not> escape_seq a' \<and> cmd_buffer a' = cmd_buffer a1"
        using Suc.prems a1(2,4) bs by (intro Suc.IH) auto
      then obtain xs ys a' where "bs' = xs @ ys" "length xs \<le> n" "data_loop env (a1, w) bs' = data_loop env (a', w) ys"
        "\<not> escape_seq a'" "cmd_buffer a' = cmd_buffer a1" by blast
      then show ?thesis
        using step a1(3) bs by (intro exI [of _ "b # xs"] exI [of _ ys] exI [of _ a']) simp
    qed
  qed simp
  from this [of a bs 16] show ?thesis using assms by simp
qed

theorem escape_resynchronises_witness:
  "\<exists>xs ys a'. replicate 20 (CHR '';'') = xs @ ys \<and> length xs \<le> 16 \<and>
     data_loop demo_env (demo_session\<lparr>escape_seq := True\<rparr>, demo_world) (replicate 20 (CHR '';'')) =
       data_loop demo_env (a', demo_world) ys \<and> \<not> escape_seq a' \<and> cmd_buffer a' = ''''"
proof -
  have k: "keyboard_ok (demo_session\<lparr>escape_seq := True\<rparr>)"
    by (simp add: keyboard_ok_def demo_session_def MAX_COMMAND_LEN_def MAX_ESCAPE_SEQ_LEN_def)
  have b: "cmd_buffer (demo_session\<lparr>escape_seq := True\<rparr>) = ''''" by (simp add: demo_session_def)
  have "esc \<notin> set (replicate 20 (CHR '';''))" "16 \<le> length (replicate 20 (CHR '';''))" by simp_all
  from escape_resynchronises [OF k _ this, of demo_env demo_world, unfolded b] show ?thesis by simp
qed

text \<open>
  Claim C37: ctrl-D at an empty prompt closes the channel and ends the session, but the bytes after it in
  the same packet are still processed, on a session whose sandbox has been dismantled.
\<close>

theorem ctrl_d_keeps_reading:
  assumes "\<forall>i. env_peer_ok env i" and "cmd_buffer a = ''''" and "\<not> escape_seq a"
  shows "\<exists>a' w'. data_loop env (a, w) (CHR 0x04 # bs) = data_loop env (a', w') bs \<and> is_ended a' \<and>
    (is_ended a \<or> as_sandbox a' = None) \<and> wclosed w'"
proof -
  obtain s1 where s1: "send_output env (''logout'' @ crlf) (set_last (CHR 0x04) (a, w)) = (True, s1)"
    "displays (set_last (CHR 0x04) (a, w)) (''logout'' @ crlf) s1"
    using send_output_ok [OF assms(1)] by blast
  obtain a1 w1 where p: "s1 = (a1, w1)" by (cases s1)
  define w2 where "w2 = w1\<lparr>wclosed := True, wwrites := Suc (wwrites w1)\<rparr>"
  let ?s = "teardown_session env (a1, w2)"
  have "data_loop env (a, w) (CHR 0x04 # bs) = data_loop env ?s bs"
    using assms s1(1) by (simp add: byte_step_def logout_def chan_close_def or_fail_def Let_def p flip: w2_def)
  moreover have "is_ended (fst ?s) \<and> (is_ended a1 \<or> as_sandbox (fst ?s) = None) \<and> wclosed (snd ?s)"
    by (auto simp: teardown_session_def rec_flush_st_def emit_def split_beta w2_def split: option.split)
  moreover have "is_ended a1 = is_ended a" using s1(2) by (simp add: displays_def core_def set_last_def p)
  ultimately show ?thesis by (intro exI [of _ "fst ?s"] exI [of _ "snd ?s"]) simp
qed

theorem ctrl_d_keeps_reading_witness:
  "\<exists>a' w'. data_loop demo_env (demo_session, demo_world) (CHR 0x04 # ''id'' @ [cr]) =
     data_loop demo_env (a', w') (''id'' @ [cr]) \<and> is_ended a' \<and> wclosed w'"
  using ctrl_d_keeps_reading [of demo_env demo_session demo_world "''id'' @ [cr]"]
  by (simp add: demo_env_def demo_session_def) blast

section \<open>Offline sessions\<close>

text \<open>Exchanging the network of an environment: nothing but a fetch can tell the difference.\<close>

definition other_net :: "resolver \<Rightarrow> http_client \<Rightarrow> session_env \<Rightarrow> session_env" where
  "other_net dns http env = env\<lparr>env_dns := dns, env_http := http\<rparr>"

lemma other_net_fields [simp]:
  "env_config (other_net r h env) = env_config env" "env_engine (other_net r h env) = env_engine env"
  "env_kernel (other_net r h env) = env_kernel env" "env_sha (other_net r h env) = env_sha env"
  "env_find_iter (other_net r h env) = env_find_iter env" "env_is_match (other_net r h env) = env_is_match env"
  "env_rec_json (other_net r h env) = env_rec_json env" "env_geoip (other_net r h env) = env_geoip env"
  "env_rx_open (other_net r h env) = env_rx_open env" "env_peer_ok (other_net r h env) = env_peer_ok env"
  "env_date (other_net r h env) = env_date env" "env_now (other_net r h env) = env_now env"
  "env_mono (other_net r h env) = env_mono env"
  by (simp_all add: other_net_def)

lemma other_net_effects [simp]:
  "emit (other_net r h env) = emit env" "chan_write (other_net r h env) = chan_write env"
  "chan_close (other_net r h env) = chan_close env" "rec_out (other_net r h env) = rec_out env"
  "rec_in (other_net r h env) = rec_in env" "finish_env (other_net r h env) = finish_env env"
  "end_event (other_net r h env) = end_event env" "command_event (other_net r h env) = command_event env"
  "start_event (other_net r h env) = start_event env" "credential_event (other_net r h env) = credential_event env"
  by (simp_all add: fun_eq_iff emit_def chan_write_def chan_close_def rec_out_def rec_in_def finish_env_def
      end_event_def command_event_def start_event_def credential_event_def)

lemma other_net_output [simp]:
  "send_output (other_net r h env) = send_output env"
  "teardown_session (other_net r h env) = teardown_session env"
  by (simp_all add: fun_eq_iff send_output_def teardown_session_def split: prod.split option.split)

lemma other_net_prompt [simp]:
  "send_prompt (other_net r h env) = send_prompt env" "logout (other_net r h env) = logout env"
  by (simp_all add: fun_eq_iff send_prompt_def logout_def)

lemma other_net_data:
  assumes "\<not> fetch_payloads (forensics_cfg (env_config env))"
  shows "data_loop (other_net r h env) s bs = data_loop env s bs"
proof -
  have "run_command (other_net r h env) cmd s = run_command env cmd s" for cmd s
    using assms by (simp add: run_command_def Let_def split: prod.split)
  then have rl: "run_line (other_net r h env) = run_line env"
    by (simp add: fun_eq_iff run_line_def Let_def split: option.split)
  have "byte_step (other_net r h env) = byte_step env"
    by (intro ext) (simp add: byte_step_def enter_key_def Let_def rl cong: if_cong)
  then show ?thesis by (induction bs arbitrary: s) (simp_all split: prod.split flow.split)
qed

text \<open>
  Claim C14: with payload fetching switched off a session never uses the network: whatever resolver and
  whatever servers are out there, every run of callbacks has the same outcome, down to the last byte
  sent, event emitted and file written.
\<close>

theorem fetching_off_is_offline:
  assumes "\<forall>(env, cb)\<in>set calls. \<not> fetch_payloads (forensics_cfg (env_config env))"
  shows "session_run s (map (\<lambda>(env, cb). (other_net dns http env, cb)) calls) = session_run s calls"
  using assms
proof (induction calls arbitrary: s)
  case (Cons c calls)
  obtain env cb where c: "c = (env, cb)" by (cases c)
  have "session_call (other_net dns http env) s cb = session_call env s cb"
    using Cons.prems by (cases cb) (simp_all add: c other_net_data auth_password_def auth_publickey_def
        shell_request_def channel_close_def)
  then show ?case using Cons by (simp add: session_run_def step_call_def c)
qed simp

theorem fetching_off_is_offline_witness:
  "session_run (demo_session, demo_world)
     [(other_net (\<lambda>h p. Inr []) (\<lambda>t h u. None)
         (demo_env\<lparr>env_config := AegisConfig_default\<lparr>forensics_cfg :=
            (forensics_cfg AegisConfig_default)\<lparr>fetch_payloads := False\<rparr>\<rparr>\<rparr>), Data ''wget http://x'')] =
   session_run (demo_session, demo_world)
     [(demo_env\<lparr>env_config := AegisConfig_default\<lparr>forensics_cfg :=
         (forensics_cfg AegisConfig_default)\<lparr>fetch_payloads := False\<rparr>\<rparr>\<rparr>, Data ''wget http://x'')]"
  using fetching_off_is_offline [of "[(demo_env\<lparr>env_config := AegisConfig_default\<lparr>forensics_cfg :=
         (forensics_cfg AegisConfig_default)\<lparr>fetch_payloads := False\<rparr>\<rparr>\<rparr>, Data ''wget http://x'')]"
       "(demo_session, demo_world)" "\<lambda>h p. Inr []" "\<lambda>t h u. None"]
  by simp

end
