(* ===== verification/Server.thy ===== *)
theory Server
  imports Session_Run
begin

text \<open>
  The server around the sessions (\<^verbatim>\<open>AegisServer\<close> and the \<^verbatim>\<open>Drop\<close> of a session in
  \<^verbatim>\<open>crates/aegis-gateway/src/handler.rs\<close>): clients come, their sessions run callbacks in any order, and
  they are dropped. Every slot taken at admission is given back exactly once, and a session that got
  its own overlay stays in it.
\<close>

section \<open>The server as a step system\<close>

record server_world =
  sw_server :: AegisServer
  sw_disk :: disk
  sw_events :: "TelemetryEvent list"
  sw_live :: "ActiveSession list"

datatype server_op =
    New_client session_env admission_env "SocketAddr option"
  | Callback nat session_env callback
  | Dropped nat session_env bool

definition world_of :: "server_world \<Rightarrow> world" where
  "world_of sw = \<lparr>wdisk = sw_disk sw, wevents = sw_events sw, wterm = [], wwrites = 0, wclosed = False\<rparr>"

fun server_step :: "server_world \<Rightarrow> server_op \<Rightarrow> server_world" where
  "server_step sw (New_client env adm peer) =
     (case new_client env adm (sw_server sw) (sw_disk sw) peer of
        (Active a, srv, d) \<Rightarrow> sw\<lparr>sw_server := srv, sw_disk := d, sw_live := sw_live sw @ [a]\<rparr>
      | (Rejected, srv, d) \<Rightarrow> sw\<lparr>sw_server := srv, sw_disk := d\<rparr>)"
| "server_step sw (Callback i env cb) =
     (if i < length (sw_live sw)
      then case session_call env (sw_live sw ! i, world_of sw) cb of (a, w) \<Rightarrow>
             sw\<lparr>sw_disk := wdisk w, sw_events := wevents w, sw_live := (sw_live sw)[i := a]\<rparr>
      else sw)"
| "server_step sw (Dropped i env runtime) =
     (if i < length (sw_live sw)
      then case session_drop env runtime (sw_server sw) (sw_live sw ! i, world_of sw) of (srv, w) \<Rightarrow>
             sw\<lparr>sw_server := srv, sw_disk := wdisk w, sw_events := wevents w,
                sw_live := take i (sw_live sw) @ drop (Suc i) (sw_live sw)\<rparr>
      else sw)"

definition server_start :: "AegisConfig \<Rightarrow> nat \<Rightarrow> disk \<Rightarrow> server_world" where
  "server_start cfg now d = \<lparr>sw_server = server_new cfg now, sw_disk = d, sw_events = [], sw_live = []\<rparr>"

section \<open>Slots\<close>

definition live_of :: "ActiveSession list \<Rightarrow> IpAddr \<Rightarrow> nat" where
  "live_of ss k = length (filter (\<lambda>a. admission_key (client_ip (as_meta a)) = k) ss)"

definition slots_ok :: "AegisConfig \<Rightarrow> server_world \<Rightarrow> bool" where
  "slots_ok cfg sw \<longleftrightarrow>
     (let g = ip_guard (sw_server sw); lim = max_sessions_per_ip (gateway cfg)
      in session_semaphore (sw_server sw) + length (sw_live sw) = max (max_sessions (gateway cfg)) 1 \<and>
         guard_inv g \<and> max_per_ip g = lim \<and>
         (0 < lim \<longrightarrow> (\<forall>k. active_of g k = live_of (sw_live sw) k \<and> live_of (sw_live sw) k \<le> unat lim)))"

lemma live_of_simps [simp]:
  "live_of [] k = 0"
  "live_of (xs @ ys) k = live_of xs k + live_of ys k"
  "live_of (a # xs) k = (if admission_key (client_ip (as_meta a)) = k then 1 else 0) + live_of xs k"
  by (simp_all add: live_of_def)

lemma live_of_update:
  assumes "i < length ss" and "as_meta a = as_meta (ss ! i)"
  shows "live_of (ss[i := a]) k = live_of ss k"
proof -
  have "live_of ss k = live_of (take i ss @ ss ! i # drop (Suc i) ss) k"
    using id_take_nth_drop [OF assms(1)] by simp
  then show ?thesis using assms by (simp add: upd_conv_take_nth_drop)
qed

lemma live_of_remove:
  assumes "i < length ss"
  shows "live_of ss k = live_of (take i ss @ drop (Suc i) ss) k +
    (if admission_key (client_ip (as_meta (ss ! i))) = k then 1 else 0)"
proof -
  have "live_of ss k = live_of (take i ss @ ss ! i # drop (Suc i) ss) k"
    using id_take_nth_drop [OF assms] by simp
  then show ?thesis by simp
qed

text \<open>Admission either changes nothing but the guard, or takes one slot and one permit.\<close>

lemma new_client_slots:
  assumes "new_client env adm srv d peer = (h, srv', d')"
  obtains
    (rejected) g ip where "h = Rejected" "srv' = srv\<lparr>ip_guard := g\<rparr>"
      "try_admit (ip_guard srv) (env_mono env) ip = (False, g)"
  | (returned) g ip where "h = Rejected" "srv' = srv\<lparr>ip_guard := release g ip\<rparr>"
      "try_admit (ip_guard srv) (env_mono env) ip = (True, g)"
  | (admitted) a g where "h = Active a" "srv' = srv\<lparr>ip_guard := g, session_semaphore := session_semaphore srv - 1\<rparr>"
      "try_admit (ip_guard srv) (env_mono env) (client_ip (as_meta a)) = (True, g)" "session_semaphore srv \<noteq> 0"
      "fresh a"
  using assms
  by (auto simp: new_client_def Let_def SessionMeta_new_def fresh_def split: prod.splits bool.splits sum.splits if_splits)

lemma release_taken:
  assumes "guard_inv g" and "0 < max_per_ip g" and "try_admit g now ip = (True, g')"
  shows "active_of (release g' ip) k = active_of g k"
  using try_admit_used(1) [OF assms, of k] by (auto simp: release_entry)

lemma step_new_client:
  assumes "slots_ok cfg sw"
  shows "slots_ok cfg (server_step sw (New_client env adm peer))"
proof -
  obtain h srv d where n: "new_client env adm (sw_server sw) (sw_disk sw) peer = (h, srv, d)" by (metis prod_cases3)
  let ?g = "ip_guard (sw_server sw)"
  have inv: "guard_inv ?g" and lim: "max_per_ip ?g = max_sessions_per_ip (gateway cfg)"
    using assms by (simp_all add: slots_ok_def Let_def)
  from n show ?thesis
  proof (cases rule: new_client_slots)
    case (rejected g ip)
    then show ?thesis
      using assms n try_admit_inv [OF inv rejected(3)] try_admit_limits [OF rejected(3)] try_admit_used(1) [OF inv _ rejected(3)]
      by (simp add: slots_ok_def Let_def)
  next
    case (returned g ip)
    have "active_of (release g ip) k = active_of ?g k" if "0 < max_per_ip ?g" for k
      using release_taken [OF inv that returned(3)] .
    then show ?thesis
      using assms n returned(1,2) release_inv [OF try_admit_inv [OF inv returned(3)]] try_admit_limits [OF returned(3)]
      by (simp add: slots_ok_def Let_def release_limits)
  next
    case (admitted a g)
    then show ?thesis
      using assms n try_admit_inv [OF inv admitted(3)] try_admit_limits [OF admitted(3)]
        try_admit_used [OF inv _ admitted(3)]
      by (auto simp: slots_ok_def Let_def eq_commute [of "admission_key _"] Suc_le_eq)
  qed
qed

lemma session_call_meta: "as_meta (fst (session_call env s cb)) = as_meta (fst s)"
  using charging.R_call [of env s cb] by (auto simp: charge_def Let_def split: prod.splits)

lemma step_callback:
  assumes "slots_ok cfg sw"
  shows "slots_ok cfg (server_step sw (Callback i env cb))"
  using assms session_call_meta [of env "(sw_live sw ! i, world_of sw)" cb]
  by (auto simp: slots_ok_def Let_def live_of_update split: prod.split)

lemma step_dropped:
  assumes "slots_ok cfg sw"
  shows "slots_ok cfg (server_step sw (Dropped i env runtime))"
proof (cases "i < length (sw_live sw)")
  case True
  let ?ss = "sw_live sw" and ?a = "sw_live sw ! i" and ?g = "ip_guard (sw_server sw)"
  have srv: "fst (session_drop env runtime (sw_server sw) (?a, world_of sw)) =
      (sw_server sw)\<lparr>ip_guard := release ?g (client_ip (as_meta ?a)), session_semaphore := Suc (session_semaphore (sw_server sw))\<rparr>"
    by (simp add: session_drop_def)
  have "active_of (release ?g (client_ip (as_meta ?a))) k = live_of (take i ?ss @ drop (Suc i) ?ss) k \<and>
      live_of (take i ?ss @ drop (Suc i) ?ss) k \<le> unat (max_sessions_per_ip (gateway cfg))"
    if "0 < max_sessions_per_ip (gateway cfg)" for k
  proof -
    have "active_of ?g k = live_of ?ss k" "live_of ?ss k \<le> unat (max_sessions_per_ip (gateway cfg))"
      using assms that by (simp_all add: slots_ok_def Let_def)
    then show ?thesis
      using live_of_remove [OF True, of k] unfolding release_entry(1) by (auto split: if_splits)
  qed
  then show ?thesis
    using assms True srv release_inv
    by (auto simp: slots_ok_def Let_def release_limits min_def split: prod.split)
qed (use assms in simp)

interpretation server: step_system server_step "slots_ok cfg" "\<lambda>_. True" for cfg
proof (unfold_locales, goal_cases)
  case (1 sw op)
  then show ?case by (cases op) (simp_all only: step_new_client step_callback step_dropped)
qed

lemma server_start_ok: "slots_ok cfg (server_start cfg now d)"
  by (simp add: slots_ok_def server_start_def server_new_def Let_def new_guard_inv active_of_def entry_or_new_def
      new_entry_def)

text \<open>
  Claim C7: whatever clients come and go and whatever their sessions do, the server holds at most the
  configured number of sessions in all and, with a per-address limit, per address prefix; free permits
  and live sessions always add up to the configured number, and the guard counts exactly the live
  sessions, so no permit and no slot is ever leaked, not even by a client that was admitted and then
  turned away.
\<close>

theorem server_slots_balanced:
  "let sw = foldl server_step (server_start cfg now d) ops;
       total = max (max_sessions (gateway cfg)) 1; lim = max_sessions_per_ip (gateway cfg)
   in session_semaphore (sw_server sw) + length (sw_live sw) = total \<and>
      (lim = 0 \<or> (\<forall>k. active_of (ip_guard (sw_server sw)) k = live_of (sw_live sw) k \<and>
         live_of (sw_live sw) k \<le> unat lim))"
  using server.run_inv [OF server_start_ok [of cfg now d], of ops]
  by (auto simp: slots_ok_def Let_def list_all_iff word_gt_0)

section \<open>The places of an admitted session\<close>

text \<open>Mounting keeps the tree well-formed and the mount point a directory.\<close>

definition mount_law :: "kernel \<Rightarrow> bool" where
  "mount_law k \<longleftrightarrow>
     (\<forall>opts p d d'. k_mount k opts p d = Some d' \<longrightarrow> disk_wf d \<longrightarrow> is_dir d p \<longrightarrow> disk_wf d' \<and> is_dir d' p)"

lemma make_dir_dirs:
  assumes "disk_wf d" and "make_dir d p = (r, d')"
  shows "disk_wf d'" and "is_dir d q \<Longrightarrow> is_dir d' q" and "r = Inr () \<Longrightarrow> is_dir d' p"
proof -
  have *: "disk_wf d' \<and> (is_dir d q \<longrightarrow> is_dir d' q) \<and> (r = Inr () \<longrightarrow> is_dir d' p)"
  proof (cases "fs_create_dir_all d p")
    case None
    then show ?thesis using assms by (auto simp: make_dir_def)
  next
    case (Some x)
    note l = create_dir_all_lookup [OF assms(1) Some]
    have "\<not> is_file d p" using create_dir_all_iff [OF assms(1), of p] Some by blast
    then show ?thesis
      using l(1) l(2) [of p] l(2) [of q] assms(2) Some
      by (auto simp: make_dir_def is_dir_def is_file_def split: if_splits option.splits dentry.splits)
  qed
  then show "disk_wf d'" and "is_dir d q \<Longrightarrow> is_dir d' q" and "r = Inr () \<Longrightarrow> is_dir d' p" by blast+
qed

lemma try_each_wf:
  assumes "\<And>d x. x \<in> set xs \<Longrightarrow> disk_wf d \<Longrightarrow> disk_wf (snd (f d x))" and "disk_wf d"
  shows "disk_wf (snd (try_each f d xs))"
  using assms
proof (induction xs arbitrary: d)
  case (Cons x xs)
  obtain r d1 where r: "f d x = (r, d1)" by (cases "f d x")
  then have "disk_wf d1" using Cons.prems(1) [of x d] Cons.prems(2) by simp
  then have "disk_wf (snd (try_each f d1 xs))" using Cons.IH Cons.prems(1) by simp
  then show ?case using r \<open>disk_wf d1\<close> by (cases r) simp_all
qed simp

lemma make_dirs:
  assumes "disk_wf d" and "try_each make_dir d ps = (Inr u, d')"
  shows "disk_wf d' \<and> (\<forall>p\<in>set ps. is_dir d' p) \<and> (\<forall>q. is_dir d q \<longrightarrow> is_dir d' q)"
  using assms
proof (induction ps arbitrary: d)
  case (Cons p ps)
  obtain r d1 where r: "make_dir d p = (r, d1)" by (cases "make_dir d p")
  then obtain v where v: "r = Inr v" "try_each make_dir d1 ps = (Inr u, d')"
    using Cons.prems(2) by (cases r) simp_all
  note m = make_dir_dirs [OF Cons.prems(1) r]
  show ?case using Cons.IH [OF m(1) v(2)] m(2,3) v(1) by auto
qed simp

lemma chmod_wf: "disk_wf d \<Longrightarrow> disk_wf (ignore (fs_set_permissions m) d p)"
  using set_permissions.ignore_wf [of d p m] by (cases "p = []") (auto simp: ignore_def fs_set_permissions_def)

lemma rootfs_write_wf:
  assumes "disk_wf d" and "p \<noteq> []"
  shows "disk_wf (snd (rootfs_write_file d p c m))"
proof (cases "fs_create_dir_all d (butlast p)")
  case None
  then show ?thesis using assms by (simp add: rootfs_write_file_def path_parent_def)
next
  case (Some d0)
  define d1 where "d1 = (if path_exists d0 p then ignore (fs_set_permissions 420) d0 p else d0)"
  have wf: "disk_wf d1" using chmod_wf create_dir_all_lookup(1) [OF assms(1) Some] by (simp add: d1_def)
  have "disk_wf d2" if "fs_write c d1 p = Some d2" for d2
    using write_file.upd_wf [OF wf assms(2) that] .
  then show ?thesis
    using assms(2) wf chmod_wf
    by (simp add: rootfs_write_file_def path_parent_def Some Let_def flip: d1_def split: option.split)
qed

lemma ensure_golden_wf:
  assumes "disk_wf d"
  shows "disk_wf (snd (ensure_golden_rootfs d base))"
proof -
  have wr: "disk_wf (snd (rootfs_write_file x (base @ F) c m))"
    if "disk_wf x" "(F, c, m) \<in> set golden_all" for x F c m
    using rootfs_write_wf [OF that(1)] golden_parent(2) [OF that(2)] by simp
  have "disk_wf (snd (try_each (\<lambda>d p. make_dir d (base @ p)) d golden_dirs))"
    by (rule try_each_wf [OF _ assms]) (metis make_dir_dirs(1) prod.collapse)
  moreover have "disk_wf (snd (try_each (\<lambda>d (p, c, m). rootfs_write_file d (base @ p) c m) x golden_all))"
    if "disk_wf x" for x
    by (rule try_each_wf [OF _ that]) (auto simp: wr)
  ultimately show ?thesis
    using chmod_wf by (auto simp: ensure_golden_rootfs_def Let_def split: prod.split sum.split)
qed

lemma overlay_setup_dirs:
  assumes "disk_wf d" and "mount_law k" and "overlay_setup k canon d sid lower obase = (Inr om, d')"
  shows "disk_wf d' \<and> is_dir d' (if is_mounted om then mount_point om else upper_dir om)"
proof -
  let ?s = "obase @ [''session_'' @ sid]"
  obtain r d1 where t: "try_each make_dir d [?s, ?s @ [''upper''], ?s @ [''work''], ?s @ [''mount'']] = (r, d1)"
    by (cases "try_each make_dir d [?s, ?s @ [''upper''], ?s @ [''work''], ?s @ [''mount'']]")
  obtain u where r: "r = Inr u" using assms(3) t by (cases r) (simp_all add: overlay_setup_def Let_def del: try_each.simps)
  note m = make_dirs [OF assms(1) t [unfolded r]]
  have "disk_wf d2 \<and> is_dir d2 (?s @ [''mount''])" if "k_mount k o' (?s @ [''mount'']) d1 = Some d2" for o' d2
    using assms(2) that m unfolding mount_law_def by (meson list.set_intros)
  then show ?thesis
    using assms(3) t r m by (auto simp: overlay_setup_def Let_def simp del: try_each.simps split: option.splits)
qed

lemma recorder_open_wf:
  assumes "disk_wf d" and "recorder_open hj ts now d (p @ [n]) sid = (Inr r, d')"
  shows "disk_wf d'"
proof -
  obtain d0 d1 where "fs_create_dir_all d p = Some d0" and d1: "fs_open_with SENSITIVE_MODE (\<lambda>_. []) d0 (p @ [n]) = Some d1"
    and d': "d' = ignore (fs_append (hj ts (recorder_title sid) @ nl))
               (ignore (fs_set_permissions SENSITIVE_MODE) d1 (p @ [n])) (p @ [n])"
    using assms(2) by (auto simp: recorder_open_def path_parent_def Let_def split: option.splits)
  then have "disk_wf d1" using assms(1) create_dir_all_lookup(1) open_with.upd_wf [OF _ _ d1] by simp
  then show ?thesis by (simp add: d' set_permissions.ignore_wf append_file.ignore_wf)
qed

text \<open>A new session with an overlay of its own runs in its places.\<close>

definition session_home :: "AegisConfig \<Rightarrow> ActiveSession \<Rightarrow> path" where
  "session_home cfg a = overlay_base (vmm cfg) @ [''session_'' @ session_id (as_meta a)]"

definition cast_file :: "AegisConfig \<Rightarrow> ActiveSession \<Rightarrow> path" where
  "cast_file cfg a = sessions_dir (forensics_cfg cfg) @ [session_id (as_meta a) @ ''.cast'']"

definition has_overlay :: "ActiveSession \<Rightarrow> bool" where
  "has_overlay a \<longleftrightarrow> (case as_sandbox a of Some sb \<Rightarrow> sb_overlay sb \<noteq> None | None \<Rightarrow> False)"

lemma new_client_parts:
  assumes "new_client env adm srv d peer = (Active a, srv', d')"
  shows "as_vfs a = with_roots (map_option root_dir (as_sandbox a)) (Some (rootfs_path (vmm (env_config env))))"
    and "rec_path (as_recorder a) = cast_file (env_config env) a"
    and "\<exists>hj ts d1 res. recorder_open hj ts (env_mono env) d (cast_file (env_config env) a) (session_id (as_meta a)) =
           (Inr (as_recorder a), d1) \<and>
         spawn_sandbox (env_kernel env) (adm_canonicalize adm) d1 (as_meta a) (rootfs_path (vmm (env_config env)))
           (overlay_base (vmm (env_config env))) = (res, d') \<and>
         as_sandbox a = (case res of Inr sb \<Rightarrow> Some sb | Inl _ \<Rightarrow> None)"
proof -
  obtain hj ts now d1 res where *:
    "recorder_open hj ts (env_mono env) d (cast_file (env_config env) a) (session_id (as_meta a)) = (Inr (as_recorder a), d1)"
    "spawn_sandbox (env_kernel env) (adm_canonicalize adm) d1 (as_meta a) (rootfs_path (vmm (env_config env)))
       (overlay_base (vmm (env_config env))) = (res, d')"
    "as_sandbox a = (case res of Inr sb \<Rightarrow> Some sb | Inl _ \<Rightarrow> None)"
    "as_vfs a = with_roots (map_option root_dir (as_sandbox a)) (Some (rootfs_path (vmm (env_config env))))"
    using assms by (auto simp: new_client_def Let_def cast_file_def split: prod.splits bool.splits sum.splits if_splits)
  then show "as_vfs a = with_roots (map_option root_dir (as_sandbox a)) (Some (rootfs_path (vmm (env_config env))))"
    and "\<exists>hj ts d1 res. recorder_open hj ts (env_mono env) d (cast_file (env_config env) a) (session_id (as_meta a)) =
           (Inr (as_recorder a), d1) \<and>
         spawn_sandbox (env_kernel env) (adm_canonicalize adm) d1 (as_meta a) (rootfs_path (vmm (env_config env)))
           (overlay_base (vmm (env_config env))) = (res, d') \<and>
         as_sandbox a = (case res of Inr sb \<Rightarrow> Some sb | Inl _ \<Rightarrow> None)"
    by blast+
  show "rec_path (as_recorder a) = cast_file (env_config env) a" using recorder_open_recording(4) [OF *(1)] .
qed

lemma new_client_in_places:
  assumes "disk_wf d" and "mount_law (env_kernel env)" and "new_client env adm srv d peer = (Active a, srv', d')"
    and "has_overlay a" and "wdisk w = d'"
  obtains m where "prefix (session_home (env_config env) a) m" and "m \<noteq> session_home (env_config env) a"
    and "in_places \<lparr>pl_mount = Some m, pl_quarantine = qd, pl_cast = cast_file (env_config env) a\<rparr> (a, w)"
proof -
  note parts = new_client_parts [OF assms(3)]
  obtain sb om where sb: "as_sandbox a = Some sb" "sb_overlay sb = Some om"
    using assms(4) by (auto simp: has_overlay_def split: option.splits)
  obtain hj ts d1 res where
    r: "recorder_open hj ts (env_mono env) d (cast_file (env_config env) a) (session_id (as_meta a)) = (Inr (as_recorder a), d1)"
    and sp': "spawn_sandbox (env_kernel env) (adm_canonicalize adm) d1 (as_meta a) (rootfs_path (vmm (env_config env)))
       (overlay_base (vmm (env_config env))) = (res, d')" "as_sandbox a = (case res of Inr sb \<Rightarrow> Some sb | Inl _ \<Rightarrow> None)"
    using parts(3) by blast
  have sp: "spawn_sandbox (env_kernel env) (adm_canonicalize adm) d1 (as_meta a) (rootfs_path (vmm (env_config env)))
       (overlay_base (vmm (env_config env))) = (Inr sb, d')"
    using sp' sb(1) by (cases res) simp_all
  have wf1: "disk_wf d1" using recorder_open_wf [OF assms(1)] r by (simp add: cast_file_def)
  obtain u d2 where g: "ensure_golden_rootfs d1 (rootfs_path (vmm (env_config env))) = (Inr u, d2)"
    and o2: "overlay_setup (env_kernel env) (adm_canonicalize adm) d2 (session_id (as_meta a))
       (rootfs_path (vmm (env_config env))) (overlay_base (vmm (env_config env))) = (Inr om, d')"
    using sp sb(2) by (auto simp: spawn_sandbox_def split: prod.splits sum.splits)
  have "disk_wf d2" using ensure_golden_wf [OF wf1, of "rootfs_path (vmm (env_config env))"] g by simp
  from overlay_setup_dirs [OF this assms(2) o2] spawn_sandbox_root(2) [OF sp sb(2)]
  have d': "disk_wf d' \<and> is_dir d' (root_dir sb)" by simp
  have "root_dir sb = session_home (env_config env) a @ [''mount''] \<or> root_dir sb = session_home (env_config env) a @ [''upper'']"
    using spawn_sandbox_root [OF sp sb(2)] by (auto simp: overlay_layout_def session_home_def)
  then show ?thesis
    using d' parts(1,2) sb(1) assms(5)
    by (intro that [of "root_dir sb"])
       (auto simp: in_places_def with_roots_def vfs_inv_def disk_component_iff)
qed

text \<open>
  Claim C1: a newly admitted session that has its overlay cannot touch any other session: as long as it is
  live, no sequence of callbacks changes anything outside its own session directory, the quarantine
  directory and its own recording, and in particular nothing below any other session's directory.
  The quarantine and recording directories must not lie inside each other's way or the overlay base.
\<close>

theorem admitted_session_isolated:
  assumes "disk_wf d" and "mount_law (env_kernel env)" and "new_client env adm srv d peer = (Active a, srv', d')"
    and "has_overlay a" and "wdisk w = d'"
    and "unrelated (quarantine_dir (forensics_cfg (env_config env))) (overlay_base (vmm (env_config env)))"
    and "unrelated (sessions_dir (forensics_cfg (env_config env))) (overlay_base (vmm (env_config env)))"
    and "\<forall>(env', cb)\<in>set calls. env_config env' = env_config env"
    and "\<not> is_ended (fst (session_run (a, w) calls))"
  shows "(\<forall>q. \<not> prefix (session_home (env_config env) a) q \<and>
        \<not> prefix (quarantine_dir (forensics_cfg (env_config env))) q \<and> q \<noteq> cast_file (env_config env) a \<longrightarrow>
      dlookup (wdisk (snd (session_run (a, w) calls))) q = dlookup d' q) \<and>
    (\<forall>sid r. sid \<noteq> session_id (as_meta a) \<longrightarrow>
      dlookup (wdisk (snd (session_run (a, w) calls))) (overlay_base (vmm (env_config env)) @ (''session_'' @ sid) # r) =
      dlookup d' (overlay_base (vmm (env_config env)) @ (''session_'' @ sid) # r))"
proof -
  let ?cfg = "env_config env"
  let ?Q = "quarantine_dir (forensics_cfg ?cfg)" and ?O = "overlay_base (vmm ?cfg)"
  obtain m where m: "prefix (session_home ?cfg a) m" "m \<noteq> session_home ?cfg a"
    and inp: "in_places \<lparr>pl_mount = Some m, pl_quarantine = ?Q, pl_cast = cast_file ?cfg a\<rparr> (a, w)"
    using new_client_in_places [OF assms(1-5)] by blast
  let ?p = "\<lparr>pl_mount = Some m, pl_quarantine = ?Q, pl_cast = cast_file ?cfg a\<rparr>"
  obtain x where x: "m = ?O @ (''session_'' @ session_id (as_meta a)) # x"
    using m(1) by (auto simp: session_home_def prefix_def)
  have cast: "cast_file ?cfg a \<noteq> ?O @ y" for y
    using unrelated_child(2) [OF assms(7)] unfolding cast_file_def by (metis prefixI)
  have outm: "outside ?p q" if "\<not> prefix (session_home ?cfg a) q" "\<not> prefix ?Q q" "q \<noteq> cast_file ?cfg a" for q
    using that m(1) by (auto simp: outside_def dest: prefix_order.less_imp_le prefix_order.trans)
  have "\<not> prefix ?Q m" using unrelated_child(1) [OF assms(6)] x by simp
  moreover have "m \<noteq> cast_file ?cfg a" using cast unfolding x by metis
  ultimately have "places_ok ?p"
    by (auto simp: places_ok_def outside_def cast_file_def dest: prefix_order.less_imp_le)
  then have "keeps_to ?p (a, w) (session_run (a, w) calls)"
    using kept.run_inv [of ?p "(a, w)" "(a, w)" calls] assms(8) keeps_to_same [of "(a, w)" "(a, w)" ?p]
    by (auto simp: session_run_def list_all_iff case_prod_beta)
  then have same: "dlookup (wdisk (snd (session_run (a, w) calls))) q = dlookup d' q" if "outside ?p q" for q
    using inp assms(5,9) that by (simp add: keeps_to_def)
  have "outside ?p (?O @ (''session_'' @ sid) # r)" if "sid \<noteq> session_id (as_meta a)" for sid r
    using that cast unrelated_child(1) [OF assms(6)]
    by (intro outm) (auto simp: session_home_def, metis)
  then show ?thesis using same outm by blast
qed

section \<open>A concrete client\<close>

lemma make_dirs_ok:
  assumes "disk_wf d" and "\<forall>p\<in>set ps. \<forall>q. prefix q p \<longrightarrow> \<not> is_file d q"
  shows "\<exists>d'. try_each make_dir d ps = (Inr (), d')"
  using assms
proof (induction ps arbitrary: d)
  case (Cons p ps)
  obtain d1 where d1: "fs_create_dir_all d p = Some d1"
    using create_dir_all_iff [OF Cons.prems(1), of p] Cons.prems(2) by auto
  note l = create_dir_all_lookup [OF Cons.prems(1) d1]
  have "is_file d1 q \<longleftrightarrow> is_file d q" for q by (simp add: is_file_def l(2))
  then obtain d' where "try_each make_dir d1 ps = (Inr (), d')" using Cons.IH [OF l(1)] Cons.prems(2) by auto
  moreover have "make_dir d p = (Inr (), d1)" by (simp add: make_dir_def d1)
  ultimately show ?case by simp
qed simp

lemma overlay_setup_ok:
  assumes "disk_wf d" and "\<And>q. prefix q obase \<or> prefix obase q \<Longrightarrow> \<not> is_file d q"
  shows "\<exists>om d'. overlay_setup k canon d sid lower obase = (Inr om, d')"
proof -
  let ?s = "obase @ [''session_'' @ sid]"
  have "\<not> is_file d q" if "prefix q (obase @ x)" for q x
    using assms(2) [of q] prefix_same_cases [OF that prefixI [OF refl]] by blast
  then obtain d1 where "try_each make_dir d [?s, ?s @ [''upper''], ?s @ [''work''], ?s @ [''mount'']] = (Inr (), d1)"
    using make_dirs_ok [OF assms(1), of "[?s, ?s @ [''upper''], ?s @ [''work''], ?s @ [''mount'']]"] by auto
  then show ?thesis by (simp add: overlay_setup_def Let_def del: try_each.simps)
qed

definition demo_admission :: admission_env where
  "demo_admission = \<lparr>adm_canonicalize = (\<lambda>p. None), adm_header_json = (\<lambda>t s. ''{}''), adm_unix_ts = 0, adm_uuid = ''u''\<rparr>"

definition demo_cast_disk :: disk where
  "demo_cast_disk =
     \<lparr>dentries = [([''sessions''], DDir 493), ([''sessions'', ''u.cast''], DFile 384 (''{}'' @ nl))],
      new_file_mode = 420, new_dir_mode = 493\<rparr>"

lemma demo_recorder:
  "\<exists>r. recorder_open (\<lambda>t s. ''{}'') 0 0 empty_disk [''sessions'', ''u.cast''] ''u'' = (Inr r, demo_cast_disk)"
  by (simp add: recorder_open_def empty_disk_def demo_cast_disk_def path_parent_def fs_create_dir_all_def
      fs_create_dir_def fs_open_with_def is_dir_def path_exists_def dlookup_def put_def ignore_def fs_set_permissions_def
      fs_append_def SENSITIVE_MODE_def Let_def)

lemma demo_client:
  "\<exists>a srv' d'. new_client demo_env demo_admission (server_new AegisConfig_default 0) empty_disk
     (Some \<lparr>sa_ip = V4 8 8 8 8, sa_port = 4022\<rparr>) = (Active a, srv', d') \<and> has_overlay a"
proof -
  obtain r where r: "recorder_open (\<lambda>t s. ''{}'') 0 0 empty_disk [''sessions'', ''u.cast''] ''u'' = (Inr r, demo_cast_disk)"
    using demo_recorder by blast
  have lookup: "dlookup demo_cast_disk q =
      (if q = [] \<or> q = [''sessions''] then Some (DDir 493)
       else if q = [''sessions'', ''u.cast''] then Some (DFile 384 (''{}'' @ nl)) else None)" for q
    by (simp add: demo_cast_disk_def dlookup_def)
  have "disk_wf demo_cast_disk" by (simp add: demo_cast_disk_def disk_wf_def is_dir_def dlookup_def)
  then have "provisionable [''rootfs''] demo_cast_disk"
    by (auto simp: provisionable_def is_file_def is_dir_def lookup prefix_Cons split: if_splits)
  then obtain d2 where d2: "ensure_golden_rootfs demo_cast_disk [''rootfs''] = (Inr (), d2)" "provisionable [''rootfs''] d2"
    "\<forall>q. unrelated [''rootfs''] q \<longrightarrow> dlookup d2 q = dlookup demo_cast_disk q"
    using golden_rootfs_made by blast
  have "\<not> is_file d2 q" if "prefix q [''overlay''] \<or> prefix [''overlay''] q" for q
  proof (cases "q = []")
    case False
    then have "unrelated [''rootfs''] q" using that by (auto simp: unrelated_def prefix_Cons) (auto simp: prefix_def)
    then have "dlookup d2 q = dlookup demo_cast_disk q" using d2(3) by blast
    moreover have "q \<noteq> [''sessions'', ''u.cast'']" using that by (auto simp: prefix_Cons)
    ultimately show ?thesis by (simp add: is_file_def lookup)
  qed (simp add: is_file_def dlookup_def)
  moreover have "disk_wf d2" using d2(2) by (simp add: provisionable_def)
  ultimately obtain om d' where
    "overlay_setup (env_kernel demo_env) (\<lambda>p. None) d2 ''u'' [''rootfs''] [''overlay''] = (Inr om, d')"
    using overlay_setup_ok [of d2 "[''overlay'']" "env_kernel demo_env" "\<lambda>p. None" "''u''" "[''rootfs'']"] by auto
  then have sp: "spawn_sandbox (env_kernel demo_env) (\<lambda>p. None) demo_cast_disk
      (SessionMeta_new ''u'' 0 (V4 8 8 8 8) 4022) [''rootfs''] [''overlay''] =
    (Inr \<lparr>sb_session_id = ''u'', sb_overlay = Some om, root_dir = if is_mounted om then mount_point om else upper_dir om\<rparr>, d')"
    by (simp add: spawn_sandbox_def d2(1) SessionMeta_new_def SessionId_new_def)
  obtain g where adm: "try_admit (ip_guard (server_new AegisConfig_default 0)) 0 (V4 8 8 8 8) = (True, g)"
    by (simp add: server_new_def IpConnectionGuard_new_def admission_eval AegisConfig_default_def
        default_max_sessions_per_ip_def default_max_connects_per_min_per_ip_def)
  have env: "env_mono demo_env = 0" "env_now demo_env = 0" by (simp_all add: demo_env_def)
  have cfg: "session_semaphore (server_new AegisConfig_default 0) = 256" "sessions_dir (forensics_cfg AegisConfig_default) = [''sessions'']"
    "rootfs_path (vmm AegisConfig_default) = [''rootfs'']" "overlay_base (vmm AegisConfig_default) = [''overlay'']"
    by (simp_all add: server_new_def AegisConfig_default_def)
  have sid: "session_id (SessionMeta_new ''u'' 0 (V4 8 8 8 8) 4022) = ''u''" by (simp add: SessionMeta_new_def SessionId_new_def)
  show ?thesis
    using r adm sp sid by (simp add: new_client_def Let_def demo_config env cfg demo_admission_def has_overlay_def)
qed

theorem admitted_session_isolated_witness:
  "\<exists>a srv' d' w. new_client demo_env demo_admission (server_new AegisConfig_default 0) empty_disk
      (Some \<lparr>sa_ip = V4 8 8 8 8, sa_port = 4022\<rparr>) = (Active a, srv', d') \<and> wdisk w = d' \<and>
     dlookup (wdisk (snd (session_run (a, w) [(demo_env, Shell_request)]))) [''etc'', ''passwd''] = dlookup d' [''etc'', ''passwd'']"
proof -
  obtain a srv' d' where n: "new_client demo_env demo_admission (server_new AegisConfig_default 0) empty_disk
      (Some \<lparr>sa_ip = V4 8 8 8 8, sa_port = 4022\<rparr>) = (Active a, srv', d')" and h: "has_overlay a"
    using demo_client by blast
  define w where "w = demo_world\<lparr>wdisk := d'\<rparr>"
  have "fresh a" using n by (rule new_client_slots) simp_all
  then have live: "\<not> is_ended (fst (session_run (a, w) [(demo_env, Shell_request)]))"
  proof -
    have "core (fst (session_run (a, w) [(demo_env, Shell_request)])) = core a"
      by (simp add: session_run_def step_call_def shell_request_def or_fail_def split_beta frame_simps)
    then show ?thesis using \<open>fresh a\<close> by (simp add: core_def fresh_def)
  qed
  have cfg: "mount_law (env_kernel demo_env)" "disk_wf empty_disk"
    by (simp_all add: mount_law_def demo_env_def disk_wf_def empty_disk_def)
  have "wdisk w = d'" by (simp add: w_def)
  from admitted_session_isolated [OF cfg(2,1) n h this, of "[(demo_env, Shell_request)]"] live n this
  show ?thesis
    by (auto simp: unrelated_def demo_config AegisConfig_default_def session_home_def cast_file_def)
qed

end
