(* ===== verification/Recovery.thy ===== *)
theory Recovery
  imports Vmm
begin

text \<open>
  What a restart saves of a crashed gateway: \<^const>\<open>reclaim_at_startup\<close>, the reconciliation of
  \<^verbatim>\<open>crates/aegis-gateway/src/main.rs\<close>, over all sessions the previous process left behind.
\<close>

section \<open>Disposing of one session\<close>

text \<open>A disk on which the quarantine can be created and holds only files.\<close>

definition qready :: "ForensicsEngine \<Rightarrow> disk \<Rightarrow> bool" where
  "qready eng d \<longleftrightarrow> disk_wf d \<and> (\<forall>x. prefix x (fe_quarantine_dir eng) \<longrightarrow> \<not> is_file d x) \<and>
     (\<forall>h. \<not> is_dir d (fe_quarantine_dir eng @ [h]))"


lemma qdir_ok_ready: "qdir_ok eng d \<Longrightarrow> qready eng d"
proof -
  assume ok: "qdir_ok eng d"
  have "is_dir d x" if x: "prefix x (fe_quarantine_dir eng)" for x
  proof (cases "x = fe_quarantine_dir eng")
    case False
    then obtain cs where "fe_quarantine_dir eng = x @ cs" "cs \<noteq> []" using x by (auto simp: prefix_def)
    then show ?thesis
      using disk_wf_ancestor [of d x cs] is_dir_exists ok by (auto simp: qdir_ok_def)
  qed (use ok in \<open>simp add: qdir_ok_def\<close>)
  then show "qready eng d"
    using ok is_dir_not_file by (auto simp: qready_def qdir_ok_def)
qed

lemma qready_remove:
  assumes "qready eng d" and "p \<noteq> []"
  shows "qready eng (ignore fs_remove_dir_all d p)"
  using assms remove_dir_all.ignore_wf [of d p]
  by (auto simp: qready_def is_file_def is_dir_def remove_dir_all_lookup split: if_splits)

lemma unrelated_below: "unrelated a b \<Longrightarrow> unrelated (a @ x) b"
  using unrelated_child(2) [of a b x] by (auto simp: unrelated_def dest: append_prefixD)

text \<open>One disposal, for contents \<open>C\<close> on which the hash is injective.\<close>

lemma dispose_upper_step:
  assumes ready: "qready eng d" and sdir: "sdir \<noteq> []" "unrelated sdir (fe_quarantine_dir eng)"
    and inj: "inj_on sha C"
    and C: "\<And>q m c. prefix sdir q \<Longrightarrow> dlookup d q = Some (DFile m c) \<Longrightarrow> c \<in> C"
    and run: "dispose_upper sha fi True eng now meta (d, evs) (sdir @ [''upper'']) = (d', evs')"
  shows "qready eng d'" and "set evs \<subseteq> set evs'"
    and "\<And>c. c \<in> C \<Longrightarrow> quarantined sha eng d c \<Longrightarrow> quarantined sha eng d' c"
    and "\<And>q m c. dlookup d (sdir @ ''upper'' # q) = Some (DFile m c) \<Longrightarrow> wanted eng c \<Longrightarrow>
      captured sha fi eng now meta (d', evs') c"
    and "\<And>q. unrelated (fe_quarantine_dir eng) q \<Longrightarrow>
      dlookup d' q = (if prefix sdir q \<and> is_dir d sdir then None else dlookup d q)"
proof -
  let ?Q = "fe_quarantine_dir eng" and ?up = "sdir @ [''upper'']"
  have wf: "disk_wf d" and nodir: "\<And>h. \<not> is_dir d (?Q @ [h])" using ready by (simp_all add: qready_def)
  obtain d0 where mk: "fs_create_dir_all d ?Q = Some d0"
    using create_dir_all_iff [OF wf, of ?Q] ready by (auto simp: qready_def)
  obtain r d1 evs1 where an: "analyze_upperdir sha fi True eng now meta (d, evs) ?up = (r, d1, evs1)"
    by (metis prod.collapse)
  have sep: "\<not> prefix ?Q q" if "prefix ?up q" for q
    using that unrelated_child(2) [OF sdir(2)] by (auto simp: prefix_def)
  have CU: "c \<in> C" if "prefix ?up q" "dlookup d q = Some (DFile m c)" for q m c
    using C that append_prefixD by blast
  note walk = upperdir_walk [of d eng d0 ?up sha C fi now meta evs r d1 evs1, OF wf mk nodir]
  have ok: "qdir_ok eng d1" by (rule walk(2)) (use sep inj CU an in blast)+
  have keep: "quarantined sha eng d1 c" if "c \<in> C" "quarantined sha eng d c" for c
    by (rule walk(4)) (use sep inj CU an that in blast)+
  have new: "captured sha fi eng now meta (d1, evs1) c"
    if "dlookup d (sdir @ ''upper'' # q) = Some (DFile m c)" "wanted eng c" for q m c
    by (rule walk(5) [of "sdir @ ''upper'' # q"]) (use sep inj CU an that in \<open>auto\<close>)
  have evs1: "set evs \<subseteq> set evs1" by (rule walk(3)) (use sep inj CU an in blast)+
  have d': "d' = ignore fs_remove_dir_all d1 sdir" "evs' = evs1"
    using run an by (simp_all add: dispose_upper_def path_parent_def)
  have look: "dlookup d' q = (if prefix sdir q \<and> is_dir d1 sdir then None else dlookup d1 q)" for q
    by (simp add: d' remove_dir_all_lookup sdir(1))
  have q': "quarantined sha eng d' c = quarantined sha eng d1 c" for c
    using unrelated_child(1) [OF sdir(2), of "[sha c]"] by (simp add: quarantined_def look)
  show "qready eng d'" using qready_remove [OF qdir_ok_ready [OF ok] sdir(1)] d' by simp
  show "set evs \<subseteq> set evs'" using evs1 d' by simp
  show "quarantined sha eng d' c" if "c \<in> C" "quarantined sha eng d c" for c
    using keep [OF that] q' by simp
  show "captured sha fi eng now meta (d', evs') c"
    if "dlookup d (sdir @ ''upper'' # q) = Some (DFile m c)" "wanted eng c" for q m c
    using new [OF that] q' d' by (simp add: captured_iff)
  have frame: "dlookup d1 q = dlookup d q" if "unrelated ?Q q" for q
    using analyze_upperdir_frame(1) [OF that wf, of sha fi True now meta evs ?up] an by simp
  have "unrelated ?Q sdir" using sdir(2) by (auto simp: unrelated_def)
  then have "is_dir d1 sdir = is_dir d sdir" using frame by (simp add: is_dir_def)
  then show "dlookup d' q = (if prefix sdir q \<and> is_dir d sdir then None else dlookup d q)" if "unrelated ?Q q" for q
    using frame [OF that] look by simp
qed

section \<open>Disposing of all sessions\<close>

definition session_dir_of :: "path \<Rightarrow> string \<Rightarrow> path" where
  "session_dir_of obase sid = obase @ [''session_'' @ sid]"

definition dispose_all ::
  "sha256_fn \<Rightarrow> find_iter_fn \<Rightarrow> ForensicsEngine \<Rightarrow> DateTime \<Rightarrow> (string \<times> path) list \<Rightarrow> capture_state \<Rightarrow> capture_state" where
  "dispose_all sha fi eng now orphans s =
     foldl (\<lambda>s (sid, upper). dispose_upper sha fi True eng now (orphan_meta now sid) s upper) s orphans"

lemma session_dir_prefix:
  "prefix (session_dir_of obase sid') (session_dir_of obase sid @ q) \<longleftrightarrow> sid' = sid"
  by (simp add: session_dir_of_def)

lemma dispose_session:
  assumes "qready eng d" and sep: "unrelated obase (fe_quarantine_dir eng)" and inj: "inj_on sha C"
    and C: "\<And>q m c. prefix obase q \<Longrightarrow> dlookup d q = Some (DFile m c) \<Longrightarrow> c \<in> C"
  obtains d1 evs1 where
    "dispose_upper sha fi True eng now meta (d, evs) (session_dir_of obase s @ [''upper'']) = (d1, evs1)"
    "qready eng d1" "set evs \<subseteq> set evs1"
    "\<And>c. c \<in> C \<Longrightarrow> quarantined sha eng d c \<Longrightarrow> quarantined sha eng d1 c"
    "\<And>q m c. dlookup d (session_dir_of obase s @ ''upper'' # q) = Some (DFile m c) \<Longrightarrow> wanted eng c \<Longrightarrow>
       captured sha fi eng now meta (d1, evs1) c"
    "\<And>q. dlookup d1 (obase @ q) =
       (if prefix (session_dir_of obase s) (obase @ q) \<and> is_dir d (session_dir_of obase s) then None else dlookup d (obase @ q))"
    "\<And>q m c. prefix obase q \<Longrightarrow> dlookup d1 q = Some (DFile m c) \<Longrightarrow> c \<in> C"
proof -
  let ?sdir = "session_dir_of obase s"
  obtain d1 evs1 where step: "dispose_upper sha fi True eng now meta (d, evs) (?sdir @ [''upper'']) = (d1, evs1)"
    by (metis prod.collapse)
  have sdir: "?sdir \<noteq> []" "unrelated ?sdir (fe_quarantine_dir eng)"
    using unrelated_below [OF sep] by (simp_all add: session_dir_of_def)
  have CS: "c \<in> C" if "prefix ?sdir q" "dlookup d q = Some (DFile m c)" for q m c
    using C that append_prefixD by (metis session_dir_of_def)
  note one = dispose_upper_step [of eng d ?sdir sha C fi now meta evs d1 evs1, OF assms(1) sdir inj]
  have frame: "dlookup d1 (obase @ q) = (if prefix ?sdir (obase @ q) \<and> is_dir d ?sdir then None else dlookup d (obase @ q))" for q
  proof -
    have "unrelated (fe_quarantine_dir eng) (obase @ q)"
      using unrelated_below [OF sep, of q] by (auto simp: unrelated_def)
    then show ?thesis by (intro one(5)) (use CS step in blast)+
  qed
  show thesis
  proof (rule that [OF step])
    show "qready eng d1" by (rule one(1)) (use CS step in blast)+
    show "set evs \<subseteq> set evs1" by (rule one(2)) (use CS step in blast)+
    show "quarantined sha eng d1 c" if "c \<in> C" "quarantined sha eng d c" for c
      by (rule one(3)) (use CS step that in blast)+
    show "captured sha fi eng now meta (d1, evs1) c"
      if "dlookup d (?sdir @ ''upper'' # q) = Some (DFile m c)" "wanted eng c" for q m c
      by (rule one(4)) (use CS step that in blast)+
    show "c \<in> C" if "prefix obase q" "dlookup d1 q = Some (DFile m c)" for q m c
      using that frame C [OF that(1)] by (auto simp: prefix_def split: if_splits)
  qed (rule frame)
qed

lemma dispose_all_Cons:
  assumes "dispose_upper sha fi True eng now (orphan_meta now s) (d, evs) up = (d1, evs1)"
  shows "dispose_all sha fi eng now ((s, up) # os) (d, evs) = dispose_all sha fi eng now os (d1, evs1)"
  using assms by (simp add: dispose_all_def)

text \<open>Evidence is captured when its session's turn comes, and nothing captured is lost afterwards.\<close>

lemma dispose_all_saves:
  assumes "qready eng d" and sep: "unrelated obase (fe_quarantine_dir eng)" and inj: "inj_on sha C"
    and "\<And>q m c. prefix obase q \<Longrightarrow> dlookup d q = Some (DFile m c) \<Longrightarrow> c \<in> C"
    and ups: "\<And>sid up. (sid, up) \<in> set orphans \<Longrightarrow> up = session_dir_of obase sid @ [''upper'']"
    and run: "dispose_all sha fi eng now orphans (d, evs) = (d', evs')"
    and c: "c \<in> C" "wanted eng c"
    and found: "captured sha fi eng now (orphan_meta now sid) (d, evs) c \<or>
      (sid \<in> fst ` set orphans \<and> dlookup d (session_dir_of obase sid @ ''upper'' # q) = Some (DFile m c))"
  shows "captured sha fi eng now (orphan_meta now sid) (d', evs') c"
  using assms(1,4) ups run found
proof (induction orphans arbitrary: d evs)
  case Nil
  then show ?case by (simp add: dispose_all_def)
next
  case (Cons x os)
  obtain s where x: "x = (s, session_dir_of obase s @ [''upper''])" using Cons.prems(3) by (cases x) simp
  obtain d1 evs1 where step:
      "dispose_upper sha fi True eng now (orphan_meta now s) (d, evs) (session_dir_of obase s @ [''upper'']) = (d1, evs1)"
    and one: "qready eng d1" "set evs \<subseteq> set evs1" "quarantined sha eng d c \<Longrightarrow> quarantined sha eng d1 c"
    and new: "dlookup d (session_dir_of obase s @ ''upper'' # q) = Some (DFile m c) \<Longrightarrow>
      captured sha fi eng now (orphan_meta now s) (d1, evs1) c"
    and frame: "\<And>q. dlookup d1 (obase @ q) = (if prefix (session_dir_of obase s) (obase @ q) \<and>
      is_dir d (session_dir_of obase s) then None else dlookup d (obase @ q))"
    and C1: "\<And>q m c. prefix obase q \<Longrightarrow> dlookup d1 q = Some (DFile m c) \<Longrightarrow> c \<in> C"
    by (rule dispose_session [OF Cons.prems(1) sep inj, where fi = fi and now = now and meta = "orphan_meta now s" and evs = evs and s = s])
       (use c Cons.prems(2) in blast)+
  have "captured sha fi eng now (orphan_meta now sid) (d1, evs1) c \<or>
      (sid \<in> fst ` set os \<and> dlookup d1 (session_dir_of obase sid @ ''upper'' # q) = Some (DFile m c))"
    using Cons.prems(5)
  proof (elim disjE conjE)
    assume "captured sha fi eng now (orphan_meta now sid) (d, evs) c"
    then show ?thesis using one(2,3) by (auto simp: captured_iff)
  next
    assume ev: "sid \<in> fst ` set (x # os)" "dlookup d (session_dir_of obase sid @ ''upper'' # q) = Some (DFile m c)"
    show ?thesis
    proof (cases "sid = s")
      case True
      then show ?thesis using new ev(2) by simp
    next
      case False
      then show ?thesis using ev x frame [of "(''session_'' @ sid) # ''upper'' # q"] by (simp add: session_dir_of_def)
    qed
  qed
  moreover have "dispose_all sha fi eng now os (d1, evs1) = (d', evs')"
    using Cons.prems(4) dispose_all_Cons [OF step] x by simp
  ultimately show ?case
    using Cons.IH [of d1 evs1] one(1) C1 Cons.prems(3) by (metis list.set_intros(2))
qed

lemma dispose_all_removes:
  assumes "qready eng d" and sep: "unrelated obase (fe_quarantine_dir eng)" and inj: "inj_on sha C"
    and "\<And>q m c. prefix obase q \<Longrightarrow> dlookup d q = Some (DFile m c) \<Longrightarrow> c \<in> C"
    and ups: "\<And>sid up. (sid, up) \<in> set orphans \<Longrightarrow> up = session_dir_of obase sid @ [''upper'']"
    and run: "dispose_all sha fi eng now orphans (d, evs) = (d', evs')"
    and found: "\<not> path_exists d (session_dir_of obase sid) \<or>
      (sid \<in> fst ` set orphans \<and> is_dir d (session_dir_of obase sid))"
  shows "\<not> path_exists d' (session_dir_of obase sid)"
  using assms(1,4) ups run found
proof (induction orphans arbitrary: d evs)
  case Nil
  then show ?case by (simp add: dispose_all_def)
next
  case (Cons x os)
  obtain s where x: "x = (s, session_dir_of obase s @ [''upper''])" using Cons.prems(3) by (cases x) simp
  obtain d1 evs1 where step:
      "dispose_upper sha fi True eng now (orphan_meta now s) (d, evs) (session_dir_of obase s @ [''upper'']) = (d1, evs1)"
    and ready: "qready eng d1"
    and frame: "\<And>q. dlookup d1 (obase @ q) = (if prefix (session_dir_of obase s) (obase @ q) \<and>
      is_dir d (session_dir_of obase s) then None else dlookup d (obase @ q))"
    and C1: "\<And>q m c. prefix obase q \<Longrightarrow> dlookup d1 q = Some (DFile m c) \<Longrightarrow> c \<in> C"
    by (rule dispose_session [OF Cons.prems(1) sep inj, where fi = fi and now = now and meta = "orphan_meta now s" and evs = evs and s = s])
       (use Cons.prems(2) in blast)+
  have "\<not> path_exists d1 (session_dir_of obase sid) \<or>
      (sid \<in> fst ` set os \<and> is_dir d1 (session_dir_of obase sid))"
    using Cons.prems(5) x frame [of "[''session_'' @ sid]"]
    by (auto simp: path_exists_def is_dir_def session_dir_of_def split: if_splits)
  moreover have "dispose_all sha fi eng now os (d1, evs1) = (d', evs')"
    using Cons.prems(4) dispose_all_Cons [OF step] x by simp
  ultimately show ?case
    using Cons.IH [of d1 evs1] ready C1 Cons.prems(3) by (metis list.set_intros(2))
qed

section \<open>The scan keeps the evidence\<close>

text \<open>The upper directory of an overlay is a plain directory: unmounting leaves it alone.\<close>

definition umount_keeps_upper :: "kernel \<Rightarrow> bool" where
  "umount_keeps_upper k \<longleftrightarrow>
     (\<forall>sdir d d' q. k_umount k (sdir @ [''mount'']) d = Some d' \<longrightarrow>
        dlookup d' (sdir @ ''upper'' # q) = dlookup d (sdir @ ''upper'' # q))"

lemma reclaim_entry_disk:
  assumes "d1 = (if is_dir d ((obase @ [a]) @ [''mount'']) then try_umount k ((obase @ [a]) @ [''mount'']) d else d)"
  obtains "snd (reclaim_entry k obase (os, d) (a, e)) = d"
  | "is_dir d1 ((obase @ [a]) @ [''upper''])" "snd (reclaim_entry k obase (os, d) (a, e)) = d1"
  | "\<not> is_dir d1 ((obase @ [a]) @ [''upper''])"
    "snd (reclaim_entry k obase (os, d) (a, e)) = ignore fs_remove_dir_all d1 (obase @ [a])"
  using assms by (fastforce simp: reclaim_entry_def Let_def split: option.splits dentry.splits if_splits)

lemma reclaim_entry_upper:
  assumes "umount_confined k" and "umount_keeps_upper k" and "disk_wf d" and "is_dir d (obase @ [n, ''upper''])"
  shows "disk_wf (snd (reclaim_entry k obase (os, d) x)) \<and>
    (\<forall>q. dlookup (snd (reclaim_entry k obase (os, d) x)) (obase @ n # ''upper'' # q) = dlookup d (obase @ n # ''upper'' # q))"
proof -
  obtain a e where x: "x = (a, e)" by (cases x)
  let ?p = "obase @ [a]"
  define d1 where "d1 = (if is_dir d (?p @ [''mount'']) then try_umount k (?p @ [''mount'']) d else d)"
  note u = try_umount_confined [OF assms(1,3) d1_def]
  have up: "dlookup d1 (?p @ ''upper'' # q) = dlookup d (?p @ ''upper'' # q)" for q
    using assms(2) [unfolded umount_keeps_upper_def, rule_format, of ?p d]
    by (auto simp: d1_def try_umount_def split: option.split)
  have keep: "dlookup d1 (obase @ n # ''upper'' # q) = dlookup d (obase @ n # ''upper'' # q)" for q
  proof (cases "a = n")
    case True
    then show ?thesis using up [of q] by simp
  next
    case False
    then have "\<not> strict_prefix ?p (obase @ n # ''upper'' # q)" by (simp add: strict_prefix_def)
    then show ?thesis by (rule u(2))
  qed
  show ?thesis
    unfolding x
  proof (cases rule: reclaim_entry_disk [OF d1_def, of os e])
    case 1
    then show "disk_wf (snd (reclaim_entry k obase (os, d) (a, e))) \<and>
        (\<forall>q. dlookup (snd (reclaim_entry k obase (os, d) (a, e))) (obase @ n # ''upper'' # q) = dlookup d (obase @ n # ''upper'' # q))"
      using assms(3) by simp
  next
    case 2
    then show "disk_wf (snd (reclaim_entry k obase (os, d) (a, e))) \<and>
        (\<forall>q. dlookup (snd (reclaim_entry k obase (os, d) (a, e))) (obase @ n # ''upper'' # q) = dlookup d (obase @ n # ''upper'' # q))"
      using u(1) keep by simp
  next
    case 3
    then have "a \<noteq> n" using assms(4) up [of "[]"] by (auto simp: is_dir_def)
    then show "disk_wf (snd (reclaim_entry k obase (os, d) (a, e))) \<and>
        (\<forall>q. dlookup (snd (reclaim_entry k obase (os, d) (a, e))) (obase @ n # ''upper'' # q) = dlookup d (obase @ n # ''upper'' # q))"
      using 3 u(1) keep by (auto simp: remove_dir_all_lookup intro: remove_dir_all.ignore_wf)
  qed
qed

lemma reclaim_keeps_upper:
  assumes "umount_confined k" and "umount_keeps_upper k" and "disk_wf d" and "is_dir d (obase @ [n, ''upper''])"
  shows "dlookup (snd (reclaim_orphaned_sessions k d obase)) (obase @ n # ''upper'' # q) = dlookup d (obase @ n # ''upper'' # q)"
proof -
  have "dlookup (snd (foldl (reclaim_entry k obase) (os, d) es)) (obase @ n # ''upper'' # q) = dlookup d (obase @ n # ''upper'' # q)"
    for es os
    using assms(3,4)
  proof (induction es arbitrary: os d)
    case (Cons x es)
    obtain os1 d1 where s: "reclaim_entry k obase (os, d) x = (os1, d1)" by fastforce
    with reclaim_entry_upper [OF assms(1,2) Cons.prems, of os x]
    have "disk_wf d1" "\<And>q. dlookup d1 (obase @ n # ''upper'' # q) = dlookup d (obase @ n # ''upper'' # q)" by simp_all
    then show ?case using Cons.IH [of d1 os1] Cons.prems(2) s by (simp add: is_dir_def)
  qed simp
  then show ?thesis by (simp add: reclaim_orphaned_sessions_def split: option.split)
qed

lemma reclaim_wf:
  assumes "umount_confined k" and "disk_wf d"
  shows "disk_wf (snd (reclaim_orphaned_sessions k d obase))"
proof -
  have "disk_wf (snd (foldl (reclaim_entry k obase) (os, d) es))" for es os
    using assms(2)
  proof (induction es arbitrary: os d)
    case (Cons x es)
    obtain a e where x: "x = (a, e)" by (cases x)
    note u = try_umount_confined(1) [OF assms(1) Cons.prems refl, of "obase @ [a]"]
    have "disk_wf (snd (reclaim_entry k obase (os, d) x))"
      by (cases rule: reclaim_entry_disk [OF refl, where d = d and obase = obase and a = a and k = k and os = os and e = e])
         (use Cons.prems u in \<open>auto simp: x simp del: append_assoc intro: remove_dir_all.ignore_wf\<close>)
    then show ?case using Cons.IH by (metis foldl_Cons prod.collapse)
  qed simp
  then show ?thesis using assms(2) by (simp add: reclaim_orphaned_sessions_def split: option.split)
qed

section \<open>Evidence survives a crash\<close>

text \<open>
  Claim C3: a crash loses no evidence. If a session of a previous run left a file with an ELF, MZ or shebang magic
  within the analysis cap in its upper directory, then the start-up reconciliation, whatever other sessions it finds and
  in whatever order, leaves the exact content in the quarantine under its hash with mode 0600, reports it with the id of
  that session, and removes the session directory. Unmounting is the kernel's and the hash must not collide on the
  files found.
\<close>

theorem crash_evidence_recovered:
  assumes k: "umount_confined k" "umount_keeps_upper k" and wf: "disk_wf d"
    and sep: "unrelated obase (fe_quarantine_dir eng)"
    and qfile: "\<And>x. prefix x (fe_quarantine_dir eng) \<Longrightarrow> \<not> is_file d x"
    and qdirs: "\<And>h. \<not> is_dir d (fe_quarantine_dir eng @ [h])"
    and inj: "inj_on sha {c. \<exists>p m. dlookup (snd (reclaim_orphaned_sessions k d obase)) p = Some (DFile m c)}"
    and sid: "valid_utf8 (''session_'' @ sid)"
    and left: "dlookup d (obase @ (''session_'' @ sid) # ''upper'' # q) = Some (DFile m c)" "q \<noteq> []"
    and size: "length c \<le> fe_max_analysis_bytes eng"
    and magic: "prefix ELF_MAGIC c \<or> prefix MZ_MAGIC c \<or> prefix SHEBANG c"
    and run: "reclaim_at_startup k sha fi True eng now obase (d, evs) = (d', evs')"
  shows "dlookup d' (fe_quarantine_dir eng @ [sha c]) = Some (DFile 384 c) \<and>
    captured_event sha fi eng now (orphan_meta now sid) UNSPECIFIED None c \<in> set evs' \<and>
    \<not> path_exists d' (obase @ [''session_'' @ sid])"
proof -
  let ?Q = "fe_quarantine_dir eng" and ?up = "obase @ [''session_'' @ sid, ''upper'']"
  obtain orphans d1 where scan: "reclaim_orphaned_sessions k d obase = (orphans, d1)" by fastforce
  note ex = reclaim_exact [OF k(1) wf scan]
  have up: "is_dir d ?up" using disk_wf_ancestor [OF wf, of ?up q] left by (simp add: path_exists_def)
  have wf1: "disk_wf d1" using reclaim_wf [OF k(1) wf, of obase] scan by simp
  have frame: "dlookup d1 x = dlookup d x" if "\<not> prefix obase x" for x
    using ex that append_prefixD by blast
  have ready: "qready eng d1"
  proof -
    have "\<not> prefix obase x" if "prefix x ?Q \<or> prefix ?Q x" for x
      using that sep by (metis unrelated_def prefix_order.trans prefix_same_cases)
    then have same: "dlookup d1 x = dlookup d x" if "prefix x ?Q \<or> prefix ?Q x" for x
      using that frame by blast
    then have "is_dir d1 (?Q @ [h]) = is_dir d (?Q @ [h])" for h by (simp add: is_dir_def)
    with same show ?thesis using wf1 qfile qdirs by (simp add: qready_def is_file_def)
  qed
  have ups: "u = session_dir_of obase s @ [''upper'']" if "(s, u) \<in> set orphans" for s u
    using conjunct1 [OF ex] that by (auto simp: session_dir_of_def)
  have "(sid, ?up) \<in> set orphans" using conjunct1 [OF ex] sid up by blast
  then have mine: "sid \<in> fst ` set orphans" by (rule image_eqI [rotated]) simp
  have ev: "dlookup d1 (session_dir_of obase sid @ ''upper'' # q) = Some (DFile m c)"
    using reclaim_keeps_upper [OF k wf up, of q] left scan by (simp add: session_dir_of_def)
  have all: "dispose_all sha fi eng now orphans (d1, evs) = (d', evs')"
    using run scan by (simp add: reclaim_at_startup_def dispose_all_def)
  let ?C = "{c. \<exists>p m. dlookup d1 p = Some (DFile m c)}"
  have "captured sha fi eng now (orphan_meta now sid) (d', evs') c"
    by (rule dispose_all_saves [OF ready sep _ _ ups all, where C = ?C and q = q and m = m])
       (use inj scan ev mine wanted_magic [OF size magic] in auto)
  moreover have "is_dir d1 (session_dir_of obase sid)"
    using disk_wf_ancestor [OF wf1, of "session_dir_of obase sid" "''upper'' # q"] ev by (simp add: path_exists_def)
  then have "\<not> path_exists d' (session_dir_of obase sid)"
    by (intro dispose_all_removes [OF ready sep _ _ ups all, where C = ?C]) (use inj scan mine in auto)
  ultimately show ?thesis by (simp add: captured_def orphan_meta_def session_dir_of_def)
qed

theorem crash_evidence_recovered_witness:
  "\<exists>d' evs'. reclaim_at_startup no_mounts (\<lambda>_. ''h'') (\<lambda>_ _. []) True (ForensicsEngine_new [''q''] 6) 0 [''o''] (left_disk, []) = (d', evs') \<and>
     dlookup d' [''q'', ''h''] = Some (DFile 384 ''#!/bin/sh'') \<and> \<not> path_exists d' [''o'', ''session_s'']"
proof -
  let ?eng = "ForensicsEngine_new [''q''] 6" and ?c = "''#!/bin/sh''"
  obtain d' evs' where run: "reclaim_at_startup no_mounts (\<lambda>_. ''h'') (\<lambda>_ _. []) True ?eng 0 [''o''] (left_disk, []) = (d', evs')"
    by fastforce
  have Q: "fe_quarantine_dir ?eng = [''q'']" and cap: "length ?c \<le> fe_max_analysis_bytes ?eng"
    by (simp_all add: ForensicsEngine_new_def with_limits_def DEFAULT_MAX_ANALYSIS_BYTES_def)
  have utf: "valid_utf8 ''session_s''" by (rule valid_utf8_ascii) (simp add: byte_of_def)
  have scan: "snd (reclaim_orphaned_sessions no_mounts left_disk [''o'']) = left_disk"
    using utf by (simp add: reclaim_orphaned_sessions_def fs_read_dir_def is_dir_def dlookup_def left_disk_def
        reclaim_entry_def strip_prefix_def starts_with_def Let_def)
  have one: "c = ?c" if "dlookup left_disk p = Some (DFile m c)" for p m c
    using that by (auto simp: dlookup_def left_disk_def split: if_splits)
  have "dlookup d' (fe_quarantine_dir ?eng @ [''h'']) = Some (DFile 384 ?c) \<and>
      captured_event (\<lambda>_. ''h'') (\<lambda>_ _. []) ?eng 0 (orphan_meta 0 ''s'') UNSPECIFIED None ?c \<in> set evs' \<and>
      \<not> path_exists d' ([''o''] @ [''session_'' @ ''s''])"
  proof (rule crash_evidence_recovered [OF _ _ _ _ _ _ _ _ _ _ cap _ run, where q = "[''x'']" and m = 420])
    show "disk_wf left_disk" by (simp add: disk_wf_def left_disk_def is_dir_def dlookup_def)
    show "inj_on (\<lambda>_. ''h'') {c. \<exists>p m. dlookup (snd (reclaim_orphaned_sessions no_mounts left_disk [''o''])) p = Some (DFile m c)}"
      unfolding scan by (auto simp: inj_on_def dest!: one)
    show "\<not> is_file left_disk x" if "prefix x (fe_quarantine_dir ?eng)" for x
      using that by (auto simp: Q prefix_Cons is_file_def dlookup_def left_disk_def)
  qed (use utf in \<open>simp_all add: umount_confined_def umount_keeps_upper_def no_mounts_def Q unrelated_def is_dir_def
        dlookup_def left_disk_def SHEBANG_def\<close>)
  with run show ?thesis by (simp add: Q)
qed

end
