(* ===== verification/Ebpf.thy ===== *)
theory Ebpf
  imports Collector
begin

text \<open>
  The kernel telemetry: the three tracepoint programs (\<^verbatim>\<open>crates/aegis-ebpf/ebpf/src/main.rs\<close>), the ring
  buffer's wire format, and the loader and consumer in user space (\<^verbatim>\<open>crates/aegis-ebpf/src/lib.rs\<close>).

  The kernel is a parameter: what a program reads of its context, the calling process, the memory of that
  process and the space left in the ring buffer are fields of \<open>bpf_env\<close>; the loading library \<^verbatim>\<open>aya\<close> is
  the record \<open>bpf_object\<close>. The host is little-endian, as the build target \<^verbatim>\<open>bpfel\<close> is.
\<close>

type_synonym u64 = "64 word"

section \<open>The wire format\<close>

fun le_bytes :: "nat \<Rightarrow> nat \<Rightarrow> string" where
  "le_bytes 0 k = []"
| "le_bytes (Suc n) k = char_of (k mod 256) # le_bytes n (k div 256)"

fun le_value :: "string \<Rightarrow> nat" where
  "le_value [] = 0"
| "le_value (b # bs) = byte_of b + 256 * le_value bs"

text \<open>The field of \<open>n\<close> bytes at offset \<open>i\<close>.\<close>

definition field :: "nat \<Rightarrow> nat \<Rightarrow> string \<Rightarrow> string" where
  "field i n bytes = take n (drop i bytes)"

definition NAME_LEN :: nat where "NAME_LEN = 128"
definition ARGV_LEN :: nat where "ARGV_LEN = 256"

definition size_of_KernelEvent :: nat where
  "size_of_KernelEvent = 6 * 4 + 2 * 2 + NAME_LEN + ARGV_LEN"

definition kernel_event_bytes :: "KernelEvent \<Rightarrow> string" where
  "kernel_event_bytes e =
     le_bytes 4 (unat (ke_event_type e)) @ le_bytes 4 (unat (ke_pid e)) @ le_bytes 4 (unat (ke_ppid e)) @
     le_bytes 4 (unat (ke_uid e)) @ le_bytes 4 (unat (ke_ns_pid e)) @ le_bytes 4 (unat (ke_dest_ip e)) @
     le_bytes 2 (unat (ke_dest_port e)) @ le_bytes 2 (unat (ke_pad e)) @ ke_filename e @ ke_argv e"

definition kernel_event_of :: "string \<Rightarrow> KernelEvent" where
  "kernel_event_of bytes =
     \<lparr>ke_event_type = of_nat (le_value (field 0 4 bytes)), ke_pid = of_nat (le_value (field 4 4 bytes)),
      ke_ppid = of_nat (le_value (field 8 4 bytes)), ke_uid = of_nat (le_value (field 12 4 bytes)),
      ke_ns_pid = of_nat (le_value (field 16 4 bytes)), ke_dest_ip = of_nat (le_value (field 20 4 bytes)),
      ke_dest_port = of_nat (le_value (field 24 2 bytes)), ke_pad = of_nat (le_value (field 26 2 bytes)),
      ke_filename = field 28 NAME_LEN bytes, ke_argv = field (28 + NAME_LEN) ARGV_LEN bytes\<rparr>"

section \<open>The kernel programs\<close>

text \<open>The two maps; the ring buffer is the sequence of the records submitted so far.\<close>

record bpf_maps =
  KERNEL_EVENTS :: "string list"
  DROPPED_EVENTS :: u64

text \<open>
  \<open>read_at i\<close> is the word at offset \<open>i\<close> of the tracepoint's arguments, \<open>user_bytes a n\<close> the result of
  \<^verbatim>\<open>bpf_probe_read_user\<close> for \<open>n\<close> bytes at address \<open>a\<close> and \<open>user_str a\<close> the NUL-terminated string there,
  \<^const>\<open>None\<close> when the helper fails; \<open>reserve_ok\<close> tells whether the ring buffer has space, and
  \<open>argv_slot\<close> is the address of the local variable that holds the \<^verbatim>\<open>argv\<close> pointer.
\<close>

record bpf_env =
  read_at :: "nat \<Rightarrow> u64 option"
  pid_tgid :: u64
  uid_gid :: u64
  user_bytes :: "u64 \<Rightarrow> nat \<Rightarrow> string option"
  user_str :: "u64 \<Rightarrow> string option"
  reserve_ok :: bool
  argv_slot :: u64

definition EVENT_EXECVE :: u32 where "EVENT_EXECVE = 1"
definition EVENT_CONNECT :: u32 where "EVENT_CONNECT = 2"
definition EVENT_MEMFD :: u32 where "EVENT_MEMFD = 3"

definition zeros :: "nat \<Rightarrow> string" where
  "zeros n = replicate n (CHR 0x00)"

text \<open>
  \<^verbatim>\<open>bpf_probe_read_user_str_bytes\<close> into a zeroed buffer of \<open>n\<close> bytes: the string is cut to leave room
  for the terminator, and the buffer stays zero when the helper fails.
\<close>

definition read_user_str_bytes :: "bpf_env \<Rightarrow> u64 \<Rightarrow> nat \<Rightarrow> string" where
  "read_user_str_bytes env ptr n =
     (case user_str env ptr of
        None \<Rightarrow> zeros n
      | Some s \<Rightarrow>
          let t = take (n - 1) (takeWhile (\<lambda>b. b \<noteq> CHR 0x00) s)
          in t @ zeros (n - length t))"

definition note_drop :: "bpf_maps \<Rightarrow> bpf_maps" where
  "note_drop m = m\<lparr>DROPPED_EVENTS := DROPPED_EVENTS m + 1\<rparr>"

text \<open>The reservation at the end of each program.\<close>

definition submit :: "bpf_env \<Rightarrow> KernelEvent \<Rightarrow> bpf_maps \<Rightarrow> bpf_maps" where
  "submit env event m =
     (if reserve_ok env then m\<lparr>KERNEL_EVENTS := KERNEL_EVENTS m @ [kernel_event_bytes event]\<rparr> else note_drop m)"

definition blank_event :: "bpf_env \<Rightarrow> u32 \<Rightarrow> KernelEvent" where
  "blank_event env event_type =
     \<lparr>ke_event_type = event_type, ke_pid = ucast (drop_bit 32 (pid_tgid env)), ke_ppid = 0,
      ke_uid = ucast (uid_gid env), ke_ns_pid = 0, ke_dest_ip = 0, ke_dest_port = 0, ke_pad = 0,
      ke_filename = zeros NAME_LEN, ke_argv = zeros ARGV_LEN\<rparr>"

text \<open>A program that returns \<^const>\<open>None\<close> has left the maps as they were.\<close>

definition try_execve :: "bpf_env \<Rightarrow> bpf_maps \<Rightarrow> (u32 \<times> bpf_maps) option" where
  "try_execve env m =
     (let event = blank_event env EVENT_EXECVE
      in case read_at env 8 of
           None \<Rightarrow> None
         | Some filename_ptr \<Rightarrow>
             let event = event\<lparr>ke_filename := read_user_str_bytes env filename_ptr NAME_LEN\<rparr>
             in case read_at env 16 of
                  None \<Rightarrow> None
                | Some argv_ptr \<Rightarrow>
                    (case user_bytes env (argv_slot env) 8 of
                       None \<Rightarrow> None
                     | Some slot \<Rightarrow>
                         let arg0_ptr = of_nat (le_value slot) :: u64;
                             event = (if arg0_ptr \<noteq> 0
                               then event\<lparr>ke_argv := read_user_str_bytes env arg0_ptr ARGV_LEN\<rparr> else event)
                         in Some (0, submit env event m)))"

text \<open>\<^verbatim>\<open>struct SockaddrIn\<close>, as it lies in memory.\<close>

record SockaddrIn =
  sin_family :: u16
  sin_port :: u16
  sin_addr :: u32

definition sockaddr_of :: "string \<Rightarrow> SockaddrIn" where
  "sockaddr_of bytes =
     \<lparr>sin_family = of_nat (le_value (field 0 2 bytes)), sin_port = of_nat (le_value (field 2 2 bytes)),
      sin_addr = of_nat (le_value (field 4 4 bytes))\<rparr>"

definition try_connect :: "bpf_env \<Rightarrow> bpf_maps \<Rightarrow> (u32 \<times> bpf_maps) option" where
  "try_connect env m =
     (case read_at env 16 of
        None \<Rightarrow> None
      | Some sockaddr_ptr \<Rightarrow>
          if sockaddr_ptr = 0 then Some (0, m)
          else case user_bytes env sockaddr_ptr 16 of
            None \<Rightarrow> None
          | Some bytes \<Rightarrow>
              let sa = sockaddr_of bytes
              in if sin_family sa \<noteq> 2 then Some (0, m)
                 else Some (0, submit env ((blank_event env EVENT_CONNECT)
                        \<lparr>ke_dest_ip := sin_addr sa, ke_dest_port := sin_port sa\<rparr>) m))"

definition try_memfd :: "bpf_env \<Rightarrow> bpf_maps \<Rightarrow> (u32 \<times> bpf_maps) option" where
  "try_memfd env m =
     (case read_at env 8 of
        None \<Rightarrow> None
      | Some name_ptr \<Rightarrow>
          let event = (blank_event env EVENT_MEMFD)\<lparr>ke_filename := read_user_str_bytes env name_ptr NAME_LEN\<rparr>
          in Some (0, submit env event m))"

definition unwrap_or_0 :: "(u32 \<times> bpf_maps) option \<Rightarrow> bpf_maps \<Rightarrow> u32 \<times> bpf_maps" where
  "unwrap_or_0 r m = (case r of Some x \<Rightarrow> x | None \<Rightarrow> (0, m))"

definition handle_execve :: "bpf_env \<Rightarrow> bpf_maps \<Rightarrow> u32 \<times> bpf_maps" where
  "handle_execve env m = unwrap_or_0 (try_execve env m) m"

definition handle_connect :: "bpf_env \<Rightarrow> bpf_maps \<Rightarrow> u32 \<times> bpf_maps" where
  "handle_connect env m = unwrap_or_0 (try_connect env m) m"

definition handle_memfd_create :: "bpf_env \<Rightarrow> bpf_maps \<Rightarrow> u32 \<times> bpf_maps" where
  "handle_memfd_create env m = unwrap_or_0 (try_memfd env m) m"

section \<open>The loader\<close>

text \<open>The build embeds no byte code.\<close>

definition EBPF_BYTES :: string where
  "EBPF_BYTES = []"

text \<open>
  What \<^verbatim>\<open>aya\<close> reports of a loaded object: whether a program exists, whether it is a tracepoint, and whether
  loading and attaching it work; the texts of its errors are arguments.
\<close>

datatype bpf_failure = Cast | Load | Attach

record bpf_object =
  has_program :: "string \<Rightarrow> bool"
  program_failure :: "string \<Rightarrow> string \<Rightarrow> string \<Rightarrow> (bpf_failure \<times> string) option"

fun failure_text :: "bpf_failure \<Rightarrow> string \<Rightarrow> string \<Rightarrow> string \<Rightarrow> string \<Rightarrow> string" where
  "failure_text Cast prog_name category name e = ''cast '' @ [squote] @ prog_name @ [squote] @ '': '' @ e"
| "failure_text Load prog_name category name e = ''load '' @ [squote] @ prog_name @ [squote] @ '': '' @ e"
| "failure_text Attach prog_name category name e =
     ''attach '' @ [squote] @ prog_name @ [squote] @ '' to '' @ category @ ''/'' @ name @ '': '' @ e"

definition attach_tracepoint :: "bpf_object \<Rightarrow> string \<Rightarrow> string \<Rightarrow> string \<Rightarrow> AegisError + unit" where
  "attach_tracepoint bpf prog_name category name =
     (if \<not> has_program bpf prog_name
      then Inl (Ebpf (''program '' @ [squote] @ prog_name @ [squote] @ '' not found''))
      else case program_failure bpf prog_name category name of
             Some (f, e) \<Rightarrow> Inl (Ebpf (failure_text f prog_name category name e))
           | None \<Rightarrow> Inr ())"

definition PROBES :: "(string \<times> string) list" where
  "PROBES =
     [(''handle_execve'', ''sys_enter_execve''), (''handle_connect'', ''sys_enter_connect''),
      (''handle_memfd_create'', ''sys_enter_memfd_create'')]"

fun attach_all :: "bpf_object \<Rightarrow> (string \<times> string) list \<Rightarrow> AegisError + unit" where
  "attach_all bpf [] = Inr ()"
| "attach_all bpf ((prog_name, name) # ps) =
     (case attach_tracepoint bpf prog_name ''syscalls'' name of Inl e \<Rightarrow> Inl e | Inr () \<Rightarrow> attach_all bpf ps)"

definition load_probes :: "string \<Rightarrow> (string \<Rightarrow> string + bpf_object) \<Rightarrow> AegisError + bpf_object option" where
  "load_probes bytes Ebpf_load =
     (if bytes = [] then Inr None
      else case Ebpf_load bytes of
             Inl e \<Rightarrow> Inl (Ebpf (''load eBPF object: '' @ e))
           | Inr bpf \<Rightarrow> (case attach_all bpf PROBES of Inl e \<Rightarrow> Inl e | Inr () \<Rightarrow> Inr (Some bpf)))"

section \<open>The consumer\<close>

type_synonym session_map = "(u32 \<times> SessionId) list"

definition telemetry_of :: "DateTime \<Rightarrow> SessionId \<Rightarrow> KernelEvent \<Rightarrow> TelemetryEvent option" where
  "telemetry_of now sid ke =
     (if ke_event_type ke = event_type_code Execve
      then Some (SyscallExecve
        \<lparr>sx_timestamp = now, sx_session_id = sid, sx_ip = UNSPECIFIED, sx_pid = ke_pid ke,
         sx_filename = filename_str ke, sx_argv = filter (\<lambda>s. s \<noteq> []) (split_on (CHR '' '') (argv_str ke))\<rparr>)
      else if ke_event_type ke = event_type_code Connect
      then Some (SyscallConnect
        \<lparr>sc_timestamp = now, sc_session_id = sid, sc_ip = UNSPECIFIED, sc_pid = ke_pid ke,
         sc_dest_ip = dest_ip_addr ke, sc_dest_port = u16_from_be (ke_dest_port ke)\<rparr>)
      else if ke_event_type ke = event_type_code MemfdCreate
      then Some (SyscallMemfdCreate
        \<lparr>sm_timestamp = now, sm_session_id = sid, sm_ip = UNSPECIFIED, sm_pid = ke_pid ke,
         sm_name = filename_str ke\<rparr>)
      else None)"

definition dispatch_kernel_event ::
  "bool \<Rightarrow> DateTime \<Rightarrow> session_map \<Rightarrow> KernelEvent \<Rightarrow> TelemetryEvent list \<Rightarrow> (AegisError + unit) \<times> TelemetryEvent list" where
  "dispatch_kernel_event rx_open now session_map ke evs =
     (let sid = (case map_of session_map (ke_ns_pid ke) of Some s \<Rightarrow> s | None \<Rightarrow> ''unknown'')
      in case telemetry_of now sid ke of
           None \<Rightarrow> (Inr (), evs)
         | Some telemetry \<Rightarrow>
             (if rx_open then Inr () else Inl ChannelClosed, event_send rx_open evs telemetry))"

text \<open>
  The inner loop of \<^verbatim>\<open>run\<close>, for one record of the ring buffer: a short record is skipped and an error is only
  logged. \<open>clock n\<close> is the time read after \<open>n\<close> events were sent.
\<close>

definition consume :: "bool \<Rightarrow> (nat \<Rightarrow> DateTime) \<Rightarrow> session_map \<Rightarrow> TelemetryEvent list \<Rightarrow> string \<Rightarrow> TelemetryEvent list" where
  "consume rx_open clock session_map evs bytes =
     (if length bytes < size_of_KernelEvent then evs
      else snd (dispatch_kernel_event rx_open (clock (length evs)) session_map (kernel_event_of bytes) evs))"

definition run_consumer :: "bool \<Rightarrow> (nat \<Rightarrow> DateTime) \<Rightarrow> session_map \<Rightarrow> TelemetryEvent list \<Rightarrow> string list \<Rightarrow> TelemetryEvent list" where
  "run_consumer rx_open clock session_map evs ring = foldl (consume rx_open clock session_map) evs ring"

section \<open>Wire format\<close>

lemma length_le_bytes [simp]: "length (le_bytes n k) = n"
  by (induction n arbitrary: k) auto

lemma le_value_bytes: "le_value (le_bytes n k) = k mod 256 ^ n"
proof (induction n arbitrary: k)
  case (Suc n)
  have "k mod 256 + 256 * (k div 256 mod 256 ^ n) = k mod 256 ^ Suc n"
    by (simp add: mod_mult2_eq)
  then show ?case using Suc by (simp add: byte_of_def of_char_of)
qed simp

lemma le_word32: "of_nat (le_value (le_bytes 4 (unat w))) = (w :: u32)"
proof -
  have "unat w < 256 ^ 4" using unsigned_less [of w] by simp
  then show ?thesis by (simp add: le_value_bytes)
qed

lemma le_word16: "of_nat (le_value (le_bytes 2 (unat w))) = (w :: u16)"
proof -
  have "unat w < 256 ^ 2" using unsigned_less [of w] by simp
  then show ?thesis by (simp add: le_value_bytes)
qed

lemma field_0: "length a = n \<Longrightarrow> field 0 n (a @ b) = a"
  by (simp add: field_def)

lemma field_skip: "length a \<le> i \<Longrightarrow> field i n (a @ b) = field (i - length a) n b"
  by (simp add: field_def)

lemma field_all: "length a = n \<Longrightarrow> field 0 n a = a"
  by (simp add: field_def)

definition event_wf :: "KernelEvent \<Rightarrow> bool" where
  "event_wf e \<longleftrightarrow> length (ke_filename e) = NAME_LEN \<and> length (ke_argv e) = ARGV_LEN"

lemma kernel_event_of_bytes:
  assumes "event_wf e"
  shows "length (kernel_event_bytes e) = size_of_KernelEvent" and "kernel_event_of (kernel_event_bytes e) = e"
proof -
  show "length (kernel_event_bytes e) = size_of_KernelEvent"
    using assms by (simp add: kernel_event_bytes_def size_of_KernelEvent_def event_wf_def)
  show "kernel_event_of (kernel_event_bytes e) = e"
    using assms
    by (simp add: kernel_event_of_def kernel_event_bytes_def field_0 field_skip field_all le_word32 le_word16 event_wf_def)
qed

section \<open>Probes\<close>

lemma length_read_user_str [simp]: "0 < n \<Longrightarrow> length (read_user_str_bytes env ptr n) = n"
  by (auto simp: read_user_str_bytes_def zeros_def Let_def split: option.split)

text \<open>Everything a probe submits is a well-formed record with no namespace pid.\<close>

definition probe_record :: "u32 set \<Rightarrow> string \<Rightarrow> bool" where
  "probe_record ts bytes \<longleftrightarrow>
     (\<exists>e. bytes = kernel_event_bytes e \<and> event_wf e \<and> ke_ns_pid e = 0 \<and> ke_event_type e \<in> ts)"

datatype syscall = Sys_execve bpf_env | Sys_connect bpf_env | Sys_memfd_create bpf_env

fun on_syscall :: "bpf_maps \<Rightarrow> syscall \<Rightarrow> bpf_maps" where
  "on_syscall m (Sys_execve env) = snd (handle_execve env m)"
| "on_syscall m (Sys_connect env) = snd (handle_connect env m)"
| "on_syscall m (Sys_memfd_create env) = snd (handle_memfd_create env m)"

definition no_maps :: bpf_maps where
  "no_maps = \<lparr>KERNEL_EVENTS = [], DROPPED_EVENTS = 0\<rparr>"

lemma lens_pos [simp]: "0 < NAME_LEN" "0 < ARGV_LEN"
  by (simp_all add: NAME_LEN_def ARGV_LEN_def)

lemma submit_records:
  assumes "list_all (probe_record ts) (KERNEL_EVENTS m)" and "event_wf e" and "ke_ns_pid e = 0"
    and "ke_event_type e \<in> ts"
  shows "list_all (probe_record ts) (KERNEL_EVENTS (submit env e m))"
  using assms by (auto simp: submit_def note_drop_def probe_record_def)

lemma blank_event_wf [simp]:
  "event_wf (blank_event env t)" "ke_ns_pid (blank_event env t) = 0" "ke_event_type (blank_event env t) = t"
  by (simp_all add: event_wf_def blank_event_def zeros_def)

lemma event_wf_update [simp]:
  "event_wf (e\<lparr>ke_filename := read_user_str_bytes env ptr NAME_LEN\<rparr>) \<longleftrightarrow> length (ke_argv e) = ARGV_LEN"
  "event_wf (e\<lparr>ke_argv := read_user_str_bytes env ptr ARGV_LEN\<rparr>) \<longleftrightarrow> length (ke_filename e) = NAME_LEN"
  "event_wf (e\<lparr>ke_dest_ip := a, ke_dest_port := b\<rparr>) = event_wf e"
  by (simp_all add: event_wf_def)

lemma blank_event_lens [simp]: "length (ke_filename (blank_event env t)) = NAME_LEN" "length (ke_argv (blank_event env t)) = ARGV_LEN"
  by (simp_all add: blank_event_def zeros_def)

lemmas probe_defs = handle_execve_def handle_connect_def handle_memfd_create_def unwrap_or_0_def
  try_execve_def try_connect_def try_memfd_def Let_def

lemma handle_records:
  assumes "list_all (probe_record ts) (KERNEL_EVENTS m)"
  shows "EVENT_EXECVE \<in> ts \<Longrightarrow> list_all (probe_record ts) (KERNEL_EVENTS (snd (handle_execve env m)))"
    and "EVENT_CONNECT \<in> ts \<Longrightarrow> list_all (probe_record ts) (KERNEL_EVENTS (snd (handle_connect env m)))"
    and "EVENT_MEMFD \<in> ts \<Longrightarrow> list_all (probe_record ts) (KERNEL_EVENTS (snd (handle_memfd_create env m)))"
  using submit_records [OF assms] assms
  by (simp_all add: probe_defs split: option.split)

text \<open>The types of the records a system call can produce.\<close>

fun call_type :: "syscall \<Rightarrow> u32" where
  "call_type (Sys_execve _) = EVENT_EXECVE"
| "call_type (Sys_connect _) = EVENT_CONNECT"
| "call_type (Sys_memfd_create _) = EVENT_MEMFD"

interpretation probing: step_system on_syscall "\<lambda>m. list_all (probe_record ts) (KERNEL_EVENTS m)"
  "\<lambda>c. call_type c \<in> ts \<or> (\<forall>m. on_syscall m c = m)" for ts
proof (unfold_locales, goal_cases)
  case (1 m c)
  then show ?case
    using handle_records [of ts m] by (cases c) auto
qed

section \<open>From the kernel to the event channel\<close>

lemma consume_record:
  assumes "probe_record ts bytes"
  obtains e where "bytes = kernel_event_bytes e" "ke_event_type e \<in> ts" "ke_ns_pid e = 0"
    "consume rx_open clock sm evs bytes =
       snd (dispatch_kernel_event rx_open (clock (length evs)) sm e evs)"
  using assms kernel_event_of_bytes by (auto simp: probe_record_def consume_def)

definition is_execve_event :: "TelemetryEvent \<Rightarrow> bool" where
  "is_execve_event e = (case e of SyscallExecve _ \<Rightarrow> True | _ \<Rightarrow> False)"

lemma telemetry_of_session:
  "telemetry_of now sid ke = Some e \<Longrightarrow>
    event_session_id e = Some sid \<and> (is_execve_event e \<longleftrightarrow> ke_event_type ke = EVENT_EXECVE)"
  by (auto simp: telemetry_of_def is_execve_event_def EVENT_EXECVE_def split: if_splits)

text \<open>The session id that the map gives a namespace pid.\<close>

definition sid_of :: "session_map \<Rightarrow> u32 \<Rightarrow> SessionId" where
  "sid_of sm pid = (case map_of sm pid of Some s \<Rightarrow> s | None \<Rightarrow> ''unknown'')"

lemma dispatch_new_event:
  assumes "e \<in> set (snd (dispatch_kernel_event rx_open now sm ke evs))" and "e \<notin> set evs"
  shows "event_session_id e = Some (sid_of sm (ke_ns_pid ke)) \<and> (is_execve_event e \<longleftrightarrow> ke_event_type ke = EVENT_EXECVE)"
  using assms telemetry_of_session [of now "sid_of sm (ke_ns_pid ke)" ke e]
  by (auto simp: dispatch_kernel_event_def event_send_def sid_of_def Let_def split: if_splits option.splits)

lemma run_consumer_events:
  assumes "list_all (probe_record ts) ring" and "e \<in> set (run_consumer rx_open clock sm [] ring)"
  shows "event_session_id e = Some (sid_of sm 0) \<and> (is_execve_event e \<longrightarrow> EVENT_EXECVE \<in> ts)"
  using assms
proof (induction ring rule: rev_induct)
  case Nil
  then show ?case by (simp add: run_consumer_def)
next
  case (snoc bytes ring)
  let ?evs = "run_consumer rx_open clock sm [] ring"
  have rec: "probe_record ts bytes" using snoc.prems(1) by simp
  obtain ke where ke: "ke_event_type ke \<in> ts" "ke_ns_pid ke = 0"
      "consume rx_open clock sm ?evs bytes = snd (dispatch_kernel_event rx_open (clock (length ?evs)) sm ke ?evs)"
    using consume_record [OF rec, of rx_open clock sm ?evs] by metis
  have e: "e \<in> set (snd (dispatch_kernel_event rx_open (clock (length ?evs)) sm ke ?evs))"
    using snoc.prems(2) ke(3) by (simp add: run_consumer_def)
  show ?case
  proof (cases "e \<in> set ?evs")
    case True
    then show ?thesis using snoc by simp
  next
    case False
    then show ?thesis using dispatch_new_event [OF e False] ke(1,2) by auto
  qed
qed

text \<open>
  Claim C39: no kernel event is attributed to the session that caused it. Every record the probes submit has the
  namespace pid 0, so for every sequence of system calls and whatever sessions the consumer's map knows, all
  events that reach the collector carry one and the same session id: the one the map has for pid 0, and
  \<^verbatim>\<open>unknown\<close> when it has none, as the map of the gateway, which nothing ever fills.
\<close>

theorem kernel_events_are_unattributed:
  "list_all (\<lambda>e. event_session_id e = Some (case map_of sm 0 of Some sid \<Rightarrow> sid | None \<Rightarrow> ''unknown''))
     (run_consumer rx_open clock sm [] (KERNEL_EVENTS (foldl on_syscall no_maps calls)))"
proof -
  have "list_all (probe_record UNIV) (KERNEL_EVENTS (foldl on_syscall no_maps calls))"
    by (rule probing.run_inv) (simp_all add: no_maps_def list_all_iff)
  then show ?thesis unfolding sid_of_def [symmetric] using run_consumer_events [of UNIV] by (auto simp: list_all_iff)
qed

text \<open>
  Claim C38: the execve probe reads the first argument through the address of its own local variable instead of the
  \<^verbatim>\<open>argv\<close> pointer it holds. The helper for user memory fails on an address of the kernel, so no execution is
  ever reported, whatever programs run and whatever sessions are known.
\<close>

theorem executions_are_never_reported:
  assumes "\<And>env. Sys_execve env \<in> set calls \<Longrightarrow> user_bytes env (argv_slot env) 8 = None"
  shows "\<not> list_ex is_execve_event
    (run_consumer rx_open clock sm [] (KERNEL_EVENTS (foldl on_syscall no_maps calls)))"
proof -
  let ?ts = "{EVENT_CONNECT, EVENT_MEMFD}"
  have "call_type c \<in> ?ts \<or> (\<forall>m. on_syscall m c = m)" if "c \<in> set calls" for c
    using assms that by (cases c) (auto simp: probe_defs split: option.split)
  then have "list_all (probe_record ?ts) (KERNEL_EVENTS (foldl on_syscall no_maps calls))"
    by (intro probing.run_inv) (simp_all add: no_maps_def list_all_iff)
  moreover have "EVENT_EXECVE \<notin> ?ts" by (simp add: EVENT_EXECVE_def EVENT_CONNECT_def EVENT_MEMFD_def)
  ultimately show ?thesis using run_consumer_events [of ?ts] by (fastforce simp: list_ex_iff)
qed

definition demo_env :: bpf_env where
  "demo_env =
     \<lparr>read_at = (\<lambda>i. Some 64), pid_tgid = push_bit 32 7, uid_gid = 0,
      user_bytes = (\<lambda>a n. if a = 64 \<and> n = 16
        then Some ([CHR 0x02, CHR 0x00, CHR 0x01, CHR 0xBB, CHR 0xCB, CHR 0x00, CHR 0x71, CHR 0x05] @ zeros 8) else None),
      user_str = (\<lambda>a. Some ''/bin/sh''), reserve_ok = True, argv_slot = 128\<rparr>"

theorem executions_are_never_reported_witness:
  "\<forall>clock. \<not> list_ex is_execve_event
    (run_consumer True clock [] [] (KERNEL_EVENTS (foldl on_syscall no_maps [Sys_execve demo_env, Sys_connect demo_env])))"
proof
  fix clock
  show "\<not> list_ex is_execve_event
    (run_consumer True clock [] [] (KERNEL_EVENTS (foldl on_syscall no_maps [Sys_execve demo_env, Sys_connect demo_env])))"
    by (rule executions_are_never_reported) (auto simp: demo_env_def)
qed


lemma u32_byte_le:
  fixes a b c d :: char
  defines "w \<equiv> (of_nat (le_value [a, b, c, d]) :: u32)"
  shows "u32_byte 0 w = of_nat (byte_of a)" "u32_byte 1 w = of_nat (byte_of b)"
    "u32_byte 2 w = of_nat (byte_of c)" "u32_byte 3 w = of_nat (byte_of d)"
proof -
  have less: "byte_of a < 256" "byte_of b < 256" "byte_of c < 256" "byte_of d < 256" by (rule byte_of_less)+
  then have "le_value [a, b, c, d] < 2 ^ 32" by simp
  then have w: "unat w = byte_of a + 256 * (byte_of b + 256 * (byte_of c + 256 * byte_of d))"
    unfolding w_def unsigned_of_nat take_bit_eq_mod by simp
  have u: "unat (u32_byte i w) = unat w div 2 ^ (8 * i) mod 256" for i
    using unsigned_less [where 'a = nat, of w]
    by (simp add: u32_byte_def unsigned_ucast_eq unsigned_drop_bit_eq take_bit_eq_mod [where 'a = nat]
        drop_bit_eq_div [where 'a = nat])
  have n: "unat (of_nat (byte_of x) :: u8) = byte_of x" for x
    using byte_of_less [of x] by (simp add: unsigned_of_nat take_bit_eq_mod)
  have digits: "(x + 256 * k) div 256 = k" "(x + 256 * k) mod 256 = x" if "x < 256" for x k :: nat
    using that by simp_all
  have pow: "(2 :: nat) ^ (8 * 0) = 1" "(2 :: nat) ^ (8 * 1) = 256" "(2 :: nat) ^ (8 * 2) = 256 * 256"
    "(2 :: nat) ^ (8 * 3) = 256 * 256 * 256"
    by simp_all
  show "u32_byte 0 w = of_nat (byte_of a)" "u32_byte 1 w = of_nat (byte_of b)"
    "u32_byte 2 w = of_nat (byte_of c)" "u32_byte 3 w = of_nat (byte_of d)"
    unfolding word_unat_eq_iff u n w pow div_mult2_eq div_by_1 digits [OF less(1)] digits [OF less(2)] digits [OF less(3)]
    using less(4) by simp_all
qed

lemma u16_from_be_le: "u16_from_be (of_nat (le_value [h, l])) = of_nat (256 * byte_of h + byte_of l)"
proof -
  have u: "ucast (of_nat (byte_of x) :: u8) = (of_nat (byte_of x) :: u16)" for x
    using byte_of_less [of x] by (intro word_unat_eq_iff [THEN iffD2]) (simp add: unsigned_ucast_eq unsigned_of_nat take_bit_eq_mod)
  have "of_nat (le_value [h, l]) = seg_of (of_nat (byte_of l)) (of_nat (byte_of h))"
    by (simp add: seg_of_def u)
  then have "u16_from_be (of_nat (le_value [h, l])) = seg_of (of_nat (byte_of h)) (of_nat (byte_of l))"
    by (simp add: u16_from_be_def seg_of_octets)
  then show ?thesis by (simp add: seg_of_def u)
qed

text \<open>
  Claim C29: an outbound connection reaches the event log with the address and port the process asked for. If the
  process passes a socket address of family 2 whose memory holds the port and the four octets in network order, and
  the ring buffer has space, then the record, written by the probe and read back by the consumer, becomes exactly one
  connect event with these octets, this port and the process id.
\<close>

theorem outbound_connect_is_reported:
  assumes "read_at env 16 = Some ptr" and "ptr \<noteq> 0" and "reserve_ok env"
    and "user_bytes env ptr 16 = Some (CHR 0x02 # CHR 0x00 # h # l # a # b # c # d # rest)"
  shows "\<exists>e. run_consumer True clock session_map evs (KERNEL_EVENTS (snd (handle_connect env no_maps))) =
      evs @ [SyscallConnect e] \<and>
    sc_dest_ip e = V4 (of_nat (byte_of a)) (of_nat (byte_of b)) (of_nat (byte_of c)) (of_nat (byte_of d)) \<and>
    sc_dest_port e = of_nat (256 * byte_of h + byte_of l) \<and> sc_pid e = ucast (drop_bit 32 (pid_tgid env))"
proof -
  let ?sa = "sockaddr_of (CHR 0x02 # CHR 0x00 # h # l # a # b # c # d # rest)"
  define ke where "ke = (blank_event env EVENT_CONNECT)\<lparr>ke_dest_ip := sin_addr ?sa, ke_dest_port := sin_port ?sa\<rparr>"
  have sa: "sin_family ?sa = 2" "sin_port ?sa = of_nat (le_value [h, l])" "sin_addr ?sa = of_nat (le_value [a, b, c, d])"
    by (simp_all add: sockaddr_of_def field_def) (simp add: byte_of_def)
  then have ring: "KERNEL_EVENTS (snd (handle_connect env no_maps)) = [kernel_event_bytes ke]"
    using assms by (simp add: handle_connect_def try_connect_def unwrap_or_0_def submit_def no_maps_def ke_def Let_def)
  have "event_wf ke" by (simp add: ke_def)
  note wire = kernel_event_of_bytes [OF this]
  have "dest_ip_addr ke = V4 (of_nat (byte_of a)) (of_nat (byte_of b)) (of_nat (byte_of c)) (of_nat (byte_of d))"
    using u32_byte_le [of a b c d] by (simp add: dest_ip_addr_def sa ke_def Let_def)
  moreover have "u16_from_be (ke_dest_port ke) = of_nat (256 * byte_of h + byte_of l)"
    using u16_from_be_le [of h l] by (simp add: sa ke_def)
  moreover have "ke_event_type ke = 2" "ke_pid ke = ucast (drop_bit 32 (pid_tgid env))"
    by (simp_all add: ke_def EVENT_CONNECT_def blank_event_def)
  ultimately show ?thesis
    by (simp add: ring run_consumer_def consume_def wire dispatch_kernel_event_def telemetry_of_def event_send_def Let_def)
qed

theorem outbound_connect_is_reported_witness:
  "\<forall>clock. \<exists>e. run_consumer True clock [] [] (KERNEL_EVENTS (snd (handle_connect demo_env no_maps))) = [SyscallConnect e] \<and>
    sc_dest_ip e = V4 203 0 113 5 \<and> sc_dest_port e = 443"
proof
  fix clock
  have "user_bytes demo_env 64 16 = Some (CHR 0x02 # CHR 0x00 # CHR 0x01 # CHR 0xBB # CHR 0xCB # CHR 0x00 # CHR 0x71 # CHR 0x05 # zeros 8)"
    and "read_at demo_env 16 = Some 64" and "reserve_ok demo_env"
    by (simp_all add: demo_env_def)
  from outbound_connect_is_reported [OF this(2) _ this(3,1), of clock "[]" "[]"]
  show "\<exists>e. run_consumer True clock [] [] (KERNEL_EVENTS (snd (handle_connect demo_env no_maps))) = [SyscallConnect e] \<and>
    sc_dest_ip e = V4 203 0 113 5 \<and> sc_dest_port e = 443"
    by (auto simp: byte_of_def)
qed

section \<open>Dropped events\<close>

text \<open>The same call with space in the ring buffer.\<close>

fun with_room :: "syscall \<Rightarrow> syscall" where
  "with_room (Sys_execve env) = Sys_execve (env\<lparr>reserve_ok := True\<rparr>)"
| "with_room (Sys_connect env) = Sys_connect (env\<lparr>reserve_ok := True\<rparr>)"
| "with_room (Sys_memfd_create env) = Sys_memfd_create (env\<lparr>reserve_ok := True\<rparr>)"

definition reportable :: "syscall \<Rightarrow> bool" where
  "reportable c \<longleftrightarrow> KERNEL_EVENTS (on_syscall no_maps (with_room c)) \<noteq> []"

definition accounted :: "bpf_maps \<Rightarrow> u64" where
  "accounted m = of_nat (length (KERNEL_EVENTS m)) + DROPPED_EVENTS m"

lemma accounted_submit [simp]: "accounted (submit env e m) = accounted m + 1"
  by (simp add: accounted_def submit_def note_drop_def)

lemma KERNEL_EVENTS_submit [simp]: "KERNEL_EVENTS (submit (env\<lparr>reserve_ok := True\<rparr>) e no_maps) \<noteq> []"
  by (simp add: submit_def)

lemma KERNEL_EVENTS_no_maps [simp]: "KERNEL_EVENTS no_maps = []"
  by (simp add: no_maps_def)

lemma read_user_str_room [simp]: "read_user_str_bytes (env\<lparr>reserve_ok := b\<rparr>) = read_user_str_bytes env"
  by (simp add: read_user_str_bytes_def fun_eq_iff)

lemma on_syscall_accounted: "accounted (on_syscall m c) = accounted m + of_bool (reportable c)"
  by (cases c) (simp_all add: reportable_def probe_defs split: option.split)

text \<open>
  No record is lost silently. For every sequence of system calls, the records in the ring buffer and the
  drop counter together account for exactly the calls the probes can report (up to the wrap of the 64-bit counter).
\<close>

theorem drops_are_counted:
  "of_nat (length (filter reportable calls)) =
     of_nat (length (KERNEL_EVENTS (foldl on_syscall no_maps calls))) + DROPPED_EVENTS (foldl on_syscall no_maps calls)"
proof -
  have "accounted (foldl on_syscall m calls) = accounted m + of_nat (length (filter reportable calls))" for m
    by (induction calls arbitrary: m) (simp_all add: on_syscall_accounted)
  from this [of no_maps] show ?thesis by (simp add: accounted_def no_maps_def)
qed

end
