(* ===== verification/Store.thy ===== *)
theory Store
  imports Aegis_Common "HOL-Library.Product_Lexorder" "HOL-Library.Multiset"
begin

text \<open>
  The dashboard's in-memory aggregation (\<^verbatim>\<open>crates/aegis-dashboard/src/store.rs\<close>): running totals, capped
  counters, the ring buffer of recent events, the session archive and the queries over them.

  A \<^verbatim>\<open>HashMap\<close> is an association list with distinct keys and a \<^verbatim>\<open>HashSet\<close> a list without repetitions, in
  some iteration order; a result that must not depend on that order is shown not to. The \<^verbatim>\<open>BTreeMap\<close> of
  hours is an association list sorted by key. The \<^verbatim>\<open>u64\<close> totals count ingested events and are natural
  numbers. Unicode lower-casing and the rendering of a time belong to other code and are arguments.
\<close>

section \<open>Data\<close>

definition RECENT_CAP :: nat where "RECENT_CAP = 500"
definition HOURLY_WINDOW_HOURS :: int where "HOURLY_WINDOW_HOURS = 48"
definition TOP_N :: nat where "TOP_N = 10"
definition SESSION_ARCHIVE_CAP :: nat where "SESSION_ARCHIVE_CAP = 5000"
definition IOC_CAP :: nat where "IOC_CAP = 500"
definition COMMAND_CAP :: nat where "COMMAND_CAP = 3000"
definition COUNTER_CAP :: nat where "COUNTER_CAP = 10000"

record SessionRecord =
  sr_session_id :: string
  sr_ip :: IpAddr
  sr_port :: u16
  sr_geo :: "GeoIpInfo option"
  sr_start_time :: DateTime
  sr_end_time :: "DateTime option"
  sr_duration_secs :: "rat option"
  sr_username :: "string option"
  sr_password :: "string option"
  sr_command_count :: nat
  sr_payload_count :: nat

record GeoPoint =
  gp_lat :: rat
  gp_lon :: rat
  gp_country :: "string option"
  gp_city :: "string option"
  gp_count :: nat

type_synonym 'k counter = "('k \<times> nat) list"

record Store =
  total_sessions :: nat
  total_commands :: nat
  total_credentials :: nat
  total_payloads :: nat
  unique_ips :: "IpAddr list"
  ip_counts :: "IpAddr counter"
  country_counts :: "string counter"
  username_counts :: "string counter"
  password_counts :: "string counter"
  command_counts :: "string counter"
  hourly_activity :: "int counter"
  recent :: "TelemetryEvent list"
  archive :: "(string \<times> SessionRecord) list"
  session_order :: "string list"
  geo_map :: "((int \<times> int) \<times> GeoPoint) list"
  known_ip_iocs :: "string list"
  known_url_iocs :: "string list"
  known_wallet_iocs :: "string list"
  known_full_commands :: "string list"

definition Store_default :: Store where
  "Store_default =
     \<lparr>total_sessions = 0, total_commands = 0, total_credentials = 0, total_payloads = 0, unique_ips = [],
      ip_counts = [], country_counts = [], username_counts = [], password_counts = [], command_counts = [],
      hourly_activity = [], recent = [], archive = [], session_order = [], geo_map = [], known_ip_iocs = [],
      known_url_iocs = [], known_wallet_iocs = [], known_full_commands = []\<rparr>"

section \<open>Events\<close>

fun event_timestamp :: "TelemetryEvent \<Rightarrow> DateTime" where
  "event_timestamp (SessionStart e) = ss_timestamp e"
| "event_timestamp (SessionEnd e) = se_timestamp e"
| "event_timestamp (CredentialHarvest e) = ch_timestamp e"
| "event_timestamp (CommandRun e) = cr_timestamp e"
| "event_timestamp (SyscallExecve e) = sx_timestamp e"
| "event_timestamp (SyscallConnect e) = sc_timestamp e"
| "event_timestamp (SyscallMemfdCreate e) = sm_timestamp e"
| "event_timestamp (PayloadCaptured e) = pc_timestamp e"

fun event_ip :: "TelemetryEvent \<Rightarrow> IpAddr" where
  "event_ip (SessionStart e) = ss_ip e"
| "event_ip (SessionEnd e) = se_ip e"
| "event_ip (CredentialHarvest e) = ch_ip e"
| "event_ip (CommandRun e) = cr_ip e"
| "event_ip (SyscallExecve e) = sx_ip e"
| "event_ip (SyscallConnect e) = sc_ip e"
| "event_ip (SyscallMemfdCreate e) = sm_ip e"
| "event_ip (PayloadCaptured e) = pc_ip e"

fun event_kind :: "TelemetryEvent \<Rightarrow> string" where
  "event_kind (SessionStart e) = ''SESSION_START''"
| "event_kind (SessionEnd e) = ''SESSION_END''"
| "event_kind (CredentialHarvest e) = ''CREDENTIAL_HARVEST''"
| "event_kind (CommandRun e) = ''COMMAND_RUN''"
| "event_kind (SyscallExecve e) = ''SYSCALL_EXECVE''"
| "event_kind (SyscallConnect e) = ''SYSCALL_CONNECT''"
| "event_kind (SyscallMemfdCreate e) = ''SYSCALL_MEMFD_CREATE''"
| "event_kind (PayloadCaptured e) = ''PAYLOAD_CAPTURED''"

section \<open>Capped collections\<close>

definition insert_capped :: "'a list \<Rightarrow> 'a \<Rightarrow> nat \<Rightarrow> 'a list" where
  "insert_capped s v cap = (if v \<in> set s then s else if length s < cap then s @ [v] else s)"

definition bump_capped :: "'k counter \<Rightarrow> 'k \<Rightarrow> nat \<Rightarrow> 'k counter" where
  "bump_capped m key cap =
     (case map_of m key of
        Some c \<Rightarrow> AList.update key (c + 1) m
      | None \<Rightarrow> if length m < cap then AList.update key 1 m else m)"

fun btree_bump :: "int \<Rightarrow> int counter \<Rightarrow> int counter" where
  "btree_bump k [] = [(k, 1)]"
| "btree_bump k ((h, n) # m) =
     (if k < h then (k, 1) # (h, n) # m else if k = h then (h, n + 1) # m else (h, n) # btree_bump k m)"

definition bump_hour :: "DateTime \<Rightarrow> DateTime \<Rightarrow> Store \<Rightarrow> Store" where
  "bump_hour now ts s =
     (let hour = timestamp ts div 3600;
          m = btree_bump hour (hourly_activity s);
          cutoff = timestamp now div 3600 - HOURLY_WINDOW_HOURS
      in s\<lparr>hourly_activity := filter (\<lambda>(h, _). cutoff \<le> h) m\<rparr>)"

text \<open>\<^verbatim>\<open>f64::round\<close>, half away from zero, and the saturating cast to \<^verbatim>\<open>i32\<close>.\<close>

definition round_half_away :: "rat \<Rightarrow> int" where
  "round_half_away x = (if x < 0 then - \<lfloor>- x + 1 / 2\<rfloor> else \<lfloor>x + 1 / 2\<rfloor>)"

definition as_i32 :: "int \<Rightarrow> int" where
  "as_i32 n = max (- (2 ^ 31)) (min (2 ^ 31 - 1) n)"

definition bump_geo_point :: "GeoIpInfo option \<Rightarrow> Store \<Rightarrow> Store" where
  "bump_geo_point g s =
     (case g of
        None \<Rightarrow> s
      | Some geo \<Rightarrow>
          (case (lat geo, lon geo) of
             (Some la, Some lo) \<Rightarrow>
               let key = (as_i32 (round_half_away (la * 2)), as_i32 (round_half_away (lo * 2)));
                   pt = (case map_of (geo_map s) key of
                           Some p \<Rightarrow> p
                         | None \<Rightarrow> \<lparr>gp_lat = of_int (fst key) / 2, gp_lon = of_int (snd key) / 2,
                                    gp_country = country geo, gp_city = city geo, gp_count = 0\<rparr>)
               in s\<lparr>geo_map := AList.update key (pt\<lparr>gp_count := gp_count pt + 1\<rparr>) (geo_map s)\<rparr>
           | _ \<Rightarrow> s))"

section \<open>The session archive\<close>

text \<open>The eviction loop: pop the oldest until the order fits.\<close>

fun evict :: "string list \<Rightarrow> (string \<times> SessionRecord) list \<Rightarrow> string list \<times> (string \<times> SessionRecord) list" where
  "evict [] m = ([], m)"
| "evict (oldest # rest) m =
     (if SESSION_ARCHIVE_CAP < length (oldest # rest) then evict rest (AList.delete oldest m)
      else (oldest # rest, m))"

definition archive_session_start ::
  "string \<Rightarrow> IpAddr \<Rightarrow> u16 \<Rightarrow> GeoIpInfo option \<Rightarrow> DateTime \<Rightarrow> Store \<Rightarrow> Store" where
  "archive_session_start sid ip port geo start_time s =
     (let (order, m) =
            (if map_of (archive s) sid = None then evict (session_order s @ [sid]) (archive s)
             else (session_order s, archive s))
      in s\<lparr>session_order := order,
           archive := AList.update sid
             \<lparr>sr_session_id = sid, sr_ip = ip, sr_port = port, sr_geo = geo, sr_start_time = start_time,
              sr_end_time = None, sr_duration_secs = None, sr_username = None, sr_password = None,
              sr_command_count = 0, sr_payload_count = 0\<rparr> m\<rparr>)"

text \<open>\<^verbatim>\<open>if let Some(rec) = self.sessions.get_mut(..)\<close>\<close>

definition update_record :: "string \<Rightarrow> (SessionRecord \<Rightarrow> SessionRecord) \<Rightarrow> Store \<Rightarrow> Store" where
  "update_record sid f s =
     (case map_of (archive s) sid of
        Some r \<Rightarrow> s\<lparr>archive := AList.update sid (f r) (archive s)\<rparr>
      | None \<Rightarrow> s)"

section \<open>Ingestion\<close>

fun ingest_event :: "TelemetryEvent \<Rightarrow> Store \<Rightarrow> Store" where
  "ingest_event (SessionStart e) s =
     (let s1 = s\<lparr>total_sessions := total_sessions s + 1\<rparr>;
          s2 = (case Option.bind (ss_geo e) country of
                  Some c \<Rightarrow> if c \<noteq> ''Local'' then s1\<lparr>country_counts := bump_capped (country_counts s1) c COUNTER_CAP\<rparr> else s1
                | None \<Rightarrow> s1)
      in archive_session_start (ss_session_id e) (ss_ip e) (ss_port e) (ss_geo e) (ss_timestamp e)
           (bump_geo_point (ss_geo e) s2))"
| "ingest_event (SessionEnd e) s =
     update_record (se_session_id e)
       (\<lambda>r. r\<lparr>sr_end_time := Some (se_timestamp e), sr_duration_secs := Some (se_duration_secs e)\<rparr>) s"
| "ingest_event (CommandRun e) s =
     (let verb = (case split_whitespace (cr_command e) of w # _ \<Rightarrow> w | [] \<Rightarrow> cr_command e);
          s1 = s\<lparr>total_commands := total_commands s + 1,
                 command_counts := bump_capped (command_counts s) verb COUNTER_CAP,
                 known_full_commands := insert_capped (known_full_commands s) (cr_command e) COMMAND_CAP\<rparr>
      in update_record (cr_session_id e) (\<lambda>r. r\<lparr>sr_command_count := sr_command_count r + 1\<rparr>) s1)"
| "ingest_event (CredentialHarvest e) s =
     (let s1 = s\<lparr>total_credentials := total_credentials s + 1,
                 username_counts := bump_capped (username_counts s) (ch_username e) COUNTER_CAP\<rparr>;
          s2 = (case ch_password e of
                  Some pw \<Rightarrow> s1\<lparr>password_counts := bump_capped (password_counts s1) pw COUNTER_CAP\<rparr>
                | None \<Rightarrow> s1)
      in update_record (ch_session_id e)
           (\<lambda>r. r\<lparr>sr_username := Some (ch_username e), sr_password := ch_password e\<rparr>) s2)"
| "ingest_event (PayloadCaptured e) s =
     (let s1 = update_record (pc_session_id e) (\<lambda>r. r\<lparr>sr_payload_count := sr_payload_count r + 1\<rparr>)
                 (s\<lparr>total_payloads := total_payloads s + 1\<rparr>);
          add = foldl (\<lambda>m v. insert_capped m v IOC_CAP)
      in s1\<lparr>known_ip_iocs := add (known_ip_iocs s1) (ip_addresses (pc_iocs e)),
            known_url_iocs := add (known_url_iocs s1) (urls (pc_iocs e)),
            known_wallet_iocs := add (known_wallet_iocs s1) (monero_wallets (pc_iocs e))\<rparr>)"
| "ingest_event (SyscallExecve e) s = s"
| "ingest_event (SyscallConnect e) s = s"
| "ingest_event (SyscallMemfdCreate e) s = s"

text \<open>The ring buffer: push at the back, then pop from the front while it is too long.\<close>

fun pop_excess :: "'a list \<Rightarrow> 'a list" where
  "pop_excess [] = []"
| "pop_excess (x # xs) = (if RECENT_CAP < length (x # xs) then pop_excess xs else x # xs)"

definition push_recent :: "TelemetryEvent list \<Rightarrow> TelemetryEvent \<Rightarrow> TelemetryEvent list" where
  "push_recent r e = pop_excess (r @ [e])"

text \<open>\<open>now\<close> is the clock read while the event is ingested.\<close>

definition ingest :: "DateTime \<Rightarrow> TelemetryEvent \<Rightarrow> Store \<Rightarrow> Store" where
  "ingest now event s =
     (let s1 = bump_hour now (event_timestamp event) s;
          ip = event_ip event;
          s2 = s1\<lparr>unique_ips := insert_capped (unique_ips s1) ip COUNTER_CAP,
                  ip_counts := bump_capped (ip_counts s1) ip COUNTER_CAP\<rparr>;
          s3 = ingest_event event s2
      in s3\<lparr>recent := push_recent (recent s3) event\<rparr>)"

section \<open>Queries\<close>

type_synonym ranked = "string \<times> nat"

definition rank :: "ranked list \<Rightarrow> ranked list" where
  "rank xs = take TOP_N (sort_key (\<lambda>(v, c). (- int c, v)) xs)"

definition top_n :: "string counter \<Rightarrow> ranked list" where
  "top_n counts = rank counts"

definition top_n_ip :: "IpAddr counter \<Rightarrow> ranked list" where
  "top_n_ip counts = rank (map (\<lambda>(ip, c). (show_ip ip, c)) counts)"

definition threat_score :: "SessionRecord \<Rightarrow> nat" where
  "threat_score r =
     sr_command_count r + (if sr_username r \<noteq> None then 5 else 0) + sr_payload_count r * 25"

definition add_score :: "IpAddr counter \<Rightarrow> SessionRecord \<Rightarrow> IpAddr counter" where
  "add_score agg r =
     AList.update (sr_ip r) ((case map_of agg (sr_ip r) of Some n \<Rightarrow> n | None \<Rightarrow> 0) + threat_score r) agg"

definition top_threat_ips :: "Store \<Rightarrow> ranked list" where
  "top_threat_ips s = top_n_ip (foldl add_score [] (map snd (archive s)))"

record Summary =
  sum_sessions :: nat
  sum_commands :: nat
  sum_credentials :: nat
  sum_payloads :: nat
  sum_unique_ips :: nat
  top_usernames :: "ranked list"
  top_passwords :: "ranked list"
  top_commands :: "ranked list"
  top_ips :: "ranked list"
  top_countries :: "ranked list"
  top_threats :: "ranked list"
  hours :: "(string \<times> nat) list"

definition summary :: "(int \<Rightarrow> string) \<Rightarrow> Store \<Rightarrow> Summary" where
  "summary rfc3339 s =
     \<lparr>sum_sessions = total_sessions s, sum_commands = total_commands s, sum_credentials = total_credentials s,
      sum_payloads = total_payloads s, sum_unique_ips = length (unique_ips s),
      top_usernames = top_n (username_counts s), top_passwords = top_n (password_counts s),
      top_commands = top_n (command_counts s), top_ips = top_n_ip (ip_counts s),
      top_countries = top_n (country_counts s), top_threats = top_threat_ips s,
      hours = rev (map (\<lambda>(h, c). (rfc3339 (h * 3600), c)) (take 24 (rev (hourly_activity s))))\<rparr>"

definition recent_events :: "Store \<Rightarrow> nat \<Rightarrow> string option \<Rightarrow> IpAddr option \<Rightarrow> TelemetryEvent list" where
  "recent_events s limit kind ip =
     take limit
       (filter (\<lambda>e. case ip of Some target \<Rightarrow> event_ip e = target | None \<Rightarrow> True)
         (filter (\<lambda>e. case kind of Some k \<Rightarrow> eq_ignore_ascii_case (event_kind e) k | None \<Rightarrow> True) (rev (recent s))))"

definition session_events :: "Store \<Rightarrow> string \<Rightarrow> TelemetryEvent list" where
  "session_events s sid = filter (\<lambda>e. event_session_id e = Some sid) (recent s)"

definition record_matches :: "(string \<Rightarrow> string) \<Rightarrow> string \<Rightarrow> SessionRecord \<Rightarrow> bool" where
  "record_matches lowercase n r \<longleftrightarrow>
     (let opt = (\<lambda>x. case x of Some v \<Rightarrow> v | None \<Rightarrow> '''')
      in contains_str n (lowercase (sr_session_id r)) \<or> contains_str n (show_ip (sr_ip r)) \<or>
         contains_str n (lowercase (opt (sr_username r))) \<or> contains_str n (lowercase (opt (sr_password r))))"

record SessionSummary =
  su_session_id :: string
  su_ip :: string
  su_port :: u16
  su_geo :: "GeoIpInfo option"
  su_start_time :: string
  su_end_time :: "string option"
  su_duration_secs :: "rat option"
  su_username :: "string option"
  su_password :: "string option"
  su_command_count :: nat
  su_payload_count :: nat
  su_threat_score :: nat

definition to_summary :: "(DateTime \<Rightarrow> string) \<Rightarrow> SessionRecord \<Rightarrow> SessionSummary" where
  "to_summary rfc3339 r =
     \<lparr>su_session_id = sr_session_id r, su_ip = show_ip (sr_ip r), su_port = sr_port r, su_geo = sr_geo r,
      su_start_time = rfc3339 (sr_start_time r), su_end_time = map_option rfc3339 (sr_end_time r),
      su_duration_secs = sr_duration_secs r, su_username = sr_username r, su_password = sr_password r,
      su_command_count = sr_command_count r, su_payload_count = sr_payload_count r,
      su_threat_score = threat_score r\<rparr>"

definition matching_sessions ::
  "(string \<Rightarrow> string) \<Rightarrow> Store \<Rightarrow> string option \<Rightarrow> IpAddr option \<Rightarrow> SessionRecord list" where
  "matching_sessions lowercase s q ip =
     filter (\<lambda>r. case q of Some n \<Rightarrow> record_matches lowercase (lowercase n) r | None \<Rightarrow> True)
       (filter (\<lambda>r. case ip of Some target \<Rightarrow> sr_ip r = target | None \<Rightarrow> True)
         (List.map_filter (map_of (archive s)) (rev (session_order s))))"

definition sessions ::
  "(string \<Rightarrow> string) \<Rightarrow> (DateTime \<Rightarrow> string) \<Rightarrow> Store \<Rightarrow> string option \<Rightarrow> IpAddr option \<Rightarrow> nat \<Rightarrow> nat \<Rightarrow>
   SessionSummary list \<times> nat" where
  "sessions lowercase rfc3339 s q ip limit offset =
     (let matches = matching_sessions lowercase s q ip
      in (map (to_summary rfc3339) (take limit (drop offset matches)), length matches))"

definition geo_points :: "Store \<Rightarrow> GeoPoint list" where
  "geo_points s = sort_key (\<lambda>p. - int (gp_count p)) (map snd (geo_map s))"

record IocRollup =
  ir_ip_addresses :: "string list"
  ir_urls :: "string list"
  ir_monero_wallets :: "string list"

text \<open>The sets of the store are lists without duplicates.\<close>

definition sorted_vec :: "string list \<Rightarrow> string list" where
  "sorted_vec v = sort v"

definition ioc_rollup :: "Store \<Rightarrow> IocRollup" where
  "ioc_rollup s =
     \<lparr>ir_ip_addresses = sorted_vec (known_ip_iocs s), ir_urls = sorted_vec (known_url_iocs s),
      ir_monero_wallets = sorted_vec (known_wallet_iocs s)\<rparr>"

record KnownValues =
  kv_usernames :: "string list"
  kv_passwords :: "string list"
  kv_commands :: "string list"

definition known_values :: "Store \<Rightarrow> KnownValues" where
  "known_values s =
     \<lparr>kv_usernames = map fst (username_counts s), kv_passwords = map fst (password_counts s),
      kv_commands = sorted_vec (known_full_commands s)\<rparr>"

section \<open>First come, first kept\<close>

text \<open>The distinct elements of a list in the order of their first occurrence.\<close>

fun nub :: "'a list \<Rightarrow> 'a list" where
  "nub [] = []"
| "nub (x # xs) = x # filter (\<lambda>y. y \<noteq> x) (nub xs)"

lemma set_nub [simp]: "set (nub xs) = set xs"
  by (induction xs) auto

lemma distinct_nub [simp]: "distinct (nub xs)"
  by (induction xs) auto

lemma nub_distinct: "distinct xs \<Longrightarrow> nub xs = xs"
  by (induction xs) (auto simp: filter_id_conv)

lemma nub_append: "nub (xs @ ys) = nub xs @ filter (\<lambda>y. y \<notin> set xs) (nub ys)"
proof (induction xs)
  case (Cons x xs)
  have "filter (\<lambda>y. y \<noteq> x) (filter (\<lambda>y. y \<notin> set xs) (nub ys)) = filter (\<lambda>y. y \<noteq> x \<and> y \<notin> set xs) (nub ys)"
    by (simp add: conj_commute)
  then show ?case using Cons by simp
qed simp

lemma nub_snoc: "nub (xs @ [x]) = nub xs @ (if x \<in> set xs then [] else [x])"
  by (simp add: nub_append)

text \<open>
  The contract of the capped containers: a key that is present stays, a new one is appended while
  there is room and refused when there is none.
\<close>

locale capped_container =
  fixes add :: "'c \<Rightarrow> 'k \<Rightarrow> nat \<Rightarrow> 'c"
    and keys_of :: "'c \<Rightarrow> 'k list"
  assumes add_keys: "keys_of (add c k cap) =
    (if k \<in> set (keys_of c) then keys_of c else if length (keys_of c) < cap then keys_of c @ [k] else keys_of c)"
begin

definition fits :: "nat \<Rightarrow> 'c \<Rightarrow> bool" where
  "fits cap c \<longleftrightarrow> distinct (keys_of c) \<and> length (keys_of c) \<le> cap"

lemma add_fits: "fits cap c \<Longrightarrow> fits cap (add c k cap)"
  by (simp add: fits_def add_keys)

lemma run_fits: "fits cap c \<Longrightarrow> fits cap (foldl (\<lambda>c k. add c k cap) c ks)"
  by (induction ks arbitrary: c) (simp_all add: add_fits)

text \<open>After any sequence of keys, a container that started empty holds the first distinct ones that fit.\<close>

lemma run_keys:
  assumes "keys_of c = []"
  shows "keys_of (foldl (\<lambda>c k. add c k cap) c ks) = take cap (nub ks)"
proof (induction ks rule: rev_induct)
  case (snoc k ks)
  let ?t = "take cap (nub ks)"
  have "k \<notin> set ?t" if "k \<notin> set ks" using that set_take_subset [of cap "nub ks"] by auto
  moreover have "length ?t = cap" if "k \<in> set ks" "k \<notin> set ?t"
  proof (rule ccontr)
    assume "length ?t \<noteq> cap"
    then have "?t = nub ks" by simp
    then show False using that by (metis set_nub)
  qed
  moreover have "length ?t < cap \<longleftrightarrow> length (nub ks) < cap" by (simp add: min_def)
  ultimately show ?case using snoc by (auto simp: add_keys nub_snoc)
qed (simp add: assms)

lemma full_refuses:
  assumes "length (keys_of c) = cap" and "k \<notin> set (keys_of c)"
  shows "k \<notin> set (keys_of (foldl (\<lambda>c k. add c k cap) c ks))"
proof -
  have "keys_of (foldl (\<lambda>c k. add c k cap) c ks) = keys_of c"
    using assms(1) by (induction ks arbitrary: c) (simp_all add: add_keys)
  then show ?thesis using assms(2) by simp
qed

end

interpretation capped_set: capped_container insert_capped "\<lambda>s. s"
  by unfold_locales (simp add: insert_capped_def)

lemma bump_capped_keys:
  "map fst (bump_capped m k cap) =
     (if k \<in> set (map fst m) then map fst m else if length (map fst m) < cap then map fst m @ [k] else map fst m)"
  by (auto simp: bump_capped_def update_keys map_of_eq_None_iff split: option.splits dest: map_of_Some_fst)

interpretation capped_map: capped_container bump_capped "map fst"
  by unfold_locales (rule bump_capped_keys)

text \<open>A counter is exact for every key that got in.\<close>

lemma map_of_bump:
  "map_of (bump_capped m x cap) k =
     (if k = x then (case map_of m x of Some c \<Rightarrow> Some (c + 1) | None \<Rightarrow> if length m < cap then Some 1 else None)
      else map_of m k)"
  by (simp add: bump_capped_def split: option.split)

lemma bump_run_exact:
  "map_of (foldl (\<lambda>m k. bump_capped m k cap) [] ks) k = Some c \<Longrightarrow> c = count_list ks k"
proof (induction ks arbitrary: c rule: rev_induct)
  case (snoc x ks)
  define m where "m = foldl (\<lambda>m k. bump_capped m k cap) [] ks"
  have keys: "map fst m = take cap (nub ks)" using capped_map.run_keys [of "[]" cap ks] by (simp add: m_def)
  have "count_list ks x = 0" if "map_of m x = None" "length m < cap"
  proof -
    have "length (take cap (nub ks)) < cap" using that(2) by (metis keys length_map)
    then have "take cap (nub ks) = nub ks" by simp
    then have "set (nub ks) = fst ` set m" using keys by (metis set_map)
    then have "x \<notin> set (nub ks)" using that(1) by (simp add: map_of_eq_None_iff)
    then show ?thesis by (simp add: count_list_0_iff)
  qed
  then show ?case
    using snoc.prems snoc.IH
    by (auto simp: map_of_bump count_list_append simp flip: m_def split: if_splits option.splits)
qed simp

lemma bump_run_counts:
  "map_of (foldl (\<lambda>m k. bump_capped m k cap) [] ks) k =
     (if k \<in> set (take cap (nub ks)) then Some (count_list ks k) else None)"
proof -
  define m where "m = foldl (\<lambda>m k. bump_capped m k cap) [] ks"
  have "map fst m = take cap (nub ks)" using capped_map.run_keys [of "[]" cap ks] by (simp add: m_def)
  then have "set (take cap (nub ks)) = fst ` set m" by (metis set_map)
  moreover have "c = count_list ks k" if "map_of m k = Some c" for c
    using that bump_run_exact unfolding m_def by metis
  ultimately show ?thesis
    by (cases "map_of m k") (auto simp: map_of_eq_None_iff simp flip: m_def dest: map_of_Some_fst)
qed

section \<open>What one event does to each field\<close>

lemma store_parts [simp]:
  "recent (bump_hour now ts s) = recent s" "unique_ips (bump_hour now ts s) = unique_ips s"
  "ip_counts (bump_hour now ts s) = ip_counts s" "username_counts (bump_hour now ts s) = username_counts s"
  "password_counts (bump_hour now ts s) = password_counts s" "command_counts (bump_hour now ts s) = command_counts s"
  "country_counts (bump_hour now ts s) = country_counts s" "total_sessions (bump_hour now ts s) = total_sessions s"
  "total_commands (bump_hour now ts s) = total_commands s" "total_credentials (bump_hour now ts s) = total_credentials s"
  "total_payloads (bump_hour now ts s) = total_payloads s" "archive (bump_hour now ts s) = archive s"
  "session_order (bump_hour now ts s) = session_order s" "known_full_commands (bump_hour now ts s) = known_full_commands s"
  "known_ip_iocs (bump_hour now ts s) = known_ip_iocs s" "known_url_iocs (bump_hour now ts s) = known_url_iocs s"
  "known_wallet_iocs (bump_hour now ts s) = known_wallet_iocs s"
  by (simp_all add: bump_hour_def Let_def)

text \<open>The keys an event contributes to each counter.\<close>

fun username_of :: "TelemetryEvent \<Rightarrow> string option" where
  "username_of (CredentialHarvest e) = Some (ch_username e)"
| "username_of _ = None"

fun password_of :: "TelemetryEvent \<Rightarrow> string option" where
  "password_of (CredentialHarvest e) = ch_password e"
| "password_of _ = None"

fun verb_of :: "TelemetryEvent \<Rightarrow> string option" where
  "verb_of (CommandRun e) = Some (case split_whitespace (cr_command e) of w # _ \<Rightarrow> w | [] \<Rightarrow> cr_command e)"
| "verb_of _ = None"

definition bump_opt :: "'k counter \<Rightarrow> 'k option \<Rightarrow> 'k counter" where
  "bump_opt m k = (case k of Some x \<Rightarrow> bump_capped m x COUNTER_CAP | None \<Rightarrow> m)"

fun is_start :: "TelemetryEvent \<Rightarrow> bool" where
  "is_start (SessionStart e) = True" | "is_start _ = False"

fun is_command :: "TelemetryEvent \<Rightarrow> bool" where
  "is_command (CommandRun e) = True" | "is_command _ = False"

fun is_credential :: "TelemetryEvent \<Rightarrow> bool" where
  "is_credential (CredentialHarvest e) = True" | "is_credential _ = False"

fun is_payload :: "TelemetryEvent \<Rightarrow> bool" where
  "is_payload (PayloadCaptured e) = True" | "is_payload _ = False"

lemma update_record_fields [simp]:
  "recent (update_record i f s) = recent s" "ip_counts (update_record i f s) = ip_counts s"
  "unique_ips (update_record i f s) = unique_ips s" "username_counts (update_record i f s) = username_counts s"
  "password_counts (update_record i f s) = password_counts s" "command_counts (update_record i f s) = command_counts s"
  "country_counts (update_record i f s) = country_counts s" "total_sessions (update_record i f s) = total_sessions s"
  "total_commands (update_record i f s) = total_commands s" "total_credentials (update_record i f s) = total_credentials s"
  "total_payloads (update_record i f s) = total_payloads s" "known_full_commands (update_record i f s) = known_full_commands s"
  "known_ip_iocs (update_record i f s) = known_ip_iocs s" "known_url_iocs (update_record i f s) = known_url_iocs s"
  "known_wallet_iocs (update_record i f s) = known_wallet_iocs s" "session_order (update_record i f s) = session_order s"
  "map fst (archive (update_record i f s)) = map fst (archive s)"
  by (simp_all add: update_record_def update_keys map_of_Some_fst split: option.split)

lemma geo_point_fields [simp]:
  "recent (bump_geo_point g s) = recent s" "unique_ips (bump_geo_point g s) = unique_ips s"
  "ip_counts (bump_geo_point g s) = ip_counts s" "username_counts (bump_geo_point g s) = username_counts s"
  "password_counts (bump_geo_point g s) = password_counts s" "command_counts (bump_geo_point g s) = command_counts s"
  "country_counts (bump_geo_point g s) = country_counts s" "total_sessions (bump_geo_point g s) = total_sessions s"
  "total_commands (bump_geo_point g s) = total_commands s" "total_credentials (bump_geo_point g s) = total_credentials s"
  "total_payloads (bump_geo_point g s) = total_payloads s" "known_full_commands (bump_geo_point g s) = known_full_commands s"
  "known_ip_iocs (bump_geo_point g s) = known_ip_iocs s" "known_url_iocs (bump_geo_point g s) = known_url_iocs s"
  "known_wallet_iocs (bump_geo_point g s) = known_wallet_iocs s" "hourly_activity (bump_geo_point g s) = hourly_activity s"
  "archive (bump_geo_point g s) = archive s" "session_order (bump_geo_point g s) = session_order s"
  by (simp_all add: bump_geo_point_def Let_def split: option.split)

lemma archive_start_fields [simp]:
  "recent (archive_session_start i ip p g t s) = recent s" "unique_ips (archive_session_start i ip p g t s) = unique_ips s"
  "ip_counts (archive_session_start i ip p g t s) = ip_counts s" "username_counts (archive_session_start i ip p g t s) = username_counts s"
  "password_counts (archive_session_start i ip p g t s) = password_counts s" "command_counts (archive_session_start i ip p g t s) = command_counts s"
  "country_counts (archive_session_start i ip p g t s) = country_counts s" "total_sessions (archive_session_start i ip p g t s) = total_sessions s"
  "total_commands (archive_session_start i ip p g t s) = total_commands s" "total_credentials (archive_session_start i ip p g t s) = total_credentials s"
  "total_payloads (archive_session_start i ip p g t s) = total_payloads s" "known_full_commands (archive_session_start i ip p g t s) = known_full_commands s"
  "known_ip_iocs (archive_session_start i ip p g t s) = known_ip_iocs s" "known_url_iocs (archive_session_start i ip p g t s) = known_url_iocs s"
  "known_wallet_iocs (archive_session_start i ip p g t s) = known_wallet_iocs s" "hourly_activity (archive_session_start i ip p g t s) = hourly_activity s"
  "geo_map (archive_session_start i ip p g t s) = geo_map s"
  by (simp_all add: archive_session_start_def split_beta Let_def)

lemma ingest_fields:
  "recent (ingest now e s) = push_recent (recent s) e"
  "ip_counts (ingest now e s) = bump_capped (ip_counts s) (event_ip e) COUNTER_CAP"
  "unique_ips (ingest now e s) = insert_capped (unique_ips s) (event_ip e) COUNTER_CAP"
  "username_counts (ingest now e s) = bump_opt (username_counts s) (username_of e)"
  "password_counts (ingest now e s) = bump_opt (password_counts s) (password_of e)"
  "command_counts (ingest now e s) = bump_opt (command_counts s) (verb_of e)"
  "total_sessions (ingest now e s) = total_sessions s + (if is_start e then 1 else 0)"
  "total_commands (ingest now e s) = total_commands s + (if is_command e then 1 else 0)"
  "total_credentials (ingest now e s) = total_credentials s + (if is_credential e then 1 else 0)"
  "total_payloads (ingest now e s) = total_payloads s + (if is_payload e then 1 else 0)"
  by (cases e; simp add: ingest_def Let_def bump_opt_def split: option.split)+

section \<open>The store as a view of the log\<close>

type_synonym event_log = "(DateTime \<times> TelemetryEvent) list"

definition store_of :: "event_log \<Rightarrow> Store" where
  "store_of hist = foldl (\<lambda>s (now, e). ingest now e s) Store_default hist"

lemma store_of_simps: "store_of [] = Store_default" "store_of (hist @ [(now, e)]) = ingest now e (store_of hist)"
  by (simp_all add: store_of_def)

lemma pop_excess_drop: "pop_excess xs = drop (length xs - RECENT_CAP) xs"
proof (induction xs)
  case (Cons x xs)
  show ?case
  proof (cases "RECENT_CAP < length (x # xs)")
    case True
    then have "length (x # xs) - RECENT_CAP = Suc (length xs - RECENT_CAP)" by simp
    then show ?thesis using True Cons by simp
  qed simp
qed simp

lemma push_recent_last:
  assumes "r = drop (length es - RECENT_CAP) es"
  shows "push_recent r e = drop (length (es @ [e]) - RECENT_CAP) (es @ [e])"
proof (cases "RECENT_CAP < length (es @ [e])")
  case True
  then have "length es - RECENT_CAP + (length r + 1 - RECENT_CAP) = length (es @ [e]) - RECENT_CAP"
    using assms by (simp add: RECENT_CAP_def)
  moreover have "r @ [e] = drop (length es - RECENT_CAP) (es @ [e])" using assms True by (simp add: RECENT_CAP_def)
  ultimately show ?thesis by (simp add: push_recent_def pop_excess_drop add.commute)
next
  case False
  then show ?thesis using assms by (simp add: push_recent_def pop_excess_drop)
qed

lemma default_fields [simp]:
  "recent Store_default = []" "ip_counts Store_default = []" "username_counts Store_default = []"
  "password_counts Store_default = []" "command_counts Store_default = []" "total_sessions Store_default = 0"
  "total_commands Store_default = 0" "total_credentials Store_default = 0" "total_payloads Store_default = 0"
  "unique_ips Store_default = []" "country_counts Store_default = []" "archive Store_default = []"
  "session_order Store_default = []" "known_full_commands Store_default = []" "known_ip_iocs Store_default = []"
  "known_url_iocs Store_default = []" "known_wallet_iocs Store_default = []" "hourly_activity Store_default = []"
  by (simp_all add: Store_default_def)

lemma store_recent: "recent (store_of hist) = drop (length hist - RECENT_CAP) (map snd hist)"
proof (induction hist rule: rev_induct)
  case (snoc x hist)
  then show ?case
    using push_recent_last [of "recent (store_of hist)" "map snd hist" "snd x"]
    by (cases x) (simp add: store_of_simps ingest_fields)
qed (simp add: store_of_simps)

lemma store_totals:
  "total_sessions (store_of hist) = length (filter is_start (map snd hist))"
  "total_commands (store_of hist) = length (filter is_command (map snd hist))"
  "total_credentials (store_of hist) = length (filter is_credential (map snd hist))"
  "total_payloads (store_of hist) = length (filter is_payload (map snd hist))"
  by (induction hist rule: rev_induct) (auto simp: store_of_simps ingest_fields)

lemma store_counters:
  "ip_counts (store_of hist) = foldl (\<lambda>m k. bump_capped m k COUNTER_CAP) [] (map event_ip (map snd hist))"
  "username_counts (store_of hist) = foldl (\<lambda>m k. bump_capped m k COUNTER_CAP) [] (List.map_filter username_of (map snd hist))"
  "password_counts (store_of hist) = foldl (\<lambda>m k. bump_capped m k COUNTER_CAP) [] (List.map_filter password_of (map snd hist))"
  "command_counts (store_of hist) = foldl (\<lambda>m k. bump_capped m k COUNTER_CAP) [] (List.map_filter verb_of (map snd hist))"
  by (induction hist rule: rev_induct)
     (auto simp: store_of_simps ingest_fields bump_opt_def List.map_filter_def split: option.split)

text \<open>
  Claim C22: the store is an exact summary of the log. After ingesting any events at any times, the totals
  are the numbers of events of each kind, the live feed holds the last 500 events in order, and for
  addresses, user names, passwords and command verbs alike, the first 10000 distinct values are counted
  exactly and no other value appears.
\<close>

theorem store_refines_log:
  "let es = map snd hist; s = store_of hist;
       exact = (\<lambda>m ks. \<forall>k. map_of m k = (if k \<in> set (take 10000 (nub ks)) then Some (count_list ks k) else None));
       exact_ip = (\<lambda>m ks. \<forall>k. map_of m k = (if k \<in> set (take 10000 (nub ks)) then Some (count_list ks k) else None))
   in recent s = drop (length es - 500) es \<and>
      total_sessions s = length (filter is_start es) \<and> total_commands s = length (filter is_command es) \<and>
      total_credentials s = length (filter is_credential es) \<and> total_payloads s = length (filter is_payload es) \<and>
      exact_ip (ip_counts s) (map event_ip es) \<and>
      exact (username_counts s) (List.map_filter username_of es) \<and>
      exact (password_counts s) (List.map_filter password_of es) \<and>
      exact (command_counts s) (List.map_filter verb_of es)"
  unfolding Let_def store_counters bump_run_counts COUNTER_CAP_def store_totals store_recent RECENT_CAP_def by simp

section \<open>Bounds\<close>

text \<open>Every collection stays within its cap, and the archive and its order agree.\<close>

definition archive_ok :: "Store \<Rightarrow> bool" where
  "archive_ok s \<longleftrightarrow>
     distinct (session_order s) \<and> distinct (map fst (archive s)) \<and> set (session_order s) = fst ` set (archive s) \<and>
     length (session_order s) \<le> SESSION_ARCHIVE_CAP"

lemma archive_delete:
  "distinct (map fst m) \<Longrightarrow> distinct (map fst (AList.delete k m)) \<and> fst ` set (AList.delete k m) = fst ` set m - {k}"
  by (simp add: distinct_delete delete_conv flip: dom_map_of_conv_image_fst)

lemma evict_ok:
  assumes "distinct ord" and "distinct (map fst m)" and "set ord \<supseteq> fst ` set m" and "evict ord m = (ord', m')"
  shows "suffix ord' ord \<and> distinct (map fst m') \<and> fst ` set m' = fst ` set m \<inter> set ord' \<and>
    length ord' \<le> SESSION_ARCHIVE_CAP \<and> (ord \<noteq> [] \<longrightarrow> last ord \<in> set ord')"
  using assms
proof (induction ord m rule: evict.induct)
  case (2 x ord m)
  show ?case
  proof (cases "SESSION_ARCHIVE_CAP < length (x # ord)")
    case True
    have "set ord \<supseteq> fst ` set (AList.delete x m)" "distinct (map fst (AList.delete x m))"
      using archive_delete [OF 2(3), of x] 2(4) by auto
    moreover have "ord \<noteq> []" using True by (auto simp: SESSION_ARCHIVE_CAP_def)
    moreover have "fst ` set m \<inter> set ord' = (fst ` set m - {x}) \<inter> set ord'" if "suffix ord' ord"
      using that 2(2) set_mono_suffix by fastforce
    ultimately show ?thesis
      using 2(1) [OF True] 2(2,5) True archive_delete [OF 2(3), of x] by (auto intro: suffix_ConsI)
  next
    case False
    then show ?thesis using 2(2-5) by auto
  qed
qed auto

lemma archive_start_ok:
  assumes "archive_ok s"
  shows "archive_ok (archive_session_start sid ip port geo t s)"
proof (cases "map_of (archive s) sid")
  case None
  obtain ord m where e: "evict (session_order s @ [sid]) (archive s) = (ord, m)" by (cases "evict (session_order s @ [sid]) (archive s)")
  have new: "sid \<notin> fst ` set (archive s)" using None by (simp add: map_of_eq_None_iff)
  have "distinct (session_order s @ [sid])" using assms new by (simp add: archive_ok_def)
  from evict_ok [OF this _ _ e] assms
  have r: "suffix ord (session_order s @ [sid])" "distinct (map fst m)" "fst ` set m = fst ` set (archive s) \<inter> set ord"
    "length ord \<le> SESSION_ARCHIVE_CAP" "sid \<in> set ord"
    by (auto simp: archive_ok_def)
  have "distinct ord" "set ord \<subseteq> insert sid (fst ` set (archive s))"
    using r(1) \<open>distinct (session_order s @ [sid])\<close> assms set_mono_suffix [OF r(1)]
    by (metis distinct_append suffix_def) (use assms set_mono_suffix [OF r(1)] in \<open>auto simp: archive_ok_def\<close>)
  then show ?thesis
    using None e r new
    by (auto simp: archive_ok_def archive_session_start_def distinct_update dom_update
        simp flip: dom_map_of_conv_image_fst)
next
  case (Some r)
  then have "sid \<in> fst ` set (archive s)" by (rule map_of_Some_fst)
  then show ?thesis using assms Some
    by (simp add: archive_ok_def archive_session_start_def update_keys distinct_update image_iff)
       (metis fst_conv image_iff map_eq_conv set_map update_keys)
qed

fun country_of :: "TelemetryEvent \<Rightarrow> string option" where
  "country_of (SessionStart e) =
     (case Option.bind (ss_geo e) country of Some c \<Rightarrow> if c \<noteq> ''Local'' then Some c else None | None \<Rightarrow> None)"
| "country_of _ = None"

fun command_of :: "TelemetryEvent \<Rightarrow> string list" where
  "command_of (CommandRun e) = [cr_command e]"
| "command_of _ = []"

fun iocs_of :: "TelemetryEvent \<Rightarrow> string list \<times> string list \<times> string list" where
  "iocs_of (PayloadCaptured e) = (ip_addresses (pc_iocs e), urls (pc_iocs e), monero_wallets (pc_iocs e))"
| "iocs_of _ = ([], [], [])"

lemma ingest_sets:
  "country_counts (ingest now e s) = bump_opt (country_counts s) (country_of e)"
  "known_full_commands (ingest now e s) =
     foldl (\<lambda>m v. insert_capped m v COMMAND_CAP) (known_full_commands s) (command_of e)"
  "known_ip_iocs (ingest now e s) = foldl (\<lambda>m v. insert_capped m v IOC_CAP) (known_ip_iocs s) (fst (iocs_of e))"
  "known_url_iocs (ingest now e s) = foldl (\<lambda>m v. insert_capped m v IOC_CAP) (known_url_iocs s) (fst (snd (iocs_of e)))"
  "known_wallet_iocs (ingest now e s) = foldl (\<lambda>m v. insert_capped m v IOC_CAP) (known_wallet_iocs s) (snd (snd (iocs_of e)))"
  by (cases e; simp add: ingest_def Let_def bump_opt_def split: option.split)+

lemma archive_ok_other [simp]:
  "archive_ok (s\<lparr>total_sessions := x0\<rparr>) = archive_ok s" "archive_ok (s\<lparr>total_commands := x1\<rparr>) = archive_ok s"
  "archive_ok (s\<lparr>total_credentials := x2\<rparr>) = archive_ok s" "archive_ok (s\<lparr>total_payloads := x3\<rparr>) = archive_ok s"
  "archive_ok (s\<lparr>unique_ips := x4\<rparr>) = archive_ok s" "archive_ok (s\<lparr>ip_counts := x5\<rparr>) = archive_ok s"
  "archive_ok (s\<lparr>country_counts := x6\<rparr>) = archive_ok s" "archive_ok (s\<lparr>username_counts := x7\<rparr>) = archive_ok s"
  "archive_ok (s\<lparr>password_counts := x8\<rparr>) = archive_ok s" "archive_ok (s\<lparr>command_counts := x9\<rparr>) = archive_ok s"
  "archive_ok (s\<lparr>hourly_activity := x10\<rparr>) = archive_ok s" "archive_ok (s\<lparr>recent := x11\<rparr>) = archive_ok s"
  "archive_ok (s\<lparr>geo_map := x12\<rparr>) = archive_ok s" "archive_ok (s\<lparr>known_ip_iocs := x13\<rparr>) = archive_ok s"
  "archive_ok (s\<lparr>known_url_iocs := x14\<rparr>) = archive_ok s" "archive_ok (s\<lparr>known_wallet_iocs := x15\<rparr>) = archive_ok s"
  "archive_ok (s\<lparr>known_full_commands := x16\<rparr>) = archive_ok s"
  by (simp_all add: archive_ok_def)

lemma archive_ok_record [simp]: "archive_ok (update_record i f s) = archive_ok s"
  by (simp add: archive_ok_def flip: set_map)

lemma archive_ok_parts [simp]:
  "archive_ok (bump_hour now ts s) = archive_ok s" "archive_ok (bump_geo_point g s) = archive_ok s"
  by (simp_all add: archive_ok_def)

lemma archive_ok_event: "archive_ok s \<Longrightarrow> archive_ok (ingest_event e s)"
  by (cases e) (simp_all add: Let_def archive_start_ok split: option.split)

lemma archive_ok_ingest: "archive_ok s \<Longrightarrow> archive_ok (ingest now e s)"
  by (simp add: ingest_def Let_def archive_ok_event)

definition store_inv :: "Store \<Rightarrow> bool" where
  "store_inv s \<longleftrightarrow>
     archive_ok s \<and> length (recent s) \<le> RECENT_CAP \<and> capped_set.fits COUNTER_CAP (unique_ips s) \<and>
     capped_map.fits COUNTER_CAP (ip_counts s) \<and> capped_map.fits COUNTER_CAP (country_counts s) \<and>
     capped_map.fits COUNTER_CAP (username_counts s) \<and> capped_map.fits COUNTER_CAP (password_counts s) \<and>
     capped_map.fits COUNTER_CAP (command_counts s) \<and> capped_set.fits COMMAND_CAP (known_full_commands s) \<and>
     capped_set.fits IOC_CAP (known_ip_iocs s) \<and> capped_set.fits IOC_CAP (known_url_iocs s) \<and>
     capped_set.fits IOC_CAP (known_wallet_iocs s)"

lemma bump_opt_fits: "capped_map.fits COUNTER_CAP m \<Longrightarrow> capped_map.fits COUNTER_CAP (bump_opt m k)"
  by (cases k) (simp_all add: bump_opt_def capped_map.add_fits)

interpretation storing: step_system "\<lambda>s (now, e). ingest now e s" store_inv "\<lambda>_. True"
proof (unfold_locales, goal_cases)
  case (1 s x)
  obtain now e where x: "x = (now, e)" by (cases x)
  have "length (push_recent (recent s) e) \<le> RECENT_CAP" by (simp add: push_recent_def pop_excess_drop)
  then show ?case
    using 1(1) unfolding x prod.case store_inv_def ingest_fields ingest_sets
    by (intro conjI)
       (simp_all add: archive_ok_ingest bump_opt_fits capped_set.add_fits capped_map.add_fits capped_set.run_fits)
qed

text \<open>
  Claim C27: whatever attackers send, every capped collection of the dashboard's store keeps within its cap: after any sequence of events
  each counter holds at most 10000 keys, the feed 500 events, the archive 5000 sessions, the command
  set 3000 and each indicator set 500 entries, none twice, and the archive contains exactly the
  sessions listed in its order. The two maps that have no cap (places, activity by hour) are not covered.
\<close>

theorem store_is_bounded:
  "let s = store_of hist
   in length (recent s) \<le> 500 \<and> length (unique_ips s) \<le> 10000 \<and> length (ip_counts s) \<le> 10000 \<and>
      length (country_counts s) \<le> 10000 \<and> length (username_counts s) \<le> 10000 \<and>
      length (password_counts s) \<le> 10000 \<and> length (command_counts s) \<le> 10000 \<and>
      length (known_full_commands s) \<le> 3000 \<and> length (known_ip_iocs s) \<le> 500 \<and>
      length (known_url_iocs s) \<le> 500 \<and> length (known_wallet_iocs s) \<le> 500 \<and>
      length (archive s) \<le> 5000 \<and> distinct (map fst (archive s)) \<and> distinct (session_order s) \<and>
      set (session_order s) = fst ` set (archive s)"
proof -
  have "store_inv Store_default"
    by (simp add: store_inv_def archive_ok_def capped_set.fits_def capped_map.fits_def)
  then have inv: "store_inv (store_of hist)"
    using storing.run_inv [of Store_default hist] by (simp add: store_of_def list_all_iff)
  then have "length (archive (store_of hist)) = length (session_order (store_of hist))"
    unfolding store_inv_def archive_ok_def by (metis distinct_card length_map set_map)
  with inv show ?thesis
    unfolding Let_def store_inv_def archive_ok_def capped_set.fits_def capped_map.fits_def
      RECENT_CAP_def COUNTER_CAP_def COMMAND_CAP_def IOC_CAP_def SESSION_ARCHIVE_CAP_def by simp
qed

section \<open>Rankings\<close>

lemma rank_inj: "inj (\<lambda>(v :: string, c). (- int c, v))"
  by (auto simp: inj_def)

lemma sort_key_mset:
  assumes "inj f" and "mset xs = mset ys"
  shows "sort_key f xs = sort_key f ys"
proof -
  have "sort (map f zs) = map f (sort_key f zs)" for zs
    by (rule properties_for_sort) simp_all
  moreover have "sort (map f xs) = sort (map f ys)"
    by (rule properties_for_sort) (simp_all add: assms(2))
  ultimately have "map f (sort_key f xs) = map f (sort_key f ys)" by metis
  then show ?thesis using assms(1) by (simp add: inj_map_eq_map)
qed

lemma rank_split:
  assumes "x \<in> set (take n (sort_key f xs))" and "y \<in> set xs" and "y \<notin> set (take n (sort_key f xs))"
  shows "f x \<le> f y"
proof -
  have "y \<in> set (take n (sort_key f xs)) \<union> set (drop n (sort_key f xs))"
    using assms(2) by (simp flip: set_append)
  then have "y \<in> set (drop n (sort_key f xs))" using assms(3) by blast
  moreover have "sorted (map f (take n (sort_key f xs) @ drop n (sort_key f xs)))" by simp
  ultimately show ?thesis using assms(1) unfolding map_append sorted_append by auto
qed

text \<open>
  A ranking does not depend on the iteration order of the hash map it is computed from: it is the
  ten entries with the highest counts, ties broken by name, so that every entry that is left out
  comes after every entry that is listed.
\<close>

theorem top_n_is_ranking:
  assumes "mset counts' = mset counts"
  shows "top_n counts' = top_n counts \<and> length (top_n counts) = min 10 (length counts) \<and>
    set (top_n counts) \<subseteq> set counts \<and>
    (\<forall>v c v' c'. (v, c) \<in> set (top_n counts) \<longrightarrow> (v', c') \<in> set counts \<longrightarrow> (v', c') \<notin> set (top_n counts) \<longrightarrow>
       c' < c \<or> c' = c \<and> v \<le> v')"
proof -
  have "(- int c, v) \<le> (- int c', v')"
    if "(v, c) \<in> set (top_n counts)" "(v', c') \<in> set counts" "(v', c') \<notin> set (top_n counts)" for v c v' c'
    using rank_split [OF that [unfolded top_n_def rank_def]] by simp
  moreover have "top_n counts' = top_n counts"
    unfolding top_n_def rank_def sort_key_mset [OF rank_inj assms] ..
  moreover have "set (top_n counts) \<subseteq> set counts"
    using set_take_subset [of TOP_N "sort_key (\<lambda>(v, c). (- int c, v)) counts"] by (simp add: top_n_def rank_def)
  ultimately show ?thesis by (fastforce simp: top_n_def rank_def TOP_N_def less_eq_prod_def min.commute)
qed

theorem top_n_is_ranking_witness:
  "top_n [(''root'', 3), (''admin'', 7)] = top_n [(''admin'', 7), (''root'', 3)]"
  using top_n_is_ranking [of "[(''root'', 3), (''admin'', 7)]" "[(''admin'', 7), (''root'', 3)]"] by simp

lemma store_usernames_append:
  "username_counts (store_of (hist @ later)) =
     foldl (\<lambda>m k. bump_capped m k COUNTER_CAP) (username_counts (store_of hist)) (List.map_filter username_of (map snd later))"
  by (simp add: store_counters List.map_filter_def)

text \<open>
  Once the table of user names is full, a new name is never counted, however often it is tried:
  it can lead the real statistics by any margin and still never be listed. So a flood of random names hides
  whatever comes after it.
\<close>

theorem late_names_are_invisible:
  assumes "length (username_counts (store_of hist)) = 10000"
    and "u \<notin> fst ` set (username_counts (store_of hist))"
  shows "u \<notin> fst ` set (top_usernames (summary rfc3339 (store_of (hist @ later))))"
proof -
  have "u \<notin> set (map fst (username_counts (store_of (hist @ later))))"
    unfolding store_usernames_append
    using assms by (intro capped_map.full_refuses) (simp_all add: COUNTER_CAP_def)
  moreover have "set (top_n m) \<subseteq> set m" for m
    using set_take_subset [of TOP_N "sort_key (\<lambda>(v, c). (- int c, v)) m"] by (simp add: top_n_def rank_def)
  ultimately show ?thesis by (auto simp: summary_def)
qed

definition guess :: "nat \<Rightarrow> DateTime \<times> TelemetryEvent" where
  "guess n = (0, CredentialHarvest \<lparr>ch_timestamp = 0, ch_session_id = ''s'', ch_ip = V4 8 8 8 8,
     ch_username = replicate n (CHR ''x''), ch_password = None, ch_auth_method = Password\<rparr>)"

lemma flood_names:
  assumes "n \<le> COUNTER_CAP"
  shows "map fst (username_counts (store_of (map guess [0..<n]))) = map (\<lambda>i. replicate i (CHR ''x'')) [0..<n]"
proof -
  let ?names = "map (\<lambda>i. replicate i (CHR ''x'')) [0..<n]"
  have "List.map_filter username_of (map snd (map guess ns)) = map (\<lambda>i. replicate i (CHR ''x'')) ns" for ns
    by (induction ns) (simp_all add: guess_def List.map_filter_simps)
  then have "map fst (username_counts (store_of (map guess [0..<n]))) = take COUNTER_CAP (nub ?names)"
    unfolding store_counters using capped_map.run_keys [of "[]" COUNTER_CAP ?names] by simp
  moreover have "distinct ?names" by (simp add: distinct_map inj_on_def replicate_eq_replicate)
  ultimately show ?thesis using assms by (simp add: nub_distinct)
qed

lemma root_not_guessed: "''root'' \<notin> set (map (\<lambda>i. replicate i (CHR ''x'')) ns)"
proof
  assume "''root'' \<in> set (map (\<lambda>i. replicate i (CHR ''x'')) ns)"
  then obtain i where "''root'' = replicate i (CHR ''x'')" by auto
  then have "CHR ''r'' \<in> set (replicate i (CHR ''x''))" by (metis list.set_intros(1))
  then show False by simp
qed

theorem late_names_are_invisible_witness:
  "''root'' \<notin> fst ` set (top_usernames (summary (\<lambda>t. []) (store_of (map guess [0..<10000] @ map guess [7, 7]))))"
proof (rule late_names_are_invisible)
  have f: "map fst (username_counts (store_of (map guess [0..<10000]))) = map (\<lambda>i. replicate i (CHR ''x'')) [0..<10000]"
    by (rule flood_names) (simp add: COUNTER_CAP_def)
  have "length (map fst (username_counts (store_of (map guess [0..<10000])))) = length [0..<10000]"
    unfolding f by (rule length_map)
  then show "length (username_counts (store_of (map guess [0..<10000]))) = 10000"
    by (simp only: length_map length_upt diff_zero)
  show "''root'' \<notin> fst ` set (username_counts (store_of (map guess [0..<10000])))"
    unfolding set_map [symmetric] f by (rule root_not_guessed)
qed

end
