(* ===== verification/Dashboard.thy ===== *)
theory Dashboard
  imports Store Collector
begin

text \<open>
  The dashboard (\<^verbatim>\<open>crates/aegis-dashboard/src/main.rs\<close>): the bearer token, the authentication and header
  layers, and the HTTP handlers.

  The HTTP server is third-party code: a request arrives with its method, its path, its raw query, the text of its
  authorization header and the parameters the extractors parsed (\<^const>\<open>None\<close> when they do not parse),
  and a response is a status, headers and a body. JSON is not rendered: a body is the value that is serialised.
  Random bytes, the JSON parser, time rendering and Unicode lower-casing are arguments.
\<close>

section \<open>The bearer token\<close>

definition hex_encode :: "string \<Rightarrow> string" where
  "hex_encode bytes = concat (map hex_byte bytes)"

text \<open>The bytes of the two random UUIDs are arguments.\<close>

definition generate_token :: "string \<Rightarrow> string \<Rightarrow> string" where
  "generate_token uuid1 uuid2 = hex_encode (uuid1 @ uuid2)"

definition create_token :: "string \<Rightarrow> disk \<Rightarrow> path \<Rightarrow> (AegisError + string) \<times> disk" where
  "create_token token d p =
     (case create_private (Some token) d p of (Inl e, d1) \<Rightarrow> (Inl e, d1) | (Inr _, d1) \<Rightarrow> (Inr token, d1))"

definition load_or_create_token :: "string \<Rightarrow> string \<Rightarrow> disk \<Rightarrow> path \<Rightarrow> (AegisError + string) \<times> disk" where
  "load_or_create_token uuid1 uuid2 d p =
     (case fs_read_to_string d p of
        Some token \<Rightarrow> (Inr (trim token), d)
      | None \<Rightarrow> if not_found d p then create_token (generate_token uuid1 uuid2) d p else (Inl Io, d))"

section \<open>Requests and responses\<close>

record EventsQuery =
  eq_limit :: "nat option"
  eq_kind :: "string option"
  eq_ip :: "IpAddr option"

record SessionsQuery =
  sq_q :: "string option"
  sq_ip :: "IpAddr option"
  sq_limit :: "nat option"
  sq_offset :: "nat option"

record request =
  rq_method :: string
  rq_path :: string
  rq_query :: "string option"
  rq_authorization :: "string option"
  rq_events :: "EventsQuery option"
  rq_sessions :: "SessionsQuery option"

datatype body =
    Empty
  | Html string
  | Text string
  | Json_summary Summary
  | Json_events "TelemetryEvent list"
  | Json_sessions nat "SessionSummary list"
  | Json_geo "GeoPoint list"
  | Json_iocs IocRollup
  | Json_known KnownValues
  | Event_stream

record response =
  rs_status :: nat
  rs_headers :: "(string \<times> string) list"
  rs_body :: body

definition respond :: "nat \<Rightarrow> body \<Rightarrow> response" where
  "respond st b = \<lparr>rs_status = st, rs_headers = [], rs_body = b\<rparr>"

record AppState =
  app_store :: Store
  app_sessions_dir :: path
  app_token :: string
  app_require_auth :: bool

section \<open>Layers\<close>

definition SECURITY_HEADERS :: "(string \<times> string) list" where
  "SECURITY_HEADERS =
     [(''content-security-policy'',
       ''default-src '' @ [squote] @ ''self'' @ [squote] @ ''; script-src '' @ [squote] @ ''self'' @ [squote] @ '' '' @ [squote]
       @ ''unsafe-inline'' @ [squote] @ ''; style-src '' @ [squote] @ ''self'' @ [squote] @ '' '' @ [squote] @ ''unsafe-inline'' @ [squote]
       @ ''; img-src '' @ [squote] @ ''self'' @ [squote] @ '' data:; connect-src '' @ [squote] @ ''self'' @ [squote]
       @ ''; frame-ancestors '' @ [squote] @ ''none'' @ [squote] @ ''; base-uri '' @ [squote] @ ''none'' @ [squote]
       @ ''; form-action '' @ [squote] @ ''none'' @ [squote]),
      (''x-content-type-options'', ''nosniff''),
      (''referrer-policy'', ''no-referrer''),
      (''x-frame-options'', ''DENY'')]"

definition security_headers :: "response \<Rightarrow> response" where
  "security_headers r = r\<lparr>rs_headers := foldl (\<lambda>hs (k, v). AList.update k v hs) (rs_headers r) SECURITY_HEADERS\<rparr>"

definition split_once :: "char \<Rightarrow> string \<Rightarrow> (string \<times> string) option" where
  "split_once c s =
     (if c \<in> set s then Some (takeWhile (\<lambda>x. x \<noteq> c) s, tl (dropWhile (\<lambda>x. x \<noteq> c) s)) else None)"

fun find_map :: "('a \<Rightarrow> 'b option) \<Rightarrow> 'a list \<Rightarrow> 'b option" where
  "find_map f [] = None"
| "find_map f (x # xs) = (case f x of Some y \<Rightarrow> Some y | None \<Rightarrow> find_map f xs)"

definition query_token :: "string option \<Rightarrow> string option" where
  "query_token query =
     (case query of
        None \<Rightarrow> None
      | Some q \<Rightarrow>
          find_map (\<lambda>pair. case split_once (CHR ''='') pair of
                             Some (k, v) \<Rightarrow> if k = ''token'' then Some v else None
                           | None \<Rightarrow> None) (split_on (CHR ''&'') q))"

text \<open>
  \<^verbatim>\<open>ct_eq\<close> of the \<^verbatim>\<open>subtle\<close> crate is documented to decide the equality of equally long slices, in a time that does not
  depend on them; its result is the equality here and its timing is not modelled.
\<close>

definition constant_time_eq :: "string \<Rightarrow> string \<Rightarrow> bool" where
  "constant_time_eq a b \<longleftrightarrow> length a = length b \<and> a = b"

definition provided_token :: "request \<Rightarrow> string option" where
  "provided_token rq =
     (case Option.bind (rq_authorization rq) (strip_prefix ''Bearer '') of
        Some t \<Rightarrow> Some t
      | None \<Rightarrow> if rq_path rq = ''/'' \<or> rq_path rq = ''/api/stream'' then query_token (rq_query rq) else None)"

definition require_auth :: "AppState \<Rightarrow> (request \<Rightarrow> response) \<Rightarrow> request \<Rightarrow> response" where
  "require_auth st next rq =
     (if \<not> app_require_auth st then next rq
      else case provided_token rq of
             Some token \<Rightarrow> if constant_time_eq token (app_token st) then next rq else respond 401 Empty
           | None \<Rightarrow> respond 401 Empty)"

section \<open>Handlers\<close>

definition MAX_CAST_RESPONSE_BYTES :: nat where "MAX_CAST_RESPONSE_BYTES = 32 * 1024 * 1024"
definition MAX_EVENTS_LIMIT :: nat where "MAX_EVENTS_LIMIT = 500"
definition MAX_SESSIONS_LIMIT :: nat where "MAX_SESSIONS_LIMIT = 200"

definition opt_or :: "'a \<Rightarrow> 'a option \<Rightarrow> 'a" where
  "opt_or y x = (case x of Some v \<Rightarrow> v | None \<Rightarrow> y)"

definition get_events :: "AppState \<Rightarrow> EventsQuery \<Rightarrow> response" where
  "get_events st q =
     respond 200 (Json_events (recent_events (app_store st) (min (opt_or 50 (eq_limit q)) MAX_EVENTS_LIMIT) (eq_kind q) (eq_ip q)))"

definition is_valid_session_id :: "string \<Rightarrow> bool" where
  "is_valid_session_id sid \<longleftrightarrow> sid \<noteq> [] \<and> length sid \<le> 64 \<and> list_all is_ascii_hexdigit sid"

definition session_timeline :: "AppState \<Rightarrow> string \<Rightarrow> response" where
  "session_timeline st sid =
     (if is_valid_session_id sid then respond 200 (Json_events (session_events (app_store st) sid))
      else respond 400 (Json_events []))"

definition session_cast :: "AppState \<Rightarrow> disk \<Rightarrow> string \<Rightarrow> response" where
  "session_cast st d sid =
     (if \<not> is_valid_session_id sid then respond 400 (Text [])
      else let p = app_sessions_dir st @ [sid @ ''.cast'']
           in if \<not> path_exists d p then respond 404 (Text [])
              else case fs_read d p of
                     None \<Rightarrow> respond 500 (Text [])
                   | Some c \<Rightarrow> respond 200 (Text (from_utf8_lossy (take MAX_CAST_RESPONSE_BYTES c))))"

definition get_sessions :: "(string \<Rightarrow> string) \<Rightarrow> (DateTime \<Rightarrow> string) \<Rightarrow> AppState \<Rightarrow> SessionsQuery \<Rightarrow> response" where
  "get_sessions lowercase rfc3339 st q =
     (case sessions lowercase rfc3339 (app_store st) (sq_q q) (sq_ip q) (min (opt_or 50 (sq_limit q)) MAX_SESSIONS_LIMIT)
             (opt_or 0 (sq_offset q)) of (page, matched) \<Rightarrow>
        respond 200 (Json_sessions matched page))"

section \<open>Routing\<close>

record web_env =
  we_index_html :: string
  we_lowercase :: "string \<Rightarrow> string"
  we_rfc3339 :: "DateTime \<Rightarrow> string"
  we_rfc3339_secs :: "int \<Rightarrow> string"
  we_percent_decode :: "string \<Rightarrow> string option"

text \<open>A path parameter is percent-decoded by the extractor, which rejects the request if that fails.\<close>

definition with_param :: "web_env \<Rightarrow> string \<Rightarrow> (string \<Rightarrow> response) \<Rightarrow> response" where
  "with_param we raw handler = (case we_percent_decode we raw of Some sid \<Rightarrow> handler sid | None \<Rightarrow> respond 400 Empty)"

definition session_route :: "string \<Rightarrow> string list option" where
  "session_route p = map_option (split_on (CHR ''/'')) (strip_prefix ''/api/session/'' p)"

text \<open>The response of the route that the path selects, if one does.\<close>

definition endpoint :: "web_env \<Rightarrow> AppState \<Rightarrow> disk \<Rightarrow> request \<Rightarrow> response option" where
  "endpoint we st d rq =
     (let p = rq_path rq
      in if p = ''/'' then Some (respond 200 (Html (we_index_html we)))
         else if p = ''/api/summary'' then Some (respond 200 (Json_summary (summary (we_rfc3339_secs we) (app_store st))))
         else if p = ''/api/events''
         then Some (case rq_events rq of Some q \<Rightarrow> get_events st q | None \<Rightarrow> respond 400 Empty)
         else if p = ''/api/stream'' then Some (respond 200 Event_stream)
         else if p = ''/api/sessions''
         then Some (case rq_sessions rq of
                      Some q \<Rightarrow> get_sessions (we_lowercase we) (we_rfc3339 we) st q
                    | None \<Rightarrow> respond 400 Empty)
         else if p = ''/api/geo'' then Some (respond 200 (Json_geo (geo_points (app_store st))))
         else if p = ''/api/iocs'' then Some (respond 200 (Json_iocs (ioc_rollup (app_store st))))
         else if p = ''/api/known'' then Some (respond 200 (Json_known (known_values (app_store st))))
         else case session_route p of
                Some [raw] \<Rightarrow> if raw = [] then None else Some (with_param we raw (session_timeline st))
              | Some [raw, x] \<Rightarrow>
                  if raw \<noteq> [] \<and> x = ''cast'' then Some (with_param we raw (session_cast st d)) else None
              | _ \<Rightarrow> None)"

text \<open>
  Every route is registered with \<^verbatim>\<open>get\<close>, which the library documents to answer \<^verbatim>\<open>GET\<close>, to answer \<^verbatim>\<open>HEAD\<close> in the
  same way but without the body, and to answer any other method with status 405 and the allowed ones.
\<close>

definition get_only :: "string \<Rightarrow> response \<Rightarrow> response" where
  "get_only meth r =
     (if meth = ''GET'' then r
      else if meth = ''HEAD'' then r\<lparr>rs_body := Empty\<rparr>
      else \<lparr>rs_status = 405, rs_headers = [(''allow'', ''GET,HEAD'')], rs_body = Empty\<rparr>)"

definition route :: "web_env \<Rightarrow> AppState \<Rightarrow> disk \<Rightarrow> request \<Rightarrow> response" where
  "route we st d rq =
     (case endpoint we st d rq of
        Some r \<Rightarrow> get_only (rq_method rq) r
      | None \<Rightarrow> respond 404 Empty)"

definition serve :: "web_env \<Rightarrow> AppState \<Rightarrow> disk \<Rightarrow> request \<Rightarrow> response" where
  "serve we st d rq = security_headers (require_auth st (route we st d) rq)"

section \<open>Authentication\<close>

lemma provided_token_iff:
  "provided_token rq = Some t \<longleftrightarrow>
     rq_authorization rq = Some (''Bearer '' @ t) \<or>
     (\<nexists>b. rq_authorization rq = Some (''Bearer '' @ b)) \<and> rq_path rq \<in> {''/'', ''/api/stream''} \<and>
       query_token (rq_query rq) = Some t"
proof (cases "Option.bind (rq_authorization rq) (strip_prefix ''Bearer '')")
  case (Some b)
  then have "rq_authorization rq = Some (''Bearer '' @ b)" by (auto simp: bind_eq_Some_conv strip_prefix_Some)
  then show ?thesis using Some by (auto simp: provided_token_def)
next
  case None
  then have "\<nexists>b. rq_authorization rq = Some (''Bearer '' @ b)"
    by (auto simp: bind_eq_None_conv strip_prefix_None)
  then show ?thesis using None by (auto simp: provided_token_def)
qed

lemma constant_time_eq_iff [simp]: "constant_time_eq a b \<longleftrightarrow> a = b"
  by (auto simp: constant_time_eq_def)

text \<open>
  Claim C23: the gate in front of every route. With authentication on, a request is handled exactly when its
  authorization header is the configured token as a bearer, or when it has no bearer token there, asks for the page
  itself or the event stream, and has the configured token in its query. Any other request gets an empty 401 response, the same whatever the
  store and the disk contain; and every response carries the four security headers.
\<close>

theorem dashboard_gate:
  "serve we st d rq =
     (if app_require_auth st
      then if rq_authorization rq = Some (''Bearer '' @ app_token st) \<or>
              (\<nexists>b. rq_authorization rq = Some (''Bearer '' @ b)) \<and> rq_path rq \<in> {''/'', ''/api/stream''} \<and>
                query_token (rq_query rq) = Some (app_token st)
           then security_headers (route we st d rq)
           else \<lparr>rs_status = 401, rs_headers = SECURITY_HEADERS, rs_body = Empty\<rparr>
      else security_headers (route we st d rq)) \<and>
   map_of (rs_headers (serve we st d rq)) ''x-frame-options'' = Some ''DENY'' \<and>
   map_of (rs_headers (serve we st d rq)) ''referrer-policy'' = Some ''no-referrer'' \<and>
   map_of (rs_headers (serve we st d rq)) ''x-content-type-options'' = Some ''nosniff'' \<and>
   map_of (rs_headers (serve we st d rq)) ''content-security-policy'' = map_of SECURITY_HEADERS ''content-security-policy''"
proof -
  have "security_headers (respond 401 Empty) = \<lparr>rs_status = 401, rs_headers = SECURITY_HEADERS, rs_body = Empty\<rparr>"
    by (simp add: security_headers_def respond_def SECURITY_HEADERS_def)
  moreover have "map_of (rs_headers (security_headers r)) k =
      (if map_of SECURITY_HEADERS k = None then map_of (rs_headers r) k else map_of SECURITY_HEADERS k)" for r k
    by (simp add: security_headers_def SECURITY_HEADERS_def)
  moreover have "map_of SECURITY_HEADERS ''x-frame-options'' = Some ''DENY''"
    "map_of SECURITY_HEADERS ''referrer-policy'' = Some ''no-referrer''"
    "map_of SECURITY_HEADERS ''x-content-type-options'' = Some ''nosniff''"
    "map_of SECURITY_HEADERS ''content-security-policy'' \<noteq> None"
    by (simp_all add: SECURITY_HEADERS_def)
  ultimately show ?thesis
    unfolding provided_token_iff [symmetric] by (auto simp: serve_def require_auth_def split: option.split)
qed

text \<open>
  Claim C28: the dashboard reads no file but recordings: two disks that agree on the files
  \<^verbatim>\<open><hex id>.cast\<close> directly in the sessions directory give the same response to every request, so no path,
  however encoded, reaches anything else.
\<close>

theorem only_recordings_are_read:
  assumes "\<And>sid. is_valid_session_id sid \<Longrightarrow>
    dlookup d' (app_sessions_dir st @ [sid @ ''.cast'']) = dlookup d (app_sessions_dir st @ [sid @ ''.cast''])"
  shows "serve we st d' rq = serve we st d rq"
proof -
  have cast: "session_cast st d' = session_cast st d"
    using assms by (auto simp: fun_eq_iff session_cast_def Let_def path_exists_def fs_read_def)
  have "route we st d' = route we st d" unfolding route_def endpoint_def cast ..
  then show ?thesis by (simp add: serve_def)
qed

definition demo_web :: web_env where
  "demo_web =
     \<lparr>we_index_html = [], we_lowercase = (\<lambda>s. s), we_rfc3339 = (\<lambda>t. []), we_rfc3339_secs = (\<lambda>t. []),
      we_percent_decode = (\<lambda>s. Some s)\<rparr>"

definition demo_app :: "string \<Rightarrow> AppState" where
  "demo_app tok =
     \<lparr>app_store = Store_default, app_sessions_dir = [''sessions''], app_token = tok, app_require_auth = True\<rparr>"

definition web_disk :: "string \<Rightarrow> disk" where
  "web_disk c = \<lparr>dentries = [([''token''], DFile 384 c)], new_file_mode = 420, new_dir_mode = 493\<rparr>"

definition cast_request :: "string \<Rightarrow> request" where
  "cast_request sid =
     \<lparr>rq_method = ''GET'', rq_path = ''/api/session/'' @ sid @ ''/cast'', rq_query = None, rq_authorization = Some ''Bearer t'',
      rq_events = None, rq_sessions = None\<rparr>"

theorem only_recordings_are_read_witness:
  "serve demo_web (demo_app ''t'') (web_disk ''secret'') (cast_request ''../token'') =
   serve demo_web (demo_app ''t'') (web_disk ''other'') (cast_request ''../token'')"
  by (rule only_recordings_are_read) (simp add: web_disk_def dlookup_def demo_app_def)

section \<open>The token file\<close>

lemma hex_digit_hex: "n < 16 \<Longrightarrow> is_ascii_hexdigit (hex_digit n) \<and> byte_of (hex_digit n) < 128 \<and> \<not> is_ws (hex_digit n)"
  by (simp only: numeral_nat less_Suc_eq) (elim disjE; simp add: hex_digit_def is_ascii_hexdigit_def byte_of_def is_ws_def)

lemma hex_encode_chars: "c \<in> set (hex_encode bs) \<Longrightarrow> is_ascii_hexdigit c \<and> byte_of c < 128 \<and> \<not> is_ws c"
  using hex_digit_hex byte_of_less by (auto simp: hex_encode_def hex_byte_def less_mult_imp_div_less)

lemma hex_encode_length: "length (hex_encode bs) = 2 * length bs"
  by (induction bs) (simp_all add: hex_encode_def hex_byte_def)

lemma trim_no_ws: "\<forall>c\<in>set s. \<not> is_ws c \<Longrightarrow> trim s = s"
proof -
  assume s: "\<forall>c\<in>set s. \<not> is_ws c"
  have "dropWhile is_ws t = t" if "\<forall>c\<in>set t. \<not> is_ws c" for t using that by (cases t) auto
  from this [OF s] this [of "rev s"] s show ?thesis by (simp add: trim_def trim_start_def trim_end_def)
qed

lemma create_token_file:
  assumes "create_token t d p = (Inr tok, d')" and "p \<noteq> []"
  shows "tok = t" and "dlookup d' p = Some (DFile 384 t)"
  using assms create_private_file [of "Some t" d p] by (auto simp: create_token_def split: prod.splits sum.splits)

lemma generated_token:
  "trim (generate_token a b) = generate_token a b" "valid_utf8 (generate_token a b)"
  "list_all is_ascii_hexdigit (generate_token a b)" "length (generate_token a b) = 2 * (length a + length b)"
  using hex_encode_chars [of _ "a @ b"] hex_encode_length [of "a @ b"]
  by (auto simp: generate_token_def list_all_iff intro!: trim_no_ws valid_utf8_ascii)

text \<open>
  On a first run the dashboard stores a fresh token of 64 hexadecimal digits with mode 0600, and
  every later start, whatever random bytes it would draw, loads exactly that token and leaves the disk as it is.
\<close>

theorem token_survives_restart:
  assumes "not_found d p" and "p \<noteq> []" and "length a = 16" and "length b = 16"
    and "load_or_create_token a b d p = (Inr tok, d')"
  shows "length tok = 64 \<and> list_all is_ascii_hexdigit tok \<and> dlookup d' p = Some (DFile 384 tok) \<and>
    load_or_create_token x y d' p = (Inr tok, d')"
proof -
  have "fs_read_to_string d p = None"
    using assms(1) by (rule not_found_read)
  then have "create_token (generate_token a b) d p = (Inr tok, d')"
    using assms(1,5) by (simp add: load_or_create_token_def)
  note tok = create_token_file(1) [OF this assms(2)] and l = create_token_file(2) [OF this assms(2)]
  have "load_or_create_token x y d' p = (Inr tok, d')"
    using generated_token(1,2) [of a b] by (simp add: load_or_create_token_def fs_read_to_string_def fs_read_def tok l)
  then show ?thesis using l generated_token(3,4) [of a b] assms(3,4) by (simp add: tok)
qed

theorem token_survives_restart_witness:
  "\<exists>tok d'. load_or_create_token (replicate 16 (CHR ''a'')) (replicate 16 (CHR ''b''))
       \<lparr>dentries = [], new_file_mode = 420, new_dir_mode = 493\<rparr> [''tok''] = (Inr tok, d') \<and>
     load_or_create_token [] [] d' [''tok''] = (Inr tok, d')"
proof -
  let ?d = "\<lparr>dentries = [], new_file_mode = 420, new_dir_mode = 493\<rparr>"
  let ?a = "replicate 16 (CHR ''a'')" and ?b = "replicate 16 (CHR ''b'')"
  have nf: "not_found ?d [''tok'']" by (simp add: not_found_def path_exists_def is_file_def dlookup_def)
  obtain tok d' where r: "load_or_create_token ?a ?b ?d [''tok''] = (Inr tok, d')"
    using nf by (simp add: load_or_create_token_def create_token_def create_private_def fs_read_to_string_def fs_read_def dlookup_def
        fs_write_def fs_open_with_def is_dir_def put_def fs_set_permissions_def)
  have "length ?a = 16" "length ?b = 16" by (rule length_replicate)+
  from token_survives_restart [OF nf _ this r] r show ?thesis by blast
qed

text \<open>
  A token file that is empty, or holds only white space, is accepted as a token. The dashboard then
  serves its page to anyone who asks with an empty token in the query.
\<close>

theorem blank_token_file_opens_dashboard:
  assumes "fs_read_to_string d p = Some blank" and "trim blank = []"
  shows "\<exists>tok. load_or_create_token a b d p = (Inr tok, d) \<and>
    serve we (demo_app tok) d \<lparr>rq_method = ''GET'', rq_path = ''/'', rq_query = Some ''token='', rq_authorization = None,
      rq_events = None, rq_sessions = None\<rparr> = security_headers (respond 200 (Html (we_index_html we)))"
  using assms
  by (simp add: load_or_create_token_def serve_def require_auth_def provided_token_def query_token_def split_once_def
      demo_app_def route_def endpoint_def get_only_def)

theorem blank_token_file_opens_dashboard_witness:
  "\<exists>tok. load_or_create_token [] [] (web_disk nl) [''token''] = (Inr tok, web_disk nl) \<and>
    serve demo_web (demo_app tok) (web_disk nl) \<lparr>rq_method = ''GET'', rq_path = ''/'', rq_query = Some ''token='', rq_authorization = None,
      rq_events = None, rq_sessions = None\<rparr> = security_headers (respond 200 (Html (we_index_html demo_web)))"
  by (rule blank_token_file_opens_dashboard [of _ _ nl])
     (simp_all add: fs_read_to_string_def fs_read_def web_disk_def dlookup_def nl_def valid_utf8_def in_range_def byte_of_def
        trim_def trim_start_def trim_end_def is_ws_def)

end
