(* ===== verification/Tailer.thy ===== *)
theory Tailer
  imports Dashboard
begin

text \<open>
  The tailer of the dashboard (\<^verbatim>\<open>tail_attacks_log\<close> and \<^verbatim>\<open>read_new_lines\<close> in
  \<^verbatim>\<open>crates/aegis-dashboard/src/main.rs\<close>), which feeds the store and the live stream from the event log.

  The JSON parser is an argument, and so is the clock: \<open>clock n\<close> is the time read while the event number
  \<open>n\<close> is ingested. The tailer shares nothing with the logger but the file, so the two are interleaved as a
  sequence of appends and polls. A read sees the bytes of the length it asked for: the log only grows between
  \<^verbatim>\<open>metadata\<close> and \<^verbatim>\<open>read_to_end\<close>.
\<close>

definition MAX_TAIL_CHUNK_BYTES :: nat where "MAX_TAIL_CHUNK_BYTES = 8 * 1024 * 1024"

definition read_new_lines :: "disk \<Rightarrow> path \<Rightarrow> nat \<Rightarrow> (AegisError + string list) \<times> nat" where
  "read_new_lines d p offset0 =
     (if not_found d p then (Inr [], offset0)
      else case fs_len d p of
        None \<Rightarrow> (Inl Io, offset0)
      | Some len \<Rightarrow>
          let offset = (if len < offset0 then 0 else offset0)
          in if len = offset then (Inr [], offset)
             else case fs_read d p of
               None \<Rightarrow> (Inl Io, offset)
             | Some c \<Rightarrow>
                 let want = min (len - offset) MAX_TAIL_CHUNK_BYTES;
                     buf = take want (drop offset c)
                 in case rfind_char lf buf of
                      None \<Rightarrow> (Inr [], offset)
                    | Some last_newline \<Rightarrow>
                        (Inr (str_lines (from_utf8_lossy (take (last_newline + 1) buf))), offset + (last_newline + 1)))"

text \<open>The variables of the loop: the offset, the shared store, and what was sent to the live stream.\<close>

record tail_state =
  ts_offset :: nat
  ts_store :: Store
  ts_live :: "TelemetryEvent list"

type_synonym json_parser = "string \<Rightarrow> TelemetryEvent option"

definition tail_line :: "json_parser \<Rightarrow> (nat \<Rightarrow> DateTime) \<Rightarrow> tail_state \<Rightarrow> string \<Rightarrow> tail_state" where
  "tail_line parse clock ts line =
     (if trim line = [] then ts
      else case parse line of
             Some event \<Rightarrow>
               ts\<lparr>ts_live := ts_live ts @ [event],
                  ts_store := ingest (clock (length (ts_live ts))) event (ts_store ts)\<rparr>
           | None \<Rightarrow> ts)"

text \<open>One iteration of the polling loop, and its start.\<close>

definition tail_poll :: "json_parser \<Rightarrow> (nat \<Rightarrow> DateTime) \<Rightarrow> path \<Rightarrow> disk \<Rightarrow> tail_state \<Rightarrow> tail_state" where
  "tail_poll parse clock p d ts =
     (case read_new_lines d p (ts_offset ts) of
        (Inl e, offset) \<Rightarrow> ts\<lparr>ts_offset := offset\<rparr>
      | (Inr lines, offset) \<Rightarrow> foldl (tail_line parse clock) (ts\<lparr>ts_offset := offset\<rparr>) lines)"

definition tail_start :: tail_state where
  "tail_start = \<lparr>ts_offset = 0, ts_store = Store_default, ts_live = []\<rparr>"

text \<open>
  The live stream of one browser: what its receiver yields, where \<^const>\<open>Inl\<close> counts the messages of a gap, becomes
  named events; gaps and events that do not serialise are skipped.
\<close>

definition stream :: "json_fn \<Rightarrow> (nat + TelemetryEvent) list \<Rightarrow> (string \<times> string) list" where
  "stream json_data msgs =
     List.map_filter (\<lambda>msg. case msg of
         Inr event \<Rightarrow> (case json_data event of Some sse_event \<Rightarrow> Some (''telemetry'', sse_event) | None \<Rightarrow> None)
       | Inl lagged \<Rightarrow> None) msgs"

text \<open>The tailer beside the logger: bytes appended to the log, and polls.\<close>

datatype tail_event = Logged string | Polled

fun tail_step :: "json_parser \<Rightarrow> (nat \<Rightarrow> DateTime) \<Rightarrow> path \<Rightarrow> disk \<times> tail_state \<Rightarrow> tail_event \<Rightarrow> disk \<times> tail_state" where
  "tail_step parse clock p (d, ts) (Logged bytes) =
     (case fs_append bytes d p of Some d' \<Rightarrow> d' | None \<Rightarrow> d, ts)"
| "tail_step parse clock p (d, ts) Polled = (d, tail_poll parse clock p d ts)"

section \<open>What the tailer should deliver\<close>

text \<open>The events of a text, and the complete lines at its beginning.\<close>

definition events_of :: "json_parser \<Rightarrow> string \<Rightarrow> TelemetryEvent list" where
  "events_of parse s = List.map_filter parse (filter (\<lambda>l. trim l \<noteq> []) (str_lines (from_utf8_lossy s)))"

definition complete_lines :: "string \<Rightarrow> string" where
  "complete_lines c = (case rfind_char lf c of Some n \<Rightarrow> take (n + 1) c | None \<Rightarrow> [])"

definition line_start :: "string \<Rightarrow> nat \<Rightarrow> bool" where
  "line_start c n \<longleftrightarrow> n \<le> length c \<and> (n = 0 \<or> c ! (n - 1) = lf)"

definition events_ok :: "(nat \<Rightarrow> DateTime) \<Rightarrow> tail_state \<Rightarrow> bool" where
  "events_ok clock ts \<longleftrightarrow> ts_store ts = store_of (zip (map clock [0..<length (ts_live ts)]) (ts_live ts))"

section \<open>Reading\<close>

lemma byte_of_lf: "byte_of lf < 0x80"
  by (simp add: byte_of_def)

lemma events_of_append:
  assumes "a = [] \<or> last a = lf"
  shows "events_of parse (a @ b) = events_of parse a @ events_of parse b"
proof (cases a rule: rev_cases)
  case Nil
  then show ?thesis by (simp add: events_of_def from_utf8_lossy_def str_lines_def List.map_filter_def)
next
  case (snoc a' x)
  with assms have a: "a = a' @ [lf]" by simp
  have "str_lines (from_utf8_lossy (a @ b)) = str_lines (from_utf8_lossy a) @ str_lines (from_utf8_lossy b)"
    using str_lines_append [of "from_utf8_lossy a'" "from_utf8_lossy b"] from_utf8_lossy_cut [OF byte_of_lf, of a' b]
      from_utf8_lossy_snoc [OF byte_of_lf, of a'] by (simp add: a)
  then show ?thesis by (simp add: events_of_def List.map_filter_def)
qed

lemma line_start_take: "line_start c n \<Longrightarrow> take n c = [] \<or> last (take n c) = lf"
  by (cases n) (auto simp: line_start_def take_Suc_conv_app_nth)

lemma line_start_append: "line_start c n \<Longrightarrow> line_start (c @ x) n"
  by (cases n) (auto simp: line_start_def nth_append)

text \<open>One read of a log that holds \<open>c\<close>: it stays, or it moves to a later line start and returns what lies between.\<close>

lemma read_new_lines_file:
  assumes "fs_read d p = Some c" and "n \<le> length c"
  shows "read_new_lines d p n =
    (let buf = take MAX_TAIL_CHUNK_BYTES (drop n c)
     in case rfind_char lf buf of None \<Rightarrow> (Inr [], n)
        | Some k \<Rightarrow> (Inr (str_lines (from_utf8_lossy (take (k + 1) buf))), n + (k + 1)))"
proof -
  obtain m where m: "dlookup d p = Some (DFile m c)"
    using assms(1) by (auto simp: fs_read_def split: option.splits dentry.splits)
  then have "\<not> not_found d p" and len: "fs_len d p = Some (length c)"
    by (simp_all add: not_found_def path_exists_def fs_len_def)
  moreover have w: "take (min (length c - n) MAX_TAIL_CHUNK_BYTES) (drop n c) = take MAX_TAIL_CHUNK_BYTES (drop n c)"
    by (auto simp: min_def)
  ultimately show ?thesis
    using assms by (cases "length c = n") (simp_all add: read_new_lines_def Let_def w del: take_take cong: option.case_cong)
qed

lemma read_new_lines_cases:
  assumes "fs_read d p = Some c" and "n \<le> length c"
  shows "(lf \<notin> set (take MAX_TAIL_CHUNK_BYTES (drop n c)) \<and> read_new_lines d p n = (Inr [], n)) \<or>
    (\<exists>m>n. line_start c m \<and> lf \<in> set (take (m - n) (drop n c)) \<and>
       lf \<in> set (take MAX_TAIL_CHUNK_BYTES (drop n c)) \<and>
       read_new_lines d p n = (Inr (str_lines (from_utf8_lossy (take (m - n) (drop n c)))), m))"
proof -
  define buf where buf: "buf = take MAX_TAIL_CHUNK_BYTES (drop n c)"
  have r: "read_new_lines d p n = (case rfind_char lf buf of None \<Rightarrow> (Inr [], n)
      | Some k \<Rightarrow> (Inr (str_lines (from_utf8_lossy (take (k + 1) buf))), n + (k + 1)))"
    using read_new_lines_file [OF assms] unfolding buf Let_def .
  show ?thesis
  proof (cases "rfind_char lf buf")
    case None
    then show ?thesis using r rfind_char_None [of lf buf] buf by simp
  next
    case (Some k)
    then obtain a b where ab: "buf = a @ lf # b" "length a = k" using rfind_char_Some by blast
    have len: "n + Suc k \<le> length c" and k: "k < MAX_TAIL_CHUNK_BYTES"
      using arg_cong [OF ab(1), of length] ab(2) by (simp_all add: buf)
    have "take (Suc k) buf = take (Suc k) (drop n c)" using k by (simp add: buf min_def)
    moreover have "buf ! k = lf" by (simp add: ab(1) flip: ab(2))
    then have "c ! (n + k) = lf" using len k by (simp add: buf)
    moreover have "lf \<in> set (take (Suc k) buf)" "lf \<in> set buf" using ab by auto
    ultimately show ?thesis
      using r Some len by (intro disjI2 exI [of _ "n + Suc k"]) (simp add: line_start_def flip: buf)
  qed
qed

section \<open>Polling\<close>

lemma tail_lines:
  assumes "events_ok clock ts"
  shows "ts_live (foldl (tail_line parse clock) ts lines) =
      ts_live ts @ List.map_filter parse (filter (\<lambda>l. trim l \<noteq> []) lines)"
    and "ts_offset (foldl (tail_line parse clock) ts lines) = ts_offset ts"
    and "events_ok clock (foldl (tail_line parse clock) ts lines)"
proof (induction lines rule: rev_induct)
  case Nil
  { case 1 show ?case by (simp add: List.map_filter_def) }
  { case 2 show ?case by simp }
  { case 3 show ?case using assms by simp }
next
  case (snoc line lines)
  { case 1 show ?case using snoc(1) by (auto simp: tail_line_def List.map_filter_def split: option.split) }
  { case 2 show ?case using snoc(2) by (auto simp: tail_line_def split: option.split) }
  { case 3 show ?case
      using snoc(3) by (auto simp: tail_line_def events_ok_def store_of_simps(2) split: option.split) }
qed

lemma take_split: "n \<le> m \<Longrightarrow> take m c = take n c @ take (m - n) (drop n c)"
  by (metis le_add_diff_inverse take_add)

text \<open>The tailer has delivered exactly the lines before its offset.\<close>

definition tail_inv :: "json_parser \<Rightarrow> (nat \<Rightarrow> DateTime) \<Rightarrow> path \<Rightarrow> disk \<times> tail_state \<Rightarrow> bool" where
  "tail_inv parse clock p = (\<lambda>(d, ts).
     (not_found d p \<or> is_file d p) \<and> line_start (contents d p) (ts_offset ts) \<and>
     ts_live ts = events_of parse (take (ts_offset ts) (contents d p)) \<and> events_ok clock ts)"

lemma events_ok_offset [simp]: "events_ok clock (ts\<lparr>ts_offset := n\<rparr>) = events_ok clock ts"
  by (simp add: events_ok_def)

lemma is_file_read: "is_file d p \<Longrightarrow> fs_read d p = Some (contents d p)"
  by (auto simp: is_file_def contents_def fs_read_def split: option.splits dentry.splits)

lemma not_found_poll [simp]: "not_found d p \<Longrightarrow> tail_poll parse clock p d ts = ts"
  by (simp add: tail_poll_def read_new_lines_def)

lemma tail_poll_inv:
  assumes "tail_inv parse clock p (d, ts)"
  shows "tail_inv parse clock p (d, tail_poll parse clock p d ts)"
proof (cases "not_found d p")
  case True
  then show ?thesis using assms by simp
next
  case False
  let ?c = "contents d p" and ?n = "ts_offset ts"
  have rd: "fs_read d p = Some ?c" using False assms is_file_read by (auto simp: tail_inv_def)
  have n: "?n \<le> length ?c" "line_start ?c ?n" and live: "ts_live ts = events_of parse (take ?n ?c)"
    and ok: "events_ok clock ts"
    using assms by (auto simp: tail_inv_def line_start_def)
  from read_new_lines_cases [OF rd n(1)] show ?thesis
  proof (elim disjE conjE exE)
    assume "read_new_lines d p ?n = (Inr [], ?n)"
    then show ?thesis using assms by (simp add: tail_poll_def)
  next
    fix m
    let ?x = "take (m - ?n) (drop ?n ?c)"
    assume m: "?n < m" "line_start ?c m" and r: "read_new_lines d p ?n = (Inr (str_lines (from_utf8_lossy ?x)), m)"
    have "take m ?c = take ?n ?c @ ?x" using m take_split [of ?n m ?c] by simp
    then have "events_of parse (take m ?c) = ts_live ts @ events_of parse ?x"
      using events_of_append [OF line_start_take [OF n(2)]] live by simp
    moreover have "is_file d p" using False assms by (simp add: tail_inv_def)
    ultimately show ?thesis
      using m ok tail_lines [of clock "ts\<lparr>ts_offset := m\<rparr>" parse]
      by (simp add: tail_inv_def tail_poll_def r) (simp add: events_of_def)
  qed
qed

lemma append_contents:
  assumes "not_found d p \<or> is_file d p" and "fs_append bytes d p = Some d'"
  shows "is_file d' p \<and> contents d' p = contents d p @ bytes"
proof -
  have "p \<noteq> []" using assms(1) by (auto simp: not_found_def path_exists_def is_file_def dlookup_def)
  then show ?thesis
    using assms(2)
    by (auto simp: fs_append_def fs_open_with_def contents_def fs_read_def is_file_def dlookup_put
        split: option.splits dentry.splits if_splits)
qed

interpretation tailing: step_system "tail_step parse clock p" "tail_inv parse clock p" "\<lambda>_. True" for parse clock p
proof (unfold_locales, goal_cases)
  case (1 s e)
  obtain d ts where s: "s = (d, ts)" by (cases s)
  show ?case
  proof (cases e)
    case (Logged bytes)
    show ?thesis
    proof (cases "fs_append bytes d p")
      case None
      then show ?thesis using 1(1) by (simp add: s Logged)
    next
      case (Some d')
      then have "is_file d' p" "contents d' p = contents d p @ bytes"
        using 1(1) append_contents s by (auto simp: tail_inv_def)
      then show ?thesis
        using 1(1) by (auto simp: s Logged Some tail_inv_def line_start_append) (simp_all add: line_start_def)
    qed
  next
    case Polled
    then show ?thesis using 1(1) tail_poll_inv by (simp add: s)
  qed
qed

lemma tail_start_inv: "not_found d p \<or> is_file d p \<Longrightarrow> tail_inv parse clock p (d, tail_start)"
  by (simp add: tail_inv_def tail_start_def line_start_def events_ok_def store_of_simps events_of_def
      from_utf8_lossy_def str_lines_def List.map_filter_def)

section \<open>Delivery\<close>

text \<open>
  Claim C21: the tailer delivers each line of the log once and in order, however appends and polls interleave
  and wherever a line is cut by an append or by the 8 MiB chunk. At every moment the events sent to the live
  stream are the events of the lines before the offset, decoded as if they had been read in one piece; the
  offset is the start of a line; and the store holds exactly these events.
\<close>

theorem tail_delivers_each_line_once:
  assumes "not_found d0 p \<or> is_file d0 p"
    and "foldl (tail_step parse clock p) (d0, tail_start) es = (d, ts)"
  shows "ts_live ts = events_of parse (take (ts_offset ts) (contents d p)) \<and>
    line_start (contents d p) (ts_offset ts) \<and>
    ts_store ts = store_of (zip (map clock [0..<length (ts_live ts)]) (ts_live ts))"
  using tailing.run_inv [OF tail_start_inv [OF assms(1)], of es parse clock] assms(2)
  by (simp add: list_all_iff tail_inv_def events_ok_def)

text \<open>A log in the working directory, and a parser that reads every line as one event.\<close>

definition tail_disk :: "string \<Rightarrow> disk" where
  "tail_disk c = \<lparr>dentries = [([''log''], DFile 384 c)], new_file_mode = 420, new_dir_mode = 493\<rparr>"

theorem tail_delivers_each_line_once_witness:
  "\<forall>parse clock. \<exists>d ts. foldl (tail_step parse clock [''log'']) (tail_disk ''a'', tail_start)
       [Polled, Logged (nl @ ''b''), Polled] = (d, ts) \<and>
     ts_live ts = events_of parse (take (ts_offset ts) (contents d [''log'']))"
proof (intro allI)
  fix parse clock
  have "is_file (tail_disk ''a'') [''log'']" by (simp add: is_file_def dlookup_def tail_disk_def)
  then show "\<exists>d ts. foldl (tail_step parse clock [''log'']) (tail_disk ''a'', tail_start)
       [Polled, Logged (nl @ ''b''), Polled] = (d, ts) \<and>
     ts_live ts = events_of parse (take (ts_offset ts) (contents d [''log'']))"
    using tail_delivers_each_line_once [of "tail_disk ''a''" "[''log'']" parse clock] by (metis surj_pair)
qed

text \<open>Every poll consumes a line feed while the line at the offset fits into a chunk.\<close>

lemma line_start_split: 
  assumes "line_start c n" and "drop n c = l @ lf # r" and "lf \<notin> set l"
  shows "l \<in> set (split_on lf c)"
proof (cases n)
  case 0
  then show ?thesis using assms by (simp add: split_on_append_sep split_on_no_sep)
next
  case (Suc k)
  then have "take n c = take k c @ [lf]"
    using assms(1) by (auto simp: line_start_def take_Suc_conv_app_nth)
  then have "c = take k c @ lf # (l @ lf # r)"
    using append_take_drop_id [of n c] assms(2) by simp
  then have "split_on lf c = split_on lf (take k c) @ split_on lf l @ split_on lf r"
    by (metis split_on_append_sep)
  then show ?thesis using assms(3) by (simp add: split_on_no_sep)
qed

lemma poll_progress:
  assumes "fs_read d p = Some c" and "line_start c (ts_offset ts)" and "lf \<in> set (drop (ts_offset ts) c)"
    and "list_all (\<lambda>l. length l < MAX_TAIL_CHUNK_BYTES) (split_on lf c)" and "events_ok clock ts"
  shows "count_list (drop (ts_offset (tail_poll parse clock p d ts)) c) lf < count_list (drop (ts_offset ts) c) lf"
proof -
  let ?n = "ts_offset ts"
  obtain l r where lr: "drop ?n c = l @ lf # r" "lf \<notin> set l" using assms(3) split_list_first by fast
  then have "length l < MAX_TAIL_CHUNK_BYTES"
    using line_start_split [OF assms(2)] assms(4) by (auto simp: list_all_iff)
  then have "lf \<in> set (take MAX_TAIL_CHUNK_BYTES (drop ?n c))"
    by (cases MAX_TAIL_CHUNK_BYTES) (auto simp: lr(1) take_Cons')
  moreover have "?n \<le> length c" using assms(2) by (simp add: line_start_def)
  ultimately obtain m where m: "?n < m" "lf \<in> set (take (m - ?n) (drop ?n c))"
      "read_new_lines d p ?n = (Inr (str_lines (from_utf8_lossy (take (m - ?n) (drop ?n c)))), m)"
    using read_new_lines_cases [OF assms(1)] by blast
  then have "ts_offset (tail_poll parse clock p d ts) = m"
    using tail_lines(2) [of clock "ts\<lparr>ts_offset := m\<rparr>"] assms(5) by (simp add: tail_poll_def)
  moreover have "drop ?n c = take (m - ?n) (drop ?n c) @ drop m c"
    using m(1) by (metis append_take_drop_id drop_drop le_add_diff_inverse2 less_imp_le)
  then have "count_list (drop ?n c) lf = count_list (take (m - ?n) (drop ?n c)) lf + count_list (drop m c) lf"
    by (metis count_list_append)
  moreover have "count_list (take (m - ?n) (drop ?n c)) lf \<noteq> 0" using m(2) by (simp add: count_list_0_iff)
  ultimately show ?thesis by simp
qed

lemma polls_fst [simp]: "fst (foldl (tail_step parse clock p) (d, ts) (replicate n Polled)) = d"
  by (induction n arbitrary: ts) simp_all

lemma polls_catch_up:
  assumes "is_file d p" and "tail_inv parse clock p (d, ts)"
    and "list_all (\<lambda>l. length l < MAX_TAIL_CHUNK_BYTES) (split_on lf (contents d p))"
    and "count_list (drop (ts_offset ts) (contents d p)) lf \<le> n"
  shows "lf \<notin> set (drop (ts_offset (snd (foldl (tail_step parse clock p) (d, ts) (replicate n Polled)))) (contents d p))"
  using assms(2,4)
proof (induction n arbitrary: ts)
  case 0
  then show ?case by (simp add: count_list_0_iff)
next
  case (Suc n)
  let ?ts = "tail_poll parse clock p d ts"
  have inv: "tail_inv parse clock p (d, ?ts)" by (rule tail_poll_inv [OF Suc.prems(1)])
  have "count_list (drop (ts_offset ?ts) (contents d p)) lf \<le> n"
  proof (cases "lf \<in> set (drop (ts_offset ts) (contents d p))")
    case True
    then show ?thesis
      using poll_progress [OF is_file_read [OF assms(1)] _ True assms(3), of clock parse] Suc.prems
      by (simp add: tail_inv_def)
  next
    case False
    moreover have "ts_offset ts \<le> length (contents d p)" using Suc.prems(1) by (simp add: tail_inv_def line_start_def)
    ultimately have "read_new_lines d p (ts_offset ts) = (Inr [], ts_offset ts)"
      using read_new_lines_cases [OF is_file_read [OF assms(1)]] by (meson in_set_takeD)
    then show ?thesis using False by (simp add: tail_poll_def count_list_0_iff)
  qed
  from Suc.IH [OF inv this] show ?case by simp
qed

lemma complete_lines_take:
  assumes "line_start c n" and "lf \<notin> set (drop n c)"
  shows "take n c = complete_lines c"
proof (cases n)
  case 0
  then show ?thesis using assms rfind_char_None [of lf c] by (simp add: complete_lines_def)
next
  case (Suc k)
  then have k: "take n c = take k c @ [lf]" "k < length c"
    using assms(1) by (auto simp: line_start_def take_Suc_conv_app_nth)
  then have "c = take k c @ lf # drop n c" using append_take_drop_id [of n c] by simp
  then have "rfind_char lf c = Some k" using rfind_char_last [OF assms(2), of "take k c"] k(2) by simp
  then show ?thesis using Suc by (simp add: complete_lines_def)
qed

text \<open>
  The tailer catches up. Whatever happened before, if no line of the log is longer than a chunk, then as
  many polls as the log has lines deliver every complete line of it.
\<close>

theorem tail_catches_up:
  assumes "not_found d0 p \<or> is_file d0 p"
    and "foldl (tail_step parse clock p) (d0, tail_start) es = (d, ts)" and "is_file d p"
    and "list_all (\<lambda>l. length l < MAX_TAIL_CHUNK_BYTES) (split_on lf (contents d p))"
    and "count_list (contents d p) lf \<le> n"
  shows "ts_live (snd (foldl (tail_step parse clock p) (d, ts) (replicate n Polled))) =
    events_of parse (complete_lines (contents d p))"
proof -
  have inv: "tail_inv parse clock p (d, ts)"
    using tailing.run_inv [OF tail_start_inv [OF assms(1)], of es parse clock] assms(2) by (simp add: list_all_iff)
  obtain ts' where ts': "foldl (tail_step parse clock p) (d, ts) (replicate n Polled) = (d, ts')"
    using polls_fst [of parse clock p d ts n] by (metis prod.collapse)
  have "count_list (drop (ts_offset ts) (contents d p)) lf \<le> n"
    using assms(5) by (metis append_take_drop_id count_list_append add_leE)
  with polls_catch_up [OF assms(3) inv assms(4)] ts'
  have "lf \<notin> set (drop (ts_offset ts') (contents d p))" by fastforce
  moreover have "tail_inv parse clock p (d, ts')"
    using tailing.run_inv [OF inv, of "replicate n Polled"] by (simp add: list_all_iff ts')
  ultimately show ?thesis by (simp add: tail_inv_def complete_lines_take ts')
qed

theorem tail_catches_up_witness:
  "\<forall>parse clock. ts_live (snd (foldl (tail_step parse clock [''log'']) (tail_disk (''a'' @ nl @ ''b''), tail_start) (replicate 1 Polled))) =
   events_of parse (complete_lines (''a'' @ nl @ ''b''))"
proof (intro allI)
  fix parse clock
  let ?d = "tail_disk (''a'' @ nl @ ''b'')"
  have f: "is_file ?d [''log'']" and c: "contents ?d [''log''] = ''a'' @ nl @ ''b''"
    by (simp_all add: is_file_def contents_def fs_read_def dlookup_def tail_disk_def)
  have "list_all (\<lambda>l. length l < MAX_TAIL_CHUNK_BYTES) (split_on lf (contents ?d [''log'']))"
    unfolding c by (simp add: nl_def MAX_TAIL_CHUNK_BYTES_def)
  moreover have "count_list (contents ?d [''log'']) lf \<le> 1" unfolding c by (simp add: nl_def)
  ultimately show "ts_live (snd (foldl (tail_step parse clock [''log'']) (?d, tail_start) (replicate 1 Polled))) =
      events_of parse (complete_lines (''a'' @ nl @ ''b''))"
    using tail_catches_up [of ?d "[''log'']" parse clock "[]" ?d tail_start 1] f c by simp
qed

section \<open>Where the tailer goes wrong\<close>

text \<open>
  A rotation is noticed only while the new file is shorter than the offset: a read depends on nothing but the
  bytes behind the offset, so the beginning of a new file that has grown past it is never read.
\<close>

lemma rotation_past_offset_goes_unnoticed:
  assumes "fs_read d p = Some (old_lines @ x)" and "fs_read d' p = Some (new_lines @ x)"
    and "length new_lines = length old_lines"
  shows "read_new_lines d' p (length old_lines) = read_new_lines d p (length old_lines)"
  using read_new_lines_file [OF assms(1)] read_new_lines_file [OF assms(2)] assms(3) by simp

text \<open>A line that does not fit into a chunk.\<close>

definition blocked :: "path \<Rightarrow> tail_state \<Rightarrow> disk \<times> tail_state \<Rightarrow> bool" where
  "blocked p ts = (\<lambda>(d, ts').
     ts' = ts \<and> is_file d p \<and> ts_offset ts + MAX_TAIL_CHUNK_BYTES \<le> length (contents d p) \<and>
     lf \<notin> set (take MAX_TAIL_CHUNK_BYTES (drop (ts_offset ts) (contents d p))))"

interpretation blocking: step_system "tail_step parse clock p" "blocked p ts" "\<lambda>_. True" for parse clock p ts
proof (unfold_locales, goal_cases)
  case (1 s e)
  then obtain d where s: "s = (d, ts)" by (cases s) (simp add: blocked_def)
  have f: "is_file d p" using 1(1) by (simp add: s blocked_def)
  show ?case
  proof (cases e)
    case (Logged bytes)
    then show ?thesis
      using 1(1) append_contents [of d p bytes] by (cases "fs_append bytes d p") (auto simp: s blocked_def)
  next
    case Polled
    have "read_new_lines d p (ts_offset ts) = (Inr [], ts_offset ts)"
      using read_new_lines_cases [OF is_file_read [OF f], of "ts_offset ts"] 1(1) by (auto simp: s blocked_def)
    then show ?thesis using 1(1) by (simp add: s Polled tail_poll_def)
  qed
qed

text \<open>
  Claim C40: a line longer than the chunk of 8 MiB stops the tailer: as long as the log is only appended to and not
  rotated, no later append and no number of polls moves the offset or delivers another event.
\<close>

theorem oversized_line_blocks_tailer:
  assumes "is_file d p" and "ts_offset ts + MAX_TAIL_CHUNK_BYTES \<le> length (contents d p)"
    and "lf \<notin> set (take MAX_TAIL_CHUNK_BYTES (drop (ts_offset ts) (contents d p)))"
  shows "snd (foldl (tail_step parse clock p) (d, ts) es) = ts"
  using blocking.run_inv [of p ts "(d, ts)" es parse clock] assms
  by (cases "foldl (tail_step parse clock p) (d, ts) es") (simp add: blocked_def list_all_iff)

theorem oversized_line_blocks_tailer_witness:
  "\<forall>parse clock. snd (foldl (tail_step parse clock [''log''])
      (tail_disk (replicate MAX_TAIL_CHUNK_BYTES (CHR ''a'')), tail_start) [Logged nl, Polled, Polled]) = tail_start"
proof (intro allI)
  fix parse clock
  let ?d = "tail_disk (replicate MAX_TAIL_CHUNK_BYTES (CHR ''a''))"
  have f: "is_file ?d [''log'']" and c: "contents ?d [''log''] = replicate MAX_TAIL_CHUNK_BYTES (CHR ''a'')"
    by (simp_all add: is_file_def contents_def fs_read_def dlookup_def tail_disk_def)
  then have "ts_offset tail_start + MAX_TAIL_CHUNK_BYTES \<le> length (contents ?d [''log''])"
    and "lf \<notin> set (take MAX_TAIL_CHUNK_BYTES (drop (ts_offset tail_start) (contents ?d [''log''])))"
    by (simp_all add: tail_start_def)
  from oversized_line_blocks_tailer [OF f this]
  show "snd (foldl (tail_step parse clock [''log'']) (?d, tail_start) [Logged nl, Polled, Polled]) = tail_start" .
qed

end
