(* ===== verification/Pipeline.thy ===== *)
theory Pipeline
  imports Tailer
begin

text \<open>
  The two processes together: the collector of the gateway (\<^verbatim>\<open>crates/aegis-collector/src/lib.rs\<close>) appends to the
  event log that the tailer of the dashboard (\<^verbatim>\<open>crates/aegis-dashboard/src/main.rs\<close>) polls. They share nothing else,
  so a run is an arbitrary interleaving of reported events and polls.
\<close>

datatype pipe_event = Reported TelemetryEvent | Read_poll

fun pipe_step ::
  "json_fn \<Rightarrow> json_parser \<Rightarrow> (nat \<Rightarrow> DateTime) \<Rightarrow> path \<Rightarrow> collector_state \<times> tail_state \<Rightarrow> pipe_event \<Rightarrow>
   collector_state \<times> tail_state" where
  "pipe_step to_json parse clock p (s, ts) (Reported e) = (snd (collect_event to_json p s e), ts)"
| "pipe_step to_json parse clock p (s, ts) Read_poll = (s, tail_poll parse clock p (cdisk s) ts)"

definition reported :: "pipe_event list \<Rightarrow> TelemetryEvent list" where
  "reported ops = List.map_filter (\<lambda>x. case x of Reported e \<Rightarrow> Some e | Read_poll \<Rightarrow> None) ops"

text \<open>
  What the JSON library promises of an event: it is written on one line of text, without control characters,
  that reads back as the event.
\<close>

definition json_ok :: "json_fn \<Rightarrow> json_parser \<Rightarrow> TelemetryEvent \<Rightarrow> bool" where
  "json_ok to_json parse e \<longleftrightarrow>
     (case to_json e of
        None \<Rightarrow> False
      | Some l \<Rightarrow> parse l = Some e \<and> valid_utf8 l \<and> trim l \<noteq> [] \<and> list_all (\<lambda>b. 0x20 \<le> byte_of b) l)"

lemma json_okE:
  assumes "json_ok to_json parse e"
  obtains l where "to_json e = Some l" "parse l = Some e" "valid_utf8 l" "trim l \<noteq> []" "lf \<notin> set l" "cr \<notin> set l"
proof -
  from assms obtain l where l: "to_json e = Some l" "parse l = Some e" "valid_utf8 l" "trim l \<noteq> []"
    "list_all (\<lambda>b. 0x20 \<le> byte_of b) l"
    by (auto simp: json_ok_def split: option.splits)
  have "lf \<notin> set l" "cr \<notin> set l" using l(5) by (auto simp: list_all_iff byte_of_def)
  with l(1-4) show ?thesis by (rule that)
qed

lemma json_ok_line: "json_ok to_json parse e \<Longrightarrow> \<exists>l. to_json e = Some l \<and> lf \<notin> set l"
  by (erule json_okE) blast

section \<open>The browser\<close>

text \<open>The stream of a browser that does not lag carries the lines of the log; a gap skips what it covers and no more.\<close>

lemma stream_is_log: "concat (map (\<lambda>(name, l). l @ nl) (stream to_json (map Inr es))) = log_lines to_json es"
  by (induction es) (auto simp: stream_def log_lines_def List.map_filter_def)

lemma stream_skips_gap: "stream to_json (before @ Inl n # after) = stream to_json before @ stream to_json after"
  by (simp add: stream_def List.map_filter_def)

section \<open>Lines\<close>

lemma json_line_events:
  assumes "parse l = Some e" "valid_utf8 l" "trim l \<noteq> []" "lf \<notin> set l" "cr \<notin> set l"
  shows "events_of parse (l @ nl) = [e]"
proof -
  have "valid_utf8 (l @ nl)"
    by (rule valid_utf8_append [OF assms(2) valid_utf8_ascii]) (simp add: nl_def byte_of_def)
  moreover have "strip_cr l = l" using assms(5) by (auto simp: strip_cr_def dest: last_in_set)
  then have "str_lines (l @ nl) = [l]"
    using assms(4) by (simp add: str_lines_def nl_def split_on_append_sep split_on_no_sep)
  ultimately show ?thesis
    using assms(1,3) by (simp add: events_of_def from_utf8_lossy_valid List.map_filter_def)
qed

lemma log_lines_Cons: "to_json e = Some l \<Longrightarrow> log_lines to_json (e # es) = (l @ nl) @ log_lines to_json es"
  by (simp add: log_lines_def List.map_filter_def)

lemma log_lines_snoc: "to_json e = Some l \<Longrightarrow> log_lines to_json (es @ [e]) = log_lines to_json es @ l @ nl"
  by (simp add: log_lines_def List.map_filter_def)

lemma log_lines_events:
  "list_all (json_ok to_json parse) es \<Longrightarrow> events_of parse (log_lines to_json es) = es"
proof (induction es)
  case Nil
  then show ?case
    by (simp add: log_lines_def events_of_def from_utf8_lossy_def str_lines_def List.map_filter_def)
next
  case (Cons e es)
  have "json_ok to_json parse e" using Cons.prems by simp
  then obtain l where l: "to_json e = Some l" "parse l = Some e" "valid_utf8 l" "trim l \<noteq> []" "lf \<notin> set l" "cr \<notin> set l"
    by (rule json_okE)
  have "events_of parse ((l @ nl) @ log_lines to_json es) = events_of parse (l @ nl) @ events_of parse (log_lines to_json es)"
    by (rule events_of_append) (simp add: nl_def)
  then show ?case using Cons json_line_events [of parse l e, OF l(2-6)] log_lines_Cons [of to_json, OF l(1)] by simp
qed

section \<open>The invariant\<close>

text \<open>The log holds the old lines and one line for every event reported since; the tailer is where it should be.\<close>

definition pipe_inv ::
  "json_fn \<Rightarrow> json_parser \<Rightarrow> (nat \<Rightarrow> DateTime) \<Rightarrow> path \<Rightarrow> string \<Rightarrow> TelemetryEvent list \<Rightarrow>
   collector_state \<times> tail_state \<Rightarrow> bool" where
  "pipe_inv to_json parse clock p old rep = (\<lambda>(s, ts).
     p \<noteq> [] \<and> is_file (cdisk s) p \<and> contents (cdisk s) p = old @ log_lines to_json rep \<and>
     log_written s = length (contents (cdisk s) p) \<and> tail_inv parse clock p (cdisk s, ts))"

lemma pipe_inv_report:
  assumes "pipe_inv to_json parse clock p old rep (s, ts)" and "to_json e = Some l"
    and "length old + length (log_lines to_json (rep @ [e])) < MAX_LOG_BYTES"
  shows "pipe_inv to_json parse clock p old (rep @ [e]) (snd (collect_event to_json p s e), ts)"
proof -
  let ?d = "ignore (fs_append (l @ nl)) (cdisk s) p"
  obtain m where d: "dlookup (cdisk s) p = Some (DFile m (old @ log_lines to_json rep))"
    using assms(1) by (auto simp: pipe_inv_def is_file_def contents_def split: option.splits dentry.splits)
  have p: "p \<noteq> []" and w: "log_written s = length (old @ log_lines to_json rep)"
    using assms(1) by (simp_all add: pipe_inv_def)
  have "fs_append (l @ nl) (cdisk s) p = Some ?d"
    using d by (simp add: ignore_def fs_append_def fs_open_with_def)
  then have step: "tail_step parse clock p (cdisk s, ts) (Logged (l @ nl)) = (?d, ts)" by simp
  have "tail_inv parse clock p (tail_step parse clock p (cdisk s, ts) (Logged (l @ nl)))"
    by (rule tailing.step_inv) (use assms(1) in \<open>simp_all add: pipe_inv_def\<close>)
  then have inv: "tail_inv parse clock p (?d, ts)" by (simp only: step)
  have "log_written s + length l + 1 < MAX_LOG_BYTES"
    using assms(3) w by (simp add: log_lines_snoc [of to_json, OF assms(2)] nl_def)
  then have "cdisk (snd (collect_event to_json p s e)) = ?d" "log_written (snd (collect_event to_json p s e)) = log_written s + length l + 1"
    using assms(2) by (simp_all add: collect_event_def Let_def)
  then show ?thesis
    using inv append_lookup [OF d p, of "l @ nl" p] p w
    by (simp add: pipe_inv_def is_file_def contents_def log_lines_snoc [of to_json, OF assms(2)] nl_def)
qed

lemma reported_snoc: "reported (ops @ [Reported e]) = reported ops @ [e]" "reported (ops @ [Read_poll]) = reported ops"
  by (simp_all add: reported_def List.map_filter_def)

lemma pipe_run_inv:
  assumes law: "list_all (json_ok to_json parse) (reported ops)" and "pipe_inv to_json parse clock p old [] (s0, ts0)"
    and "length old + length (log_lines to_json (reported ops)) < MAX_LOG_BYTES"
  shows "pipe_inv to_json parse clock p old (reported ops) (foldl (pipe_step to_json parse clock p) (s0, ts0) ops)"
  using assms(1,3)
proof (induction ops rule: rev_induct)
  case Nil
  then show ?case using assms(2) by (simp add: reported_def)
next
  case (snoc x ops)
  obtain s ts where st: "foldl (pipe_step to_json parse clock p) (s0, ts0) ops = (s, ts)" by fastforce
  show ?case
  proof (cases x)
    case (Reported e)
    have "json_ok to_json parse e" using snoc.prems(1) by (simp add: Reported reported_snoc)
    then obtain l where l: "to_json e = Some l" using json_ok_line by blast
    have "pipe_inv to_json parse clock p old (reported ops) (s, ts)"
      using snoc st by (simp add: Reported reported_snoc log_lines_snoc [of to_json, OF l])
    then show ?thesis using pipe_inv_report [of to_json, OF _ l] snoc.prems by (simp add: Reported reported_snoc st)
  next
    case Read_poll
    then have "pipe_inv to_json parse clock p old (reported ops) (s, ts)"
      using snoc st by (simp add: reported_snoc)
    then show ?thesis using tail_poll_inv by (simp add: Read_poll reported_snoc st pipe_inv_def)
  qed
qed

lemma read_polls:
  "foldl (pipe_step to_json parse clock p) (s, ts) (replicate n Read_poll) =
   (s, snd (foldl (tail_step parse clock p) (cdisk s, ts) (replicate n Polled)))"
  by (induction n arbitrary: ts) simp_all

section \<open>From the gateway to the dashboard\<close>

lemma prefix_events:
  assumes "line_start c n"
  shows "prefix (events_of parse (take n c)) (events_of parse c)"
  using events_of_append [OF line_start_take [OF assms], of parse "drop n c"] by simp

lemma count_log_lines:
  "list_all (json_ok to_json parse) es \<Longrightarrow> count_list (log_lines to_json es) lf = length es"
proof (induction es)
  case (Cons e es)
  have "json_ok to_json parse e" using Cons.prems by simp
  then obtain l where l: "to_json e = Some l" "lf \<notin> set l" using json_ok_line by blast
  then show ?case using Cons by (simp add: log_lines_Cons [of to_json, OF l(1)] count_list_0_iff nl_def)
qed (simp add: log_lines_def List.map_filter_def)

lemma complete_lines_ended: "c = [] \<or> last c = lf \<Longrightarrow> complete_lines c = c"
  by (cases c rule: rev_cases) (auto simp: complete_lines_def rfind_char_last [where b = "[]", simplified])

lemma log_lines_ended:
  assumes "list_all (json_ok to_json parse) es"
  shows "log_lines to_json es = [] \<or> last (log_lines to_json es) = lf"
proof (cases es rule: rev_cases)
  case (snoc es' e)
  have "json_ok to_json parse e" using assms by (simp add: snoc)
  then obtain l where "to_json e = Some l" using json_ok_line by blast
  then show ?thesis by (simp add: snoc log_lines_snoc nl_def)
qed (simp add: log_lines_def List.map_filter_def)

text \<open>What the invariant says of the tailer, at once and after enough polls.\<close>

lemma pipe_events:
  assumes law: "list_all (json_ok to_json parse) rep" and old: "old = [] \<or> last old = lf"
  shows "events_of parse (old @ log_lines to_json rep) = events_of parse old @ rep"
    and "complete_lines (old @ log_lines to_json rep) = old @ log_lines to_json rep"
proof -
  show "events_of parse (old @ log_lines to_json rep) = events_of parse old @ rep"
    using events_of_append [OF old] log_lines_events [OF law] by simp
  show "complete_lines (old @ log_lines to_json rep) = old @ log_lines to_json rep"
    by (rule complete_lines_ended) (use old log_lines_ended [OF law] in \<open>auto simp: last_append\<close>)
qed

lemma pipe_inv_live:
  assumes "pipe_inv to_json parse clock p old rep (s, ts)"
  shows "prefix (ts_live ts) (events_of parse (old @ log_lines to_json rep))"
  using assms prefix_events [of "old @ log_lines to_json rep" "ts_offset ts" parse]
  unfolding pipe_inv_def tail_inv_def prod.case by metis

lemma pipe_inv_caught_up:
  assumes law: "list_all (json_ok to_json parse) rep" and inv: "pipe_inv to_json parse clock p old rep (s, ts)"
    and short: "list_all (\<lambda>l. length l < MAX_TAIL_CHUNK_BYTES) (split_on lf (old @ log_lines to_json rep))"
    and polls: "count_list old lf + length rep \<le> n"
    and run: "foldl (pipe_step to_json parse clock p) (s, ts) (replicate n Read_poll) = (s', ts')"
  shows "ts_live ts' = events_of parse (complete_lines (old @ log_lines to_json rep))" and "events_ok clock ts'"
proof -
  define c where c: "c = old @ log_lines to_json rep"
  have cs: "contents (cdisk s) p = c" and f: "is_file (cdisk s) p" and t: "tail_inv parse clock p (cdisk s, ts)"
    using inv by (simp_all add: pipe_inv_def c)
  have ts': "foldl (tail_step parse clock p) (cdisk s, ts) (replicate n Polled) = (cdisk s, ts')"
    using run polls_fst [of parse clock p "cdisk s" ts n] by (metis prod.collapse read_polls snd_conv)
  have t': "tail_inv parse clock p (cdisk s, ts')"
    using tailing.run_inv [OF t, of "replicate n Polled"] by (simp add: list_all_iff ts')
  have "count_list c lf \<le> n" using polls count_log_lines [OF law] by (simp add: c)
  then have "count_list (drop (ts_offset ts) c) lf \<le> n" by (metis append_take_drop_id count_list_append add_leE)
  then have "lf \<notin> set (drop (ts_offset ts') c)"
    using polls_catch_up [OF f t, of n] short cs ts' by (simp add: c [symmetric])
  then have "take (ts_offset ts') c = complete_lines c"
    using complete_lines_take t' by (simp add: tail_inv_def cs)
  then show "ts_live ts' = events_of parse (complete_lines (old @ log_lines to_json rep))" "events_ok clock ts'"
    using t' by (simp_all add: tail_inv_def cs c [symmetric])
qed

text \<open>
  Claim C4: what the gateway reports is what the dashboard shows. While the log is below the rotation limit, in every
  interleaving of reports and polls the events on the dashboard's live stream are a beginning of the events of the old
  log followed by the reported ones, in order; and as many further polls as there are lines bring all of them, each
  once, and the store to exactly the summary of them.
\<close>

theorem reported_events_reach_dashboard:
  assumes law: "list_all (json_ok to_json parse) (reported ops)" and start: "collector_inv L p s0"
    and old: "contents (cdisk s0) p = [] \<or> last (contents (cdisk s0) p) = lf"
    and size: "log_written s0 + length (log_lines to_json (reported ops)) < MAX_LOG_BYTES"
    and short: "list_all (\<lambda>l. length l < MAX_TAIL_CHUNK_BYTES)
      (split_on lf (contents (cdisk s0) p @ log_lines to_json (reported ops)))"
    and run: "foldl (pipe_step to_json parse clock p) (s0, tail_start) ops = (s, ts)"
    and polls: "count_list (contents (cdisk s0) p) lf + length (reported ops) \<le> n"
    and end_run: "foldl (pipe_step to_json parse clock p) (s, ts) (replicate n Read_poll) = (s', ts')"
  shows "prefix (ts_live ts) (events_of parse (contents (cdisk s0) p) @ reported ops) \<and>
    ts_live ts' = events_of parse (contents (cdisk s0) p) @ reported ops \<and>
    ts_store ts' = store_of (zip (map clock [0..<length (ts_live ts')]) (ts_live ts'))"
proof -
  let ?old = "contents (cdisk s0) p"
  have f0: "is_file (cdisk s0) p" "p \<noteq> []" "log_written s0 = length ?old"
    using start by (auto simp: collector_inv_def log_ok_def contents_def)
  then have "pipe_inv to_json parse clock p ?old [] (s0, tail_start)"
    using tail_start_inv [of "cdisk s0" p] by (simp add: pipe_inv_def log_lines_def List.map_filter_def)
  then have inv: "pipe_inv to_json parse clock p ?old (reported ops) (s, ts)"
    using pipe_run_inv [OF law, of clock p ?old s0 tail_start] size run f0(3) by simp
  note ev = pipe_events [OF law old]
  note fin = pipe_inv_caught_up [OF law inv short polls end_run]
  show ?thesis using pipe_inv_live [OF inv] fin ev by (simp add: events_ok_def)
qed

text \<open>An empty log, and a library that writes one event.\<close>

definition empty_log :: collector_state where
  "empty_log =
     \<lparr>log_written = 0, cdisk = \<lparr>dentries = [([''log''], DFile SENSITIVE_MODE [])], new_file_mode = 420, new_dir_mode = 493\<rparr>,
      console = []\<rparr>"

lemma empty_log_ok: "collector_inv 1 [''log''] empty_log"
  by (simp add: collector_inv_def log_ok_def empty_log_def is_dir_def is_file_def dlookup_def gen_path_def contents_def
      MAX_LOG_BYTES_def)

theorem reported_events_reach_dashboard_witness:
  "\<exists>s ts. foldl (pipe_step one_line_json (\<lambda>_. Some hostile_login) (\<lambda>_. 0) [''log'']) (empty_log, tail_start)
       [Read_poll, Reported hostile_login, Read_poll] = (s, ts) \<and> ts_live ts = [hostile_login]"
proof -
  let ?step = "pipe_step one_line_json (\<lambda>_. Some hostile_login) (\<lambda>_. 0) [''log'']"
  let ?ops = "[Read_poll, Reported hostile_login]"
  obtain s ts where run: "foldl ?step (empty_log, tail_start) ?ops = (s, ts)" by fastforce
  obtain s' ts' where fin: "foldl ?step (s, ts) (replicate 1 Read_poll) = (s', ts')" by fastforce
  have rep: "reported ?ops = [hostile_login]" by (simp add: reported_def List.map_filter_def)
  have c: "contents (cdisk empty_log) [''log''] = []" "log_written empty_log = 0"
    by (simp_all add: empty_log_def contents_def dlookup_def)
  have lines: "log_lines one_line_json [hostile_login] = ''{}'' @ nl"
    by (simp add: log_lines_def one_line_json_def List.map_filter_def)
  have "valid_utf8 ''{}''" by (rule valid_utf8_ascii) (simp add: byte_of_def)
  then have law: "list_all (json_ok one_line_json (\<lambda>_. Some hostile_login)) (reported ?ops)"
    by (simp add: rep json_ok_def one_line_json_def byte_of_def trim_def trim_start_def trim_end_def is_ws_def)
  have "events_of (\<lambda>_. Some hostile_login) [] = []"
    by (simp add: events_of_def from_utf8_lossy_def str_lines_def List.map_filter_def)
  then have "ts_live ts' = [hostile_login]"
    using reported_events_reach_dashboard [OF law empty_log_ok _ _ _ run _ fin]
    by (simp add: c rep lines nl_def MAX_LOG_BYTES_def MAX_TAIL_CHUNK_BYTES_def)
  moreover have "foldl ?step (empty_log, tail_start) (?ops @ [Read_poll]) = (s', ts')"
    unfolding foldl_append run using fin by auto
  ultimately show ?thesis unfolding append_Cons append_Nil by blast
qed

end
