(* ===== verification/Startup.thy ===== *)
theory Startup
  imports Server Recovery Ebpf Pipeline
begin

text \<open>
  How the two processes start: \<^verbatim>\<open>main\<close> and \<^verbatim>\<open>load_or_create_host_key\<close> of the gateway
  (\<^verbatim>\<open>crates/aegis-gateway/src/main.rs\<close>) and \<^verbatim>\<open>main\<close> of the dashboard
  (\<^verbatim>\<open>crates/aegis-dashboard/src/main.rs\<close>), up to the point where they serve.

  Key generation, the key's text form and the TOML parser are third-party code and arguments. The tasks that
  are spawned on the way (collector, kernel telemetry, tailer) are modelled in their own theories; logging
  and the listening socket are left out.
\<close>

section \<open>Configuration\<close>

text \<open>The components of a path below the working directory.\<close>

definition path_of :: "string \<Rightarrow> path" where
  "path_of s = filter (\<lambda>c. c \<noteq> [] \<and> c \<noteq> ''.'') (split_on (CHR ''/'') s)"

text \<open>The text of an I/O error and the TOML parser with its error text.\<close>

record config_env =
  ce_io_error :: "string \<Rightarrow> string"
  ce_from_str :: "string \<Rightarrow> string + AegisConfig"

definition from_file :: "config_env \<Rightarrow> disk \<Rightarrow> string \<Rightarrow> AegisError + AegisConfig" where
  "from_file ce d p =
     (case fs_read_to_string d (path_of p) of
        None \<Rightarrow> Inl (Config (''cannot read '' @ p @ '': '' @ ce_io_error ce p))
      | Some content \<Rightarrow>
          (case ce_from_str ce content of
             Inl e \<Rightarrow> Inl (Config (''parse error in '' @ p @ '': '' @ e))
           | Inr c \<Rightarrow> Inr c))"

text \<open>The first argument that names a TOML file; a file that does not load gives the defaults.\<close>

definition load_config :: "config_env \<Rightarrow> disk \<Rightarrow> string list \<Rightarrow> AegisConfig" where
  "load_config ce d args =
     (case find (ends_with ''.toml'') args of
        Some p \<Rightarrow> (case from_file ce d p of Inr c \<Rightarrow> c | Inl e \<Rightarrow> AegisConfig_default)
      | None \<Rightarrow> AegisConfig_default)"

definition socket_text :: "string \<Rightarrow> u16 \<Rightarrow> string" where
  "socket_text host port = host @ '':'' @ show_nat (unat port)"

section \<open>The host key\<close>

record 'k key_env =
  generate_ed25519 :: "'k option"
  encode_pkcs8_pem :: "'k \<Rightarrow> string option"
  decode_secret_key :: "string \<Rightarrow> 'k option"

definition or_io :: "'a option \<Rightarrow> AegisError + 'a" where
  "or_io x = (case x of Some v \<Rightarrow> Inr v | None \<Rightarrow> Inl Io)"

definition load_or_create_host_key :: "'k key_env \<Rightarrow> disk \<Rightarrow> string option \<Rightarrow> (AegisError + 'k) \<times> disk" where
  "load_or_create_host_key env d key_path =
     (case key_path of
        None \<Rightarrow> (or_io (generate_ed25519 env), d)
      | Some s \<Rightarrow>
          let p = path_of s
          in case fs_read_to_string d p of
               Some pem \<Rightarrow> (or_io (decode_secret_key env pem), d)
             | None \<Rightarrow>
                 if \<not> not_found d p then (Inl Io, d)
                 else (case generate_ed25519 env of
                         None \<Rightarrow> (Inl Io, d)
                       | Some keypair \<Rightarrow>
                           (case create_private (encode_pkcs8_pem env keypair) d p of
                              (Inl e, d1) \<Rightarrow> (Inl e, d1)
                            | (Inr _, d1) \<Rightarrow> (Inr keypair, d1))))"

section \<open>The SSH library's configuration\<close>

text \<open>Durations are milliseconds; the fields that keep the library's defaults are left out.\<close>

definition SESSION_IDLE_TIMEOUT :: nat where
  "SESSION_IDLE_TIMEOUT = 900 * 1000"

record 'k russh_config =
  server_id :: string
  inactivity_timeout :: "nat option"
  auth_rejection_time :: nat
  auth_rejection_time_initial :: "nat option"
  server_keys :: "'k list"

definition build_russh_config :: "'k \<Rightarrow> 'k russh_config" where
  "build_russh_config keypair =
     \<lparr>server_id = ''SSH-2.0-OpenSSH_9.6p1 Ubuntu-3ubuntu13.4'', inactivity_timeout = Some SESSION_IDLE_TIMEOUT,
      auth_rejection_time = 800, auth_rejection_time_initial = Some 200, server_keys = [keypair]\<rparr>"

section \<open>The gateway\<close>

fun create_dirs :: "disk \<Rightarrow> path list \<Rightarrow> disk option" where
  "create_dirs d [] = Some d"
| "create_dirs d (p # ps) = (case fs_create_dir_all d p of None \<Rightarrow> None | Some d1 \<Rightarrow> create_dirs d1 ps)"

text \<open>
  A gateway that cannot create its directories or obtain a host key does not start; a rootfs that cannot be
  provisioned and probes that cannot be loaded are only logged.
\<close>

record 'k start_env =
  se_kernel :: kernel
  se_sha256 :: sha256_fn
  se_find_iter :: find_iter_fn
  se_keys :: "'k key_env"
  se_ebpf_load :: "string \<Rightarrow> string + bpf_object"
  se_open_city :: "string \<Rightarrow> (IpAddr \<Rightarrow> CityRecord option) option"
  se_open_asn :: "string \<Rightarrow> (IpAddr \<Rightarrow> AsnRecord option) option"
  se_now :: DateTime
  se_instant :: nat

record 'k gateway_state =
  gs_collector :: EventCollector
  gs_russh :: "'k russh_config"
  gs_bind_addr :: string
  gs_server :: AegisServer
  gs_geoip :: GeoIpLookup
  gs_session_map :: session_map
  gs_probes :: "bpf_object option"
  gs_disk :: disk
  gs_events :: "TelemetryEvent list"

definition probes_or_none :: "AegisError + bpf_object option \<Rightarrow> bpf_object option" where
  "probes_or_none r = (case r of Inr probes \<Rightarrow> probes | Inl e \<Rightarrow> None)"

definition output_dirs :: "AegisConfig \<Rightarrow> path list" where
  "output_dirs cfg = [quarantine_dir (forensics_cfg cfg), sessions_dir (forensics_cfg cfg), overlay_base (vmm cfg)]"

definition engine_of :: "AegisConfig \<Rightarrow> ForensicsEngine" where
  "engine_of cfg =
     with_limits (quarantine_dir (forensics_cfg cfg)) (string_min_len (forensics_cfg cfg))
       (max_analysis_bytes (forensics_cfg cfg))"

definition gateway_start :: "'k start_env \<Rightarrow> AegisConfig \<Rightarrow> disk \<Rightarrow> AegisError + 'k gateway_state" where
  "gateway_start env cfg d =
     (case create_dirs d (output_dirs cfg) of
        None \<Rightarrow> Inl Io
      | Some d1 \<Rightarrow>
          let d2 = snd (ensure_golden_rootfs d1 (rootfs_path (vmm cfg)));
              collector = EventCollector_new (attacks_log (forensics_cfg cfg)) (sessions_dir (forensics_cfg cfg)) 4096;
              (d3, evs) = reclaim_at_startup (se_kernel env) (se_sha256 env) (se_find_iter env) True (engine_of cfg)
                (se_now env) (overlay_base (vmm cfg)) (d2, []);
              probes = probes_or_none (load_probes EBPF_BYTES (se_ebpf_load env));
              geo = geoip_load (se_open_city env) (se_open_asn env) (geoip_db_path (geoip cfg)) (asn_db_path (geoip cfg))
          in case load_or_create_host_key (se_keys env) d3 (host_key_path (gateway cfg)) of
               (Inl e, _) \<Rightarrow> Inl e
             | (Inr keypair, d4) \<Rightarrow>
                 Inr \<lparr>gs_collector = collector, gs_russh = build_russh_config keypair,
                      gs_bind_addr = socket_text (gw_bind_addr (gateway cfg)) (gw_port (gateway cfg)),
                      gs_server = server_new cfg (se_instant env), gs_geoip = geo, gs_session_map = [], gs_probes = probes,
                      gs_disk = d4, gs_events = evs\<rparr>)"

definition gateway_main :: "config_env \<Rightarrow> 'k start_env \<Rightarrow> string list \<Rightarrow> disk \<Rightarrow> AegisError + 'k gateway_state" where
  "gateway_main ce env args d = gateway_start env (load_config ce d args) d"

section \<open>The dashboard\<close>

text \<open>The tailer starts on the configured log with an empty store.\<close>

record dashboard_state =
  ds_app :: AppState
  ds_log :: path
  ds_bind_addr :: string

definition dashboard_start :: "string \<Rightarrow> string \<Rightarrow> AegisConfig \<Rightarrow> disk \<Rightarrow> (AegisError + dashboard_state) \<times> disk" where
  "dashboard_start uuid1 uuid2 cfg d =
     (case (if cfg_require_auth (dashboard cfg) then load_or_create_token uuid1 uuid2 d (path_of (token_path (dashboard cfg)))
            else (Inr [], d)) of
        (Inl e, d1) \<Rightarrow> (Inl e, d1)
      | (Inr tok, d1) \<Rightarrow>
          (Inr \<lparr>ds_app = \<lparr>app_store = Store_default, app_sessions_dir = sessions_dir (forensics_cfg cfg), app_token = tok,
                          app_require_auth = cfg_require_auth (dashboard cfg)\<rparr>,
                ds_log = attacks_log (forensics_cfg cfg),
                ds_bind_addr = socket_text (db_bind_addr (dashboard cfg)) (db_port (dashboard cfg))\<rparr>, d1))"

definition dashboard_main ::
  "config_env \<Rightarrow> string \<Rightarrow> string \<Rightarrow> string list \<Rightarrow> disk \<Rightarrow> (AegisError + dashboard_state) \<times> disk" where
  "dashboard_main ce uuid1 uuid2 args d = dashboard_start uuid1 uuid2 (load_config ce d args) d"

section \<open>A stable identity\<close>

text \<open>What the key library documents: a key is written as text that reads back as the same key.\<close>

definition key_law :: "'k key_env \<Rightarrow> bool" where
  "key_law env \<longleftrightarrow>
     (\<forall>k pem. encode_pkcs8_pem env k = Some pem \<longrightarrow> valid_utf8 pem \<and> decode_secret_key env pem = Some k)"

lemma create_host_key:
  assumes "not_found d (path_of s)" and "load_or_create_host_key env d (Some s) = (Inr k, d')"
  shows "\<exists>pem. encode_pkcs8_pem env k = Some pem \<and> dlookup d' (path_of s) = Some (DFile 384 pem)"
proof -
  have "path_of s \<noteq> []" using assms(1) by (auto simp: not_found_def path_exists_def dlookup_def)
  moreover have "generate_ed25519 env = Some k" "create_private (encode_pkcs8_pem env k) d (path_of s) = (Inr (), d')"
    using assms(2) not_found_read [OF assms(1)] assms(1)
    by (auto simp: load_or_create_host_key_def Let_def split: option.splits prod.splits sum.splits)
  ultimately show ?thesis using create_private_file [of "encode_pkcs8_pem env k" d "path_of s"] by auto
qed

text \<open>
  A key that was loaded or created can be read back, and a created one is private.
\<close>

definition file_at :: "disk \<Rightarrow> path \<Rightarrow> (nat \<times> string) option" where
  "file_at d p = (case dlookup d p of Some (DFile m c) \<Rightarrow> Some (m, c) | _ \<Rightarrow> None)"

lemma read_file_at:
  "fs_read_to_string d p =
     (case file_at d p of Some (m, c) \<Rightarrow> if valid_utf8 c then Some c else None | None \<Rightarrow> None)"
  by (auto simp: fs_read_to_string_def fs_read_def file_at_def split: option.splits dentry.splits)

lemma host_key_on_disk:
  assumes "key_law env" and "load_or_create_host_key env d (Some s) = (Inr k, d')"
  obtains m pem where "file_at d' (path_of s) = Some (m, pem)" "valid_utf8 pem" "decode_secret_key env pem = Some k"
    "file_at d (path_of s) = None \<Longrightarrow> m = 384"
proof (cases "fs_read_to_string d (path_of s)")
  case None
  then have "not_found d (path_of s)"
    using assms(2) by (auto simp: load_or_create_host_key_def Let_def split: if_splits)
  from create_host_key [OF this assms(2)] obtain pem
    where "encode_pkcs8_pem env k = Some pem" "dlookup d' (path_of s) = Some (DFile 384 pem)" by blast
  then show ?thesis using assms(1) by (intro that [of 384 pem]) (auto simp: key_law_def file_at_def)
next
  case (Some pem)
  then have "decode_secret_key env pem = Some k" "d' = d"
    using assms(2) by (auto simp: load_or_create_host_key_def or_io_def split: option.splits)
  with Some show ?thesis by (auto simp: read_file_at split: option.splits if_splits intro: that)
qed

lemma host_key_read:
  assumes "file_at d (path_of s) = Some (m, pem)" "valid_utf8 pem" "decode_secret_key env pem = Some k"
  shows "load_or_create_host_key env d (Some s) = (Inr k, d)"
  using assms by (simp add: load_or_create_host_key_def read_file_at or_io_def)

section \<open>What a start leaves alone\<close>

text \<open>A file outside the directories that a start works on is kept, whatever fails on the way.\<close>

definition keeps_file :: "path \<Rightarrow> disk \<Rightarrow> disk \<Rightarrow> bool" where
  "keeps_file p d d' \<longleftrightarrow> (disk_wf d \<longrightarrow> disk_wf d' \<and> file_at d' p = file_at d p)"

lemma keeps_file_refl [simp, intro]: "keeps_file p d d"
  by (simp add: keeps_file_def)

lemma keeps_file_trans [trans]: "keeps_file p a b \<Longrightarrow> keeps_file p b c \<Longrightarrow> keeps_file p a c"
  by (simp add: keeps_file_def)

lemma keeps_fileI: "(disk_wf d \<Longrightarrow> disk_wf d' \<and> dlookup d' p = dlookup d p) \<Longrightarrow> keeps_file p d d'"
  by (simp add: keeps_file_def file_at_def)

lemma create_dir_all_keeps: "fs_create_dir_all d q = Some d' \<Longrightarrow> keeps_file p d d'"
  using create_dir_all_lookup [of d q d'] by (auto simp: keeps_file_def file_at_def)

lemma create_dirs_keeps: "create_dirs d ps = Some d' \<Longrightarrow> keeps_file p d d'"
proof (induction d ps rule: create_dirs.induct)
  case (2 d q ps)
  then obtain d1 where d1: "fs_create_dir_all d q = Some d1" "create_dirs d1 ps = Some d'" by (auto split: option.splits)
  with 2(1) [OF d1(1) d1(2)] show ?case using keeps_file_trans create_dir_all_keeps by blast
qed simp

lemma chmod_keeps: "q \<noteq> [] \<Longrightarrow> q \<noteq> p \<Longrightarrow> keeps_file p d (ignore (fs_set_permissions m) d q)"
  by (rule keeps_fileI) (simp add: set_permissions.ignore_wf chmod_lookup)

lemma write_keeps: "fs_write c d q = Some d' \<Longrightarrow> q \<noteq> [] \<Longrightarrow> q \<noteq> p \<Longrightarrow> keeps_file p d d'"
  by (rule keeps_fileI) (auto simp: fs_write_def open_with_frame intro: write_file.upd_wf [unfolded fs_write_def])

lemma rootfs_write_keeps:
  assumes "q \<noteq> []" "q \<noteq> p"
  shows "keeps_file p d (snd (rootfs_write_file d q c m))"
proof -
  define mk where "mk = (case path_parent q of Some parent \<Rightarrow> fs_create_dir_all d parent | None \<Rightarrow> Some d)"
  show ?thesis
  proof (cases mk)
    case None
    then show ?thesis by (simp add: rootfs_write_file_def mk_def [symmetric])
  next
    case (Some d0)
    define d1 where "d1 = (if path_exists d0 q then ignore (fs_set_permissions 420) d0 q else d0)"
    have "keeps_file p d d0"
      using Some by (auto simp: mk_def create_dir_all_keeps split: option.splits)
    also have "keeps_file p d0 d1" using assms by (simp add: d1_def chmod_keeps)
    finally have "keeps_file p d d1" .
    then show ?thesis
      using assms keeps_file_trans [OF keeps_file_trans [OF _ write_keeps] chmod_keeps]
      by (auto simp: rootfs_write_file_def mk_def [symmetric] Some d1_def [symmetric] Let_def split: option.split)
  qed
qed

lemma try_each_keeps:
  assumes "\<And>x d. x \<in> set xs \<Longrightarrow> keeps_file p d (snd (f d x))"
  shows "keeps_file p d (snd (try_each f d xs))"
  using assms
proof (induction xs arbitrary: d)
  case (Cons x xs)
  obtain r d1 where f: "f d x = (r, d1)" by fastforce
  then have "keeps_file p d d1" using Cons.prems [of x d] by simp
  moreover have "keeps_file p d1 (snd (try_each f d1 xs))" using Cons by simp
  ultimately show ?case using f by (cases r) (auto intro: keeps_file_trans)
qed simp

lemma golden_rootfs_keeps:
  assumes "\<not> prefix base p"
  shows "keeps_file p d (snd (ensure_golden_rootfs d base))"
proof -
  have ne: "base @ q \<noteq> []" "base @ q \<noteq> p" for q using assms by auto
  obtain r d1 where dirs: "try_each (\<lambda>d p. make_dir d (base @ p)) d golden_dirs = (r, d1)" by fastforce
  have "keeps_file p x (snd (make_dir x (base @ q)))" for x q
    by (auto simp: make_dir_def create_dir_all_keeps split: option.split)
  then have s1: "keeps_file p d d1" using try_each_keeps [of golden_dirs p "\<lambda>d p. make_dir d (base @ p)" d] dirs by simp
  define d3 where "d3 = ignore (fs_set_permissions 1023) (ignore (fs_set_permissions 1023) d1 (base @ [''tmp'']))
    (base @ [''var'', ''tmp''])"
  have "keeps_file p d1 d3" unfolding d3_def by (rule keeps_file_trans [OF chmod_keeps chmod_keeps]) (rule ne)+
  moreover have "keeps_file p d3 (snd (try_each (\<lambda>d (q, content, mode). rootfs_write_file d (base @ q) content mode) d3 golden_all))"
    by (rule try_each_keeps) (use rootfs_write_keeps [OF ne] in \<open>auto split: prod.split\<close>)
  ultimately show ?thesis
    using s1 by (cases r) (auto simp: ensure_golden_rootfs_def dirs d3_def Let_def intro: keeps_file_trans)
qed

lemma dispose_upper_keeps:
  assumes "unrelated (fe_quarantine_dir eng) p" "sdir \<noteq> []" "\<not> prefix sdir p"
  shows "keeps_file p d (fst (dispose_upper sha fi rx eng now meta (d, evs) (sdir @ [n])))"
proof (rule keeps_fileI)
  assume wf: "disk_wf d"
  obtain r d1 evs1 where an: "analyze_upperdir sha fi rx eng now meta (d, evs) (sdir @ [n]) = (r, d1, evs1)"
    by (metis prod.collapse)
  have "dlookup d1 p = dlookup d p" "disk_wf d1"
    using analyze_upperdir_frame [OF assms(1) wf, of sha fi rx now meta evs "sdir @ [n]"] an by simp_all
  then show "disk_wf (fst (dispose_upper sha fi rx eng now meta (d, evs) (sdir @ [n]))) \<and>
      dlookup (fst (dispose_upper sha fi rx eng now meta (d, evs) (sdir @ [n]))) p = dlookup d p"
    using assms(2,3) remove_dir_all.ignore_wf
    by (simp add: dispose_upper_def path_parent_def an remove_dir_all_lookup)
qed

lemma reclaim_keeps:
  assumes k: "umount_confined k" and "\<not> prefix obase p" "unrelated (fe_quarantine_dir eng) p"
  shows "keeps_file p d (fst (reclaim_at_startup k sha fi rx eng now obase (d, evs)))"
proof -
  obtain orphans d1 where scan: "reclaim_orphaned_sessions k d obase = (orphans, d1)" by fastforce
  let ?dispose = "\<lambda>s (sid, upper). dispose_upper sha fi rx eng now (orphan_meta now sid) s upper"
  have ns: "\<not> prefix (obase @ x) p" for x using assms(2) append_prefixD by blast
  have all: "keeps_file p (fst s) (fst (foldl ?dispose s os))"
    if "\<And>sid up. (sid, up) \<in> set os \<Longrightarrow> \<exists>n. up = (obase @ [n]) @ [''upper'']" for s os
    using that
  proof (induction os arbitrary: s)
    case (Cons x os)
    obtain sid n where x: "x = (sid, (obase @ [n]) @ [''upper''])" using Cons.prems by (cases x) fastforce
    have "keeps_file p (fst s) (fst (?dispose s x))"
      using dispose_upper_keeps [OF assms(3), of "obase @ [n]"] ns by (cases s) (simp add: x)
    moreover have "keeps_file p (fst (?dispose s x)) (fst (foldl ?dispose (?dispose s x) os))"
      by (rule Cons.IH) (use Cons.prems in auto)
    ultimately show ?case by (simp add: keeps_file_trans)
  qed simp
  show ?thesis
  proof (cases "disk_wf d")
    case True
    note ex = reclaim_exact [OF k True scan]
    have "keeps_file p d d1"
      using ex ns reclaim_wf [OF k True, of obase] scan by (intro keeps_fileI) auto
    moreover have "keeps_file p d1 (fst (foldl ?dispose (d1, evs) orphans))"
      using all [of orphans "(d1, evs)"] conjunct1 [OF ex] by auto
    ultimately show ?thesis by (simp add: reclaim_at_startup_def scan keeps_file_trans)
  qed (simp add: keeps_file_def)
qed

text \<open>Where the host key may be: away from the directories that a start works on.\<close>

definition key_apart :: "AegisConfig \<Rightarrow> path \<Rightarrow> bool" where
  "key_apart cfg p \<longleftrightarrow>
     \<not> prefix (rootfs_path (vmm cfg)) p \<and> \<not> prefix (overlay_base (vmm cfg)) p \<and> unrelated (quarantine_dir (forensics_cfg cfg)) p"

text \<open>A start is the creation of its directories, a preparation that keeps the key file, and the key.\<close>

lemma gateway_start_key:
  assumes "umount_confined (se_kernel env)" and "key_apart cfg (path_of s)"
    and "host_key_path (gateway cfg) = Some s" and "create_dirs d (output_dirs cfg) = Some d1"
  obtains d3 where "keeps_file (path_of s) d d3"
    "\<And>k d4. load_or_create_host_key (se_keys env) d3 (Some s) = (Inr k, d4) \<Longrightarrow>
       \<exists>st. gateway_start env cfg d = Inr st \<and> gs_russh st = build_russh_config k \<and> gs_disk st = d4"
    "\<And>st. gateway_start env cfg d = Inr st \<Longrightarrow>
       \<exists>k. load_or_create_host_key (se_keys env) d3 (Some s) = (Inr k, gs_disk st) \<and> gs_russh st = build_russh_config k"
proof -
  let ?p = "path_of s" and ?d2 = "snd (ensure_golden_rootfs d1 (rootfs_path (vmm cfg)))"
  obtain d3 evs where reclaim: "reclaim_at_startup (se_kernel env) (se_sha256 env) (se_find_iter env) True (engine_of cfg)
      (se_now env) (overlay_base (vmm cfg)) (?d2, []) = (d3, evs)" by fastforce
  have apart: "\<not> prefix (rootfs_path (vmm cfg)) ?p" "\<not> prefix (overlay_base (vmm cfg)) ?p"
    "unrelated (fe_quarantine_dir (engine_of cfg)) ?p"
    using assms(2) by (simp_all add: key_apart_def engine_of_def with_limits_def)
  have "keeps_file ?p d d1" using create_dirs_keeps [OF assms(4)] .
  also have "keeps_file ?p d1 ?d2" by (rule golden_rootfs_keeps [OF apart(1)])
  also have "keeps_file ?p ?d2 d3"
    using reclaim_keeps [OF assms(1) apart(2,3), where sha = "se_sha256 env" and fi = "se_find_iter env" and rx = True
        and now = "se_now env" and d = ?d2 and evs = "[]"] reclaim by simp
  finally have "keeps_file ?p d d3" .
  then show thesis
    by (rule that) (auto simp: gateway_start_def assms(3,4) reclaim Let_def split: sum.splits prod.splits)
qed

definition demo_keys :: "nat key_env" where
  "demo_keys =
     \<lparr>generate_ed25519 = Some 7, encode_pkcs8_pem = (\<lambda>n. if n < 10 then Some (show_nat n) else None),
      decode_secret_key = (\<lambda>s. if length s = 1 then Some (byte_of (hd s) - 48) else None)\<rparr>"

lemma demo_keys_law: "key_law demo_keys"
proof -
  have "valid_utf8 (show_nat n) \<and> length (show_nat n) = 1 \<and> byte_of (hd (show_nat n)) - 48 = n" if "n < 10" for n
    using that by (auto simp: less_Suc_eq numeral_eq_Suc show_nat.simps digit_char_def valid_utf8_def in_range_def byte_of_def)
  then show ?thesis by (auto simp: key_law_def demo_keys_def split: if_splits)
qed

text \<open>
  Claim C5: the gateway keeps its identity over restarts. If a start that found no host key succeeds, the key file is
  private (mode 0600). And after any start that succeeded, a later start on any disk that still has that key file,
  whatever else became of the disk and whatever key would be generated now, succeeds as soon as its directories can be
  created, presents the same key to its clients, and leaves the key file as it was; a rootfs that cannot be
  provisioned or a reconciliation that fails does not change this.
\<close>

theorem gateway_identity_survives_restart:
  assumes path: "host_key_path (gateway cfg) = Some s" "key_apart cfg (path_of s)" and law: "key_law (se_keys env)"
    and k: "umount_confined (se_kernel env)" "umount_confined (se_kernel env')"
    and first: "disk_wf d" "gateway_start env cfg d = Inr st"
    and later: "disk_wf d'" "file_at d' (path_of s) = file_at (gs_disk st) (path_of s)"
    and env': "se_keys env' = (se_keys env)\<lparr>generate_ed25519 := other\<rparr>"
    and dirs: "create_dirs d' (output_dirs cfg) \<noteq> None"
  shows "(file_at d (path_of s) = None \<longrightarrow> (\<exists>pem. file_at (gs_disk st) (path_of s) = Some (384, pem))) \<and>
    (\<exists>st'. gateway_start env' cfg d' = Inr st' \<and> server_keys (gs_russh st') = server_keys (gs_russh st) \<and>
       file_at (gs_disk st') (path_of s) = file_at d' (path_of s))"
proof -
  obtain d1 where "create_dirs d (output_dirs cfg) = Some d1"
    using first(2) by (auto simp: gateway_start_def split: option.splits)
  then obtain d3 k where d3: "keeps_file (path_of s) d d3"
    and key: "load_or_create_host_key (se_keys env) d3 (Some s) = (Inr k, gs_disk st)" "gs_russh st = build_russh_config k"
    by (rule gateway_start_key [OF k(1) path(2,1)]) (use first(2) in blast)
  from host_key_on_disk [OF law key(1)] obtain m pem
    where pem: "file_at (gs_disk st) (path_of s) = Some (m, pem)" "valid_utf8 pem" "decode_secret_key (se_keys env) pem = Some k"
      "file_at d3 (path_of s) = None \<Longrightarrow> m = 384" by blast
  obtain d1' where "create_dirs d' (output_dirs cfg) = Some d1'" using dirs by blast
  then obtain d3' where d3': "keeps_file (path_of s) d' d3'"
    and start: "\<And>k d4. load_or_create_host_key (se_keys env') d3' (Some s) = (Inr k, d4) \<Longrightarrow>
      \<exists>st. gateway_start env' cfg d' = Inr st \<and> gs_russh st = build_russh_config k \<and> gs_disk st = d4"
    by (rule gateway_start_key [OF k(2) path(2,1)]) blast
  have same: "file_at d3' (path_of s) = Some (m, pem)" using d3' later pem(1) by (simp add: keeps_file_def)
  have "load_or_create_host_key (se_keys env') d3' (Some s) = (Inr k, d3')"
    by (rule host_key_read [OF same pem(2)]) (simp add: env' pem(3))
  from start [OF this] same later(2) pem(1) key(2)
  have "\<exists>st'. gateway_start env' cfg d' = Inr st' \<and> server_keys (gs_russh st') = server_keys (gs_russh st) \<and>
      file_at (gs_disk st') (path_of s) = file_at d' (path_of s)" by auto
  moreover have "file_at d3 (path_of s) = file_at d (path_of s)" using d3 first(1) by (simp add: keeps_file_def)
  ultimately show ?thesis using pem(1,4) by auto
qed

definition demo_start :: "nat start_env" where
  "demo_start =
     \<lparr>se_kernel = no_mounts, se_sha256 = (\<lambda>c. ''h''), se_find_iter = (\<lambda>re s. []), se_keys = demo_keys,
      se_ebpf_load = (\<lambda>c. Inl ''''), se_open_city = (\<lambda>p. None), se_open_asn = (\<lambda>p. None), se_now = 0, se_instant = 0\<rparr>"

definition key_disk :: disk where
  "key_disk = \<lparr>dentries = [([''host_key.pem''], DFile 384 ''7'')], new_file_mode = 420, new_dir_mode = 493\<rparr>"

theorem gateway_identity_survives_restart_witness:
  "\<exists>st st'. gateway_start demo_start AegisConfig_default key_disk = Inr st \<and>
     gateway_start (demo_start\<lparr>se_keys := demo_keys\<lparr>generate_ed25519 := Some 8\<rparr>\<rparr>) AegisConfig_default key_disk = Inr st' \<and>
     server_keys (gs_russh st') = server_keys (gs_russh st)"
proof -
  let ?s = "''./host_key.pem''" and ?env' = "demo_start\<lparr>se_keys := demo_keys\<lparr>generate_ed25519 := Some 8\<rparr>\<rparr>"
  have p: "path_of ?s = [''host_key.pem'']" by (simp add: path_of_def)
  have path: "host_key_path (gateway AegisConfig_default) = Some ?s" by (simp add: AegisConfig_default_def)
  have apart: "key_apart AegisConfig_default (path_of ?s)"
    by (simp add: p key_apart_def AegisConfig_default_def unrelated_def)
  have k: "umount_confined (se_kernel demo_start)" "umount_confined (se_kernel ?env')"
    by (simp_all add: demo_start_def umount_confined_def no_mounts_def)
  have wf: "disk_wf key_disk" by (simp add: disk_wf_def key_disk_def is_dir_def dlookup_def)
  have dirs: "create_dirs key_disk (output_dirs AegisConfig_default) \<noteq> None"
    by (simp add: output_dirs_def AegisConfig_default_def fs_create_dir_all_def key_disk_def is_dir_def
        path_exists_def dlookup_def put_def Let_def)
  have utf: "valid_utf8 ''7''" by (rule valid_utf8_ascii) (simp add: byte_of_def)
  have kf: "file_at key_disk (path_of ?s) = Some (384, ''7'')" by (simp add: p file_at_def key_disk_def dlookup_def)
  obtain d1 where "create_dirs key_disk (output_dirs AegisConfig_default) = Some d1" using dirs by blast
  then obtain st where st: "gateway_start demo_start AegisConfig_default key_disk = Inr st"
    and same: "file_at (gs_disk st) (path_of ?s) = file_at key_disk (path_of ?s)"
  proof (rule gateway_start_key [OF k(1) apart path])
    fix d3 assume d3: "keeps_file (path_of ?s) key_disk d3"
      and start: "\<And>k d4. load_or_create_host_key (se_keys demo_start) d3 (Some ?s) = (Inr k, d4) \<Longrightarrow>
        \<exists>st. gateway_start demo_start AegisConfig_default key_disk = Inr st \<and> gs_russh st = build_russh_config k \<and> gs_disk st = d4"
    have f3: "file_at d3 (path_of ?s) = Some (384, ''7'')" using d3 wf kf by (simp add: keeps_file_def)
    have "load_or_create_host_key (se_keys demo_start) d3 (Some ?s) = (Inr 7, d3)"
      by (rule host_key_read [OF f3 utf]) (simp add: demo_start_def demo_keys_def byte_of_def)
    from start [OF this] show thesis using f3 kf that by auto
  qed
  have law: "key_law (se_keys demo_start)" using demo_keys_law by (simp add: demo_start_def)
  have "se_keys ?env' = (se_keys demo_start)\<lparr>generate_ed25519 := Some 8\<rparr>" by (simp add: demo_start_def)
  from gateway_identity_survives_restart [OF path apart law k wf st wf same [symmetric] this dirs] st
  show ?thesis by blast
qed

section \<open>Configuration errors\<close>

text \<open>
  A configuration file that cannot be read or parsed is as good as none: both processes start with the
  defaults, and the error text is dropped.
\<close>

lemma broken_config_is_default:
  assumes "find (ends_with ''.toml'') args = Some p" and "from_file ce d p = Inl e"
  shows "gateway_main ce env args d = gateway_main ce env [] d"
    and "dashboard_main ce uuid1 uuid2 args d = dashboard_main ce uuid1 uuid2 [] d"
  using assms by (simp_all add: gateway_main_def dashboard_main_def load_config_def)

text \<open>With the same configuration the dashboard tails the file that the collector writes.\<close>

lemma processes_share_log:
  assumes "gateway_start env cfg d = Inr st" and "dashboard_start uuid1 uuid2 cfg d' = (Inr ds, d'')"
  shows "ds_log ds = ec_log_path (gs_collector st)"
  using assms
  by (auto simp: gateway_start_def dashboard_start_def EventCollector_new_def Let_def
      split: option.splits prod.splits sum.splits if_splits)

end
