(* ===== verification/Spec2Isabelle.thy ===== *)
theory Spec2Isabelle
  imports Startup
begin

text \<open>
  A verification development for the SSH honeypot \<^verbatim>\<open>aegis\<close> (\<^verbatim>\<open>src/crates\<close>).

  \<^bold>\<open>The program.\<close> Two processes share a disk. The gateway accepts SSH connections
  (\<^verbatim>\<open>aegis-gateway\<close>), admits them by source prefix, gives every session a sandbox directory over a golden
  root file system (\<^verbatim>\<open>aegis-vmm\<close>), lets the attacker type into a fake shell over a virtual file system, fetches the
  payloads the attacker asks for, records the terminal and reports every step as a telemetry event. When a session
  ends its files are analysed and quarantined (\<^verbatim>\<open>aegis-forensics\<close>). Events go through one channel to the collector
  (\<^verbatim>\<open>aegis-collector\<close>), which writes a rotated log; kernel probes (\<^verbatim>\<open>aegis-ebpf\<close>) feed the same channel. The
  dashboard (\<^verbatim>\<open>aegis-dashboard\<close>) tails that log into a bounded store and serves it behind a bearer token. The shared types
  and the configuration are in \<^verbatim>\<open>aegis-common\<close>.

  \<^bold>\<open>Foundations.\<close>
  \<^item> \<open>Aegis_Prelude\<close>: the string functions of the standard library, words, the collections of simplification
    rules, steps that may panic, and the locale \<open>step_system\<close> for invariants of runs, which every state machine below interprets.
  \<^item> \<open>Utf8\<close>: characters of a byte string, validity, lossy decoding, and slices, which panic inside a character. \<open>Net_Addr\<close>: IP addresses, their text and the
    special-use blocks. \<open>Aegis_Common\<close>: events, configuration and kernel records of \<^verbatim>\<open>aegis-common/src/lib.rs\<close>.
  \<^item> \<open>Disk\<close>: the host file system as \<^verbatim>\<open>std::fs\<close> shows it, with the locale \<open>disk_update\<close>: what an update keeps of
    well-formedness and of every path outside a directory. Each call is an interpretation.

  \<^bold>\<open>The gateway.\<close>
  \<^item> \<open>Ssrf_Guard\<close>, \<open>Admission\<close>, \<open>Payload_Fetch\<close> (\<^verbatim>\<open>handler.rs\<close>): which addresses may be dialled, as membership in the
    special-use blocks; admission by prefix with the concurrency and rate bounds over every run; the fetcher, which
    never depends on a blocked host and captures exactly the beginning of the body up to the cap.
  \<^item> \<open>Vfs_Tree\<close>, \<open>Vfs\<close> (\<^verbatim>\<open>vfs.rs\<close>) and \<open>Shell\<close> (\<^verbatim>\<open>shell.rs\<close>): the in-memory tree, the three layers, every command.
    The locale \<open>file_command\<close> states what every command that changes files promises: it returns, is confined and keeps the
    working directory. Resolution stays inside the base directory, the dispatcher never panics on text (no slice, no last
    component of an empty path) and touches nothing outside the session's mount, \<^verbatim>\<open>ls\<close> prints the union of the layers, and
    redirections write what \<^verbatim>\<open>cat\<close> shows.
  \<^item> \<open>Rootfs\<close> and \<open>Vmm\<close> (\<^verbatim>\<open>aegis-vmm\<close>): provisioning of the golden files, overlays, teardown and the
    reconciliation of sessions a crash left behind; evidence within the cap is quarantined before its directory is
    removed if the overlay can be unmounted, and lost if it cannot or if it exceeds the cap.
    \<open>Recovery\<close> carries this through a restart over all sessions of the crashed process.
  \<^item> \<open>Forensics\<close> (\<^verbatim>\<open>aegis-forensics/src/lib.rs\<close>): the walk over the upper directory, string extraction, quarantine;
    capture is complete for executable artifacts within the size cap.
  \<^item> \<open>GeoIp\<close> (\<^verbatim>\<open>geoip.rs\<close>): loading and lookup.
  \<^item> \<open>Session\<close> (\<^verbatim>\<open>handler.rs\<close>): the handler of one connection, every callback and every byte of the keyboard state
    machine, over the session state and the world (disk, events, terminal). \<open>Session_Run\<close> proves what holds for every
    run of callbacks: bounded buffers, one end event, the fetch budget, confinement, and that a typed line is
    run and answered. \<open>Server\<close> interleaves connects, callbacks and drops of many sessions: slots balance, and a
    session is isolated from the rest of the host.
  \<^item> \<open>Collector\<close> (\<^verbatim>\<open>aegis-collector/src/lib.rs\<close>): console escaping, the rotated log, which refines a ring of five
    strings, and the capped recorder.
  \<^item> \<open>Ebpf\<close> (\<^verbatim>\<open>aegis-ebpf\<close>): the three kernel programs, the wire format of the ring buffer, loader and consumer; a connect is
    reported with its address, drops are counted, executions never arrive and no event is attributed to its session.

  \<^bold>\<open>The dashboard.\<close>
  \<^item> \<open>Store\<close> (\<^verbatim>\<open>store.rs\<close>): ingestion and all queries. The store refines the log of ingested events and is bounded; the
    locale \<open>capped_container\<close> states what a capped set and a capped counter share.
  \<^item> \<open>Tailer\<close> (\<^verbatim>\<open>main.rs\<close>): polls interleaved with appends of the logger; every line is delivered once and in order, and
    the tailer catches up as long as a line fits into a chunk.
  \<^item> \<open>Dashboard\<close> (\<^verbatim>\<open>main.rs\<close>): the token file, authentication and header layers, routing and handlers; the gate, and that no
    file but recordings is read.
  \<^item> \<open>Pipeline\<close> joins the two processes over the log: in every interleaving of reports and polls what the gateway
    reports is what the dashboard shows, in order and once.
  \<^item> \<open>Startup\<close>: \<^verbatim>\<open>main\<close> of both processes, from the configuration file to the point where they serve. Every step of a
    start keeps the files outside its directories, so that the gateway presents the same host key after every restart.

  \<^bold>\<open>Text.\<close> A Rust \<^verbatim>\<open>String\<close> is a byte string that satisfies \<^const>\<open>valid_utf8\<close>, which is a hypothesis where a statement
  needs it; the library functions of \<open>Utf8\<close> are shown to keep it. White space is the ASCII part of \<^verbatim>\<open>char::is_whitespace\<close>, which is
  all that the printable-ASCII command lines of a session can contain; for other text (log lines, the token file) Rust also trims the
  white space of Unicode.

  \<^bold>\<open>Conventions.\<close> A struct is a record, an enum a datatype, an \<^verbatim>\<open>io::Error\<close> or a panic is \<^const>\<open>None\<close> or a value
  of a sum type. Integers keep their width where the code can wrap (admission counters, fetch budget, ports,
  addresses, the drop counter); sizes and totals that no reachable state brings near \<^verbatim>\<open>2^64\<close> are natural numbers, and
  floating-point values (coordinates, durations) are rationals. Maps whose order is not observed are association
  lists. No definition uses fuel: every loop of the program is a structural recursion or a function with a
  termination proof, and the endless loops of the tasks are given by their bodies, folded over arbitrary sequences of inputs.

  \<^bold>\<open>Parameters.\<close> Third-party code enters as an argument, with what is used of it as a named hypothesis: the SSH, HTTP, TOML
  and JSON libraries, URL parsing and name resolution, SHA-256, the regex engine, the MaxMind reader, key generation and
  encoding, mount and umount, the BPF helpers and the loader library; and with them the clock, random identifiers, and
  whether a send to a client or to the collector succeeds.

  \<^bold>\<open>Not modelled.\<close> Logging set-up and log lines; the socket accept loops, which are inside the SSH and HTTP libraries;
  serialisation to JSON and TOML, which the libraries derive; when a subscriber of the event stream lags, which is inside
  the broadcast channel (the stream takes the messages of its receiver, gaps included); the static page of the dashboard (HTML and JavaScript); resource exhaustion of the
  host (full disk, memory) and links on the host file system, which the program never creates. A task's steps are
  atomic: the program holds its locks over them.
\<close>

end
